(* ===== verification/Prelude.thy ===== *)
theory Prelude
  imports Main "HOL-Library.Word" "HOL-Library.Sublist"
begin

text \<open>
  Shared material of the development.

  \<^item> Names for the machine integers the Rust sources use and for durations, which are
    natural numbers of nanoseconds.
  \<^item> The operations of Rust's standard \<^verbatim>\<open>str\<close> and \<^verbatim>\<open>slice\<close> types that the
    sources call: prefix and substring tests, \<open>split_once\<close>, \<open>rsplit_once\<close>,
    \<open>trim\<close>, \<open>trim_end_matches\<close>, ASCII lower-casing and decimal printing. A string is
    a list of characters; the sources' literals are all ASCII, and lower-casing is the
    ASCII one.
  \<^item> State-passing computations with an error result (\<open>io_bind\<close>), which is how an
    \<^verbatim>\<open>async fn ... -> Result<T>\<close> with its \<^verbatim>\<open>?\<close> operator is written, and the
    inversion rules for them, collected in \<open>io_iff\<close>. \<open>keeps P m\<close> says that \<open>m\<close> leaves what
    \<open>P\<close> observes of the state alone; its rules are \<open>keeps_rules\<close>.
  \<^item> Counting lemmas for lists that are updated by index, which the step machines use.
\<close>

named_theorems io_iff
named_theorems keeps_rules

type_synonym u8 = "8 word"
type_synonym u16 = "16 word"
type_synonym u32 = "32 word"
type_synonym u64 = "64 word"
type_synonym usize = "64 word"

text \<open>A \<^verbatim>\<open>Duration\<close> and a point in time, in nanoseconds.\<close>

type_synonym duration = nat
type_synonym instant = nat

definition nanos_per_sec :: nat where
  "nanos_per_sec = 1000000000"

definition from_secs :: "u64 \<Rightarrow> duration" where
  "from_secs s = unat s * nanos_per_sec"

definition from_millis :: "nat \<Rightarrow> duration" where
  "from_millis ms = ms * 1000000"

definition as_secs :: "duration \<Rightarrow> nat" where
  "as_secs d = d div nanos_per_sec"

subsection \<open>Strings\<close>

definition strip_prefix :: "string \<Rightarrow> string \<Rightarrow> string option" where
  "strip_prefix p s = (if prefix p s then Some (drop (length p) s) else None)"

fun split_once :: "char \<Rightarrow> string \<Rightarrow> (string \<times> string) option" where
  "split_once c [] = None"
| "split_once c (x # xs) =
     (if x = c then Some ([], xs)
      else map_option (\<lambda>(a, b). (x # a, b)) (split_once c xs))"

definition rsplit_once :: "char \<Rightarrow> string \<Rightarrow> (string \<times> string) option" where
  "rsplit_once c s = map_option (\<lambda>(a, b). (rev b, rev a)) (split_once c (rev s))"

text \<open>
  \<^verbatim>\<open>s.split(c).next()\<close> is never \<^verbatim>\<open>None\<close>: the first piece of a string without the
  separator is the string itself.
\<close>

definition split_next :: "char \<Rightarrow> string \<Rightarrow> string" where
  "split_next c s = takeWhile (\<lambda>x. x \<noteq> c) s"

fun split_on :: "char \<Rightarrow> string \<Rightarrow> string list" where
  "split_on c [] = [[]]"
| "split_on c (x # xs) =
     (if x = c then [] # split_on c xs
      else case split_on c xs of [] \<Rightarrow> [[x]] | p # ps \<Rightarrow> (x # p) # ps)"

text \<open>\<^verbatim>\<open>str::parse::<u64>\<close>: an optional plus, then digits only, and the value must fit.\<close>

fun digits_value :: "nat \<Rightarrow> string \<Rightarrow> nat option" where
  "digits_value acc [] = Some acc"
| "digits_value acc (c # cs) =
     (let n = of_char c :: nat in
      if 48 \<le> n \<and> n \<le> 57 then digits_value (acc * 10 + (n - 48)) cs else None)"

definition parse_u64 :: "string \<Rightarrow> u64 option" where
  "parse_u64 s =
     (let t = (case s of c # cs \<Rightarrow> if c = CHR ''+'' then cs else s | [] \<Rightarrow> [])
      in if t = [] then None
         else case digits_value 0 t of
                None \<Rightarrow> None
              | Some n \<Rightarrow> if n < 2 ^ 64 then Some (of_nat n) else None)"

definition trim_end_matches :: "char \<Rightarrow> string \<Rightarrow> string" where
  "trim_end_matches c s = rev (dropWhile (\<lambda>x. x = c) (rev s))"

definition is_whitespace :: "char \<Rightarrow> bool" where
  "is_whitespace c \<longleftrightarrow> (let n = of_char c :: nat in n = 32 \<or> (9 \<le> n \<and> n \<le> 13))"

definition trim :: "string \<Rightarrow> string" where
  "trim s = rev (dropWhile is_whitespace (rev (dropWhile is_whitespace s)))"

definition ascii_lower_char :: "char \<Rightarrow> char" where
  "ascii_lower_char c =
     (let n = of_char c :: nat in if 65 \<le> n \<and> n \<le> 90 then char_of (n + 32) else c)"

definition ascii_lower :: "string \<Rightarrow> string" where
  "ascii_lower s = map ascii_lower_char s"

definition digit_char :: "nat \<Rightarrow> char" where
  "digit_char d = char_of (48 + d)"

fun show_nat :: "nat \<Rightarrow> string" where
  "show_nat n = (if n < 10 then [digit_char n] else show_nat (n div 10) @ [digit_char (n mod 10)])"

declare show_nat.simps [simp del]

subsection \<open>Computations with state and an error result\<close>

type_synonym ('s, 'e, 'a) io = "'s \<Rightarrow> ('e + 'a) \<times> 's"

definition io_return :: "'a \<Rightarrow> ('s, 'e, 'a) io" where
  "io_return x s = (Inr x, s)"

definition io_fail :: "'e \<Rightarrow> ('s, 'e, 'a) io" where
  "io_fail e s = (Inl e, s)"

definition io_bind :: "('s, 'e, 'a) io \<Rightarrow> ('a \<Rightarrow> ('s, 'e, 'b) io) \<Rightarrow> ('s, 'e, 'b) io" where
  "io_bind m f s = (case m s of (Inl e, s') \<Rightarrow> (Inl e, s') | (Inr x, s') \<Rightarrow> f x s')"

definition io_map_err :: "('d \<Rightarrow> 'e) \<Rightarrow> ('s, 'd, 'a) io \<Rightarrow> ('s, 'e, 'a) io" where
  "io_map_err g m s = (case m s of (Inl e, s') \<Rightarrow> (Inl (g e), s') | (Inr x, s') \<Rightarrow> (Inr x, s'))"

text \<open>A \<^verbatim>\<open>for\<close> loop over a list whose body may leave the function with an error.\<close>

fun io_each :: "('a \<Rightarrow> ('s, 'e, unit) io) \<Rightarrow> 'a list \<Rightarrow> ('s, 'e, unit) io" where
  "io_each f [] = io_return ()"
| "io_each f (x # xs) = io_bind (f x) (\<lambda>_. io_each f xs)"

text \<open>A pure \<^verbatim>\<open>Result\<close> as a computation.\<close>

definition io_lift :: "'e + 'a \<Rightarrow> ('s, 'e, 'a) io" where
  "io_lift r s = (r, s)"

lemma io_lift_iff [io_iff]: "io_lift r s = (q, t) \<longleftrightarrow> r = q \<and> t = s"
  by (auto simp: io_lift_def)

fun io_repeat :: "nat \<Rightarrow> ('s, 'e, 'a) io \<Rightarrow> ('s, 'e, 'a list) io" where
  "io_repeat 0 m = io_return []"
| "io_repeat (Suc n) m = io_bind m (\<lambda>x. io_bind (io_repeat n m) (\<lambda>xs. io_return (x # xs)))"

lemma io_return_iff [io_iff]: "io_return x s = (r, t) \<longleftrightarrow> r = Inr x \<and> t = s"
  by (auto simp: io_return_def)

lemma io_fail_iff [io_iff]: "io_fail e s = (r, t) \<longleftrightarrow> r = Inl e \<and> t = s"
  by (auto simp: io_fail_def)

lemma io_bind_Inr_iff [io_iff]:
  "io_bind m f s = (Inr y, t) \<longleftrightarrow> (\<exists>x s'. m s = (Inr x, s') \<and> f x s' = (Inr y, t))"
  by (auto simp: io_bind_def split: prod.splits sum.splits)

lemma io_bind_Inl_iff [io_iff]:
  "io_bind m f s = (Inl e, t) \<longleftrightarrow>
     m s = (Inl e, t) \<or> (\<exists>x s'. m s = (Inr x, s') \<and> f x s' = (Inl e, t))"
  by (auto simp: io_bind_def split: prod.splits sum.splits)

lemma io_map_err_Inr_iff [io_iff]: "io_map_err g m s = (Inr x, t) \<longleftrightarrow> m s = (Inr x, t)"
  by (auto simp: io_map_err_def split: prod.splits sum.splits)

lemma io_map_err_Inl_iff [io_iff]:
  "io_map_err g m s = (Inl e, t) \<longleftrightarrow> (\<exists>d. m s = (Inl d, t) \<and> e = g d)"
  by (auto simp: io_map_err_def split: prod.splits sum.splits)

definition keeps :: "('s \<Rightarrow> 'v) \<Rightarrow> ('s, 'e, 'a) io \<Rightarrow> bool" where
  "keeps P m \<longleftrightarrow> (\<forall>s. P (snd (m s)) = P s)"

lemma keepsD: "keeps P m \<Longrightarrow> m s = (r, t) \<Longrightarrow> P t = P s"
  by (auto simp: keeps_def dest: spec [of _ s])

lemma keeps_return [keeps_rules]: "keeps P (io_return x)"
  by (simp add: keeps_def io_return_def)

lemma keeps_fail [keeps_rules]: "keeps P (io_fail e)"
  by (simp add: keeps_def io_fail_def)

lemma keeps_lift [keeps_rules]: "keeps P (io_lift r)"
  by (simp add: keeps_def io_lift_def)

lemma keeps_map_err [keeps_rules]: "keeps P m \<Longrightarrow> keeps P (io_map_err g m)"
  by (auto simp: keeps_def io_map_err_def split: prod.splits sum.splits) (metis snd_conv)+

lemma keeps_bind [keeps_rules]:
  assumes "keeps P m" and "\<And>x. keeps P (f x)"
  shows "keeps P (io_bind m f)"
  using assms unfolding keeps_def io_bind_def
  by (auto split: prod.splits sum.splits) (metis snd_conv)+

lemma keeps_each [keeps_rules]: "(\<And>x. keeps P (f x)) \<Longrightarrow> keeps P (io_each f xs)"
  by (induction xs) (auto intro: keeps_rules)

lemma keeps_if [keeps_rules]: "keeps P m \<Longrightarrow> keeps P n \<Longrightarrow> keeps P (if b then m else n)"
  by simp

lemma keeps_case_option [keeps_rules]:
  "keeps P m \<Longrightarrow> (\<And>x. keeps P (f x)) \<Longrightarrow> keeps P (case y of None \<Rightarrow> m | Some x \<Rightarrow> f x)"
  by (cases y) auto

text \<open>An invariant that every step of the loop's body keeps is kept by the loop.\<close>

lemma io_each_inv:
  assumes "io_each f xs s = (r, t)" and "I s"
    and "\<And>x s r t. x \<in> set xs \<Longrightarrow> f x s = (r, t) \<Longrightarrow> I s \<Longrightarrow> I t"
  shows "I t"
  using assms
proof (induction xs arbitrary: s)
  case Nil
  then show ?case by (simp add: io_return_def)
next
  case (Cons x xs)
  obtain q u where q: "f x s = (q, u)" by force
  then have "I u" using Cons.prems(2) Cons.prems(3) [of x s q u] by simp
  moreover have "q = Inl e \<Longrightarrow> t = u" for e
    using q Cons.prems(1) by (simp add: io_bind_def)
  moreover have "q = Inr y \<Longrightarrow> io_each f xs u = (r, t)" for y
    using q Cons.prems(1) by (simp add: io_bind_def)
  ultimately show ?case
    using Cons.IH [of u] Cons.prems(3) by (cases q) (simp_all, blast)
qed

subsection \<open>Lemmas on strings\<close>

lemma split_once_None_iff: "split_once c s = None \<longleftrightarrow> c \<notin> set s"
  by (induction s) auto

lemma split_once_Some_iff:
  "split_once c s = Some (a, b) \<longleftrightarrow> s = a @ c # b \<and> c \<notin> set a"
proof (induction s arbitrary: a)
  case Nil
  then show ?case by simp
next
  case (Cons x s)
  show ?case
  proof (cases a)
    case Nil
    then show ?thesis by auto
  next
    case (Cons y a')
    then show ?thesis using Cons.IH [of a'] by auto
  qed
qed

lemma split_once_append: "c \<notin> set a \<Longrightarrow> split_once c (a @ c # b) = Some (a, b)"
  by (simp add: split_once_Some_iff)

lemma strip_prefix_Some_iff: "strip_prefix p s = Some r \<longleftrightarrow> s = p @ r"
  by (auto simp: strip_prefix_def prefix_def)

lemma split_next_no_sep [simp]: "c \<notin> set (split_next c s)"
  by (auto simp: split_next_def dest: set_takeWhileD)

lemma split_next_subset: "set (split_next c s) \<subseteq> set s"
  by (auto simp: split_next_def dest: set_takeWhileD)

lemma split_next_append: "c \<notin> set a \<Longrightarrow> split_next c (a @ c # b) = a"
  unfolding split_next_def by (subst takeWhile_append2) auto

lemma split_next_id [simp]: "c \<notin> set a \<Longrightarrow> split_next c a = a"
  unfolding split_next_def by (subst takeWhile_eq_all_conv) auto

lemma split_on_not_Nil [simp]: "split_on c s \<noteq> []"
  by (cases s) (auto split: list.splits)

lemma split_on_append: "split_on c (a @ c # b) = split_on c a @ split_on c b"
  by (induction a) (auto split: list.splits)

lemma split_on_id: "c \<notin> set s \<Longrightarrow> split_on c s = [s]"
  by (induction s) auto

lemma split_on_Cons:
  "c \<notin> set p \<Longrightarrow> split_on c (p @ s) = (case split_on c s of [] \<Rightarrow> [] | q # qs \<Rightarrow> (p @ q) # qs)"
  by (induction p) (auto split: list.splits)

text \<open>The pieces of a split are the maximal stretches without the separator.\<close>

lemma in_split_on_iff:
  "p \<in> set (split_on c s) \<longleftrightarrow>
     (\<exists>a b. s = a @ p @ b \<and> c \<notin> set p \<and> (a = [] \<or> last a = c) \<and> (b = [] \<or> hd b = c))"
  (is "_ \<longleftrightarrow> ?R s")
proof
  show "p \<in> set (split_on c s) \<Longrightarrow> ?R s"
  proof (induction "length s" arbitrary: s rule: less_induct)
    case less
    show ?case
    proof (cases "split_once c s")
      case None
      then have "c \<notin> set s" by (simp add: split_once_None_iff)
      with less.prems have "s = [] @ p @ [] \<and> c \<notin> set p" by (simp add: split_on_id)
      then show ?thesis by blast
    next
      case (Some ub)
      then obtain u b where s: "s = u @ c # b" "c \<notin> set u" by (cases ub) (auto simp: split_once_Some_iff)
      with less.prems consider "p = u" | "p \<in> set (split_on c b)" by (auto simp: split_on_append split_on_id)
      then show ?thesis
      proof cases
        case 1
        then show ?thesis using s by (intro exI [of _ "[]"] exI [of _ "c # b"]) simp
      next
        case 2
        with less.hyps [of b] s obtain a d where "b = a @ p @ d" "c \<notin> set p" "a = [] \<or> last a = c" "d = [] \<or> hd d = c"
          by auto
        with s show ?thesis by (intro exI [of _ "u @ c # a"] exI [of _ d]) auto
      qed
    qed
  qed
next
  assume "?R s"
  then obtain a b where s: "s = a @ p @ b" "c \<notin> set p" "a = [] \<or> last a = c" "b = [] \<or> hd b = c" by blast
  have b: "b = [] \<or> (\<exists>d. b = c # d)" using s(4) by (cases b) auto
  have "a = [] \<or> (\<exists>d. a = d @ [c])" using s(3) by (cases a rule: rev_cases) auto
  then show "p \<in> set (split_on c s)"
    using b s(1,2) split_on_append [of c "_" "p @ b"] by (auto simp: split_on_append split_on_id)
qed

lemma trim_end_matches_last: "trim_end_matches c s \<noteq> [] \<Longrightarrow> last (trim_end_matches c s) \<noteq> c"
  unfolding trim_end_matches_def last_rev
  by (rule hd_dropWhile) auto

lemma trim_end_matches_idem [simp]:
  "trim_end_matches c (trim_end_matches c s) = trim_end_matches c s"
  by (simp add: trim_end_matches_def dropWhile_idem)

lemma trim_end_matches_append [simp]: "trim_end_matches c (s @ [c]) = trim_end_matches c s"
  by (simp add: trim_end_matches_def)

subsection \<open>Counting in lists updated by index\<close>

lemma nth_update_if: "j < length xs \<Longrightarrow> xs[i := x] ! j = (if i = j then x else xs ! j)"
  by (cases "i < length xs") (auto simp: nth_list_update list_update_beyond)

lemma length_filter_list_update:
  assumes "i < length xs"
  shows "length (filter P (xs[i := y])) + (if P (xs ! i) then 1 else 0) =
         length (filter P xs) + (if P y then 1 else 0)"
  using assms
proof (induction xs arbitrary: i)
  case Nil
  then show ?case by simp
next
  case (Cons x xs)
  then show ?case by (cases i) auto
qed

lemma length_filter_update_same:
  "i < length xs \<Longrightarrow> P (xs ! i) = P y \<Longrightarrow> length (filter P (xs[i := y])) = length (filter P xs)"
  using length_filter_list_update [of i xs P y] by (auto split: if_splits)

lemma length_filter_remove_nth:
  assumes "i < length xs"
  shows "length (filter P xs) =
         length (filter P (take i xs @ drop (Suc i) xs)) + (if P (xs ! i) then 1 else 0)"
proof -
  have "filter P xs = filter P (take i xs @ xs ! i # drop (Suc i) xs)"
    using id_take_nth_drop [OF assms] by simp
  then show ?thesis by simp
qed

lemma filter_pos_ex: "0 < length (filter P xs) \<longleftrightarrow> (\<exists>x \<in> set xs. P x)"
  by (induction xs) auto

lemma length_filter_le_1:
  assumes "length (filter P xs) \<le> 1" and "i < length xs" and "j < length xs"
    and "P (xs ! i)" and "P (xs ! j)"
  shows "i = j"
proof (rule ccontr)
  assume "i \<noteq> j"
  then have "card {i, j} = 2" by simp
  moreover have "{i, j} \<subseteq> {k. k < length xs \<and> P (xs ! k)}" using assms by auto
  then have "card {i, j} \<le> card {k. k < length xs \<and> P (xs ! k)}" by (intro card_mono) auto
  ultimately show False using assms(1) by (simp add: length_filter_conv_card)
qed

end
