(* ===== verification/Core.thy ===== *)
theory Core
  imports Prelude
begin

text \<open>
  The shared types of \<^verbatim>\<open>crates/nscale-core\<close>: identifiers, endpoints and registrations
  (\<^verbatim>\<open>job.rs\<close>), the error type with its printed form (\<^verbatim>\<open>error.rs\<close>) and the traits the
  components call each other through (\<^verbatim>\<open>traits.rs\<close>).

  A trait is a record of operations, as a \<^verbatim>\<open>dyn Trait\<close> object is a table of methods. An
  operation takes the state \<open>'w\<close> of the world outside the process and returns a result and
  the next state of that world.
\<close>

subsection \<open>Identifiers, endpoints, registrations\<close>

datatype job_id = JobId (job_str: string)

datatype service_name = ServiceName (service_str: string)

record endpoint =
  host :: string
  port :: u16

record job_registration =
  job_id :: job_id
  service_name :: service_name
  nomad_group :: string

definition endpoint_new :: "string \<Rightarrow> u16 \<Rightarrow> endpoint" where
  "endpoint_new h p = \<lparr>host = h, port = p\<rparr>"

text \<open>\<^verbatim>\<open>Endpoint::address\<close>, which is also the \<^verbatim>\<open>Display\<close> form.\<close>

definition address :: "endpoint \<Rightarrow> string" where
  "address e = host e @ '':'' @ show_nat (unat (port e))"

definition base_url :: "string \<Rightarrow> endpoint \<Rightarrow> string" where
  "base_url scheme e = scheme @ ''://'' @ host e @ '':'' @ show_nat (unat (port e))"

text \<open>The declared life cycle of a managed job.\<close>

datatype job_state = Dormant | Waking instant | Ready endpoint | Draining instant

fun job_state_is_dormant :: "job_state \<Rightarrow> bool" where
  "job_state_is_dormant Dormant = True"
| "job_state_is_dormant _ = False"

fun job_state_is_waking :: "job_state \<Rightarrow> bool" where
  "job_state_is_waking (Waking _) = True"
| "job_state_is_waking _ = False"

fun job_state_is_ready :: "job_state \<Rightarrow> bool" where
  "job_state_is_ready (Ready _) = True"
| "job_state_is_ready _ = False"

fun job_state_is_draining :: "job_state \<Rightarrow> bool" where
  "job_state_is_draining (Draining _) = True"
| "job_state_is_draining _ = False"

subsection \<open>Errors\<close>

text \<open>
  The elapsed time of \<open>WakeTimeout\<close> is a whole number of seconds: every timeout that
  reaches it is made by \<^verbatim>\<open>Duration::from_secs\<close>. The payloads of \<open>Http\<close> and \<open>Json\<close> are
  the printed forms of the library errors they wrap.
\<close>

datatype nscale_error =
    Nomad string
  | DeploymentInProgress string string
  | Consul string
  | Store string
  | Proxy string
  | WakeTimeout string nat
  | JobNotFound string
  | JobNotReady string
  | WakeAbandoned string
  | Config string
  | Http string
  | Json string

fun error_to_string :: "nscale_error \<Rightarrow> string" where
  "error_to_string (Nomad m) = ''nomad API error: '' @ m"
| "error_to_string (DeploymentInProgress j opn) =
     ''nomad deployment in progress for job '' @ j @ '' while attempting '' @ opn"
| "error_to_string (Consul m) = ''consul API error: '' @ m"
| "error_to_string (Store m) = ''store error: '' @ m"
| "error_to_string (Proxy m) = ''proxy error: '' @ m"
| "error_to_string (WakeTimeout j secs) =
     ''wake timeout for job '' @ j @ '' after '' @ show_nat secs @ ''.0s''"
| "error_to_string (JobNotFound j) = ''job not found: '' @ j"
| "error_to_string (JobNotReady m) = ''job not ready: '' @ m"
| "error_to_string (WakeAbandoned j) =
     ''wake abandoned for job '' @ j @ '': all subscribers disconnected''"
| "error_to_string (Config m) = ''configuration error: '' @ m"
| "error_to_string (Http m) = ''HTTP error: '' @ m"
| "error_to_string (Json m) = ''JSON error: '' @ m"

text \<open>\<^verbatim>\<open>NscaleError::JobNotFound\<close> is the one error several callers treat specially.\<close>

fun is_job_not_found :: "nscale_error \<Rightarrow> bool" where
  "is_job_not_found (JobNotFound _) = True"
| "is_job_not_found _ = False"

type_synonym 'a result = "nscale_error + 'a"
type_synonym ('w, 'a) call = "('w, nscale_error, 'a) io"

subsection \<open>Traits\<close>

record 'w orchestrator =
  scale_up :: "job_id \<Rightarrow> string \<Rightarrow> u32 \<Rightarrow> ('w, unit) call"
  scale_down :: "job_id \<Rightarrow> string \<Rightarrow> ('w, unit) call"
  get_job_count :: "job_id \<Rightarrow> string \<Rightarrow> ('w, u32) call"
  get_healthy_endpoint :: "job_id \<Rightarrow> ('w, endpoint option) call"

record 'w service_discovery =
  register_fallback :: "service_name \<Rightarrow> endpoint \<Rightarrow> ('w, unit) call"
  deregister_fallback :: "service_name \<Rightarrow> ('w, unit) call"
  wait_for_healthy :: "service_name \<Rightarrow> duration \<Rightarrow> ('w, endpoint) call"

record 'w activity_store =
  record_activity :: "job_id \<Rightarrow> ('w, unit) call"
  get_idle_jobs :: "duration \<Rightarrow> ('w, job_id list) call"
  has_activity :: "job_id \<Rightarrow> ('w, bool) call"
  try_acquire_lock :: "string \<Rightarrow> duration \<Rightarrow> ('w, bool) call"
  release_lock :: "string \<Rightarrow> ('w, unit) call"
  remove_activity :: "job_id \<Rightarrow> ('w, unit) call"

record 'w missing_job_tracker =
  increment_not_found :: "job_id \<Rightarrow> ('w, u32) call"
  clear_not_found :: "job_id \<Rightarrow> ('w, unit) call"

datatype registration_event = Upsert job_registration | Remove job_registration

record 'w durable_registry =
  store_registration :: "job_registration \<Rightarrow> ('w, unit) call"
  remove_registration :: "job_id \<Rightarrow> ('w, unit) call"
  get_by_job_id :: "job_id \<Rightarrow> ('w, job_registration option) call"
  get_by_service_name :: "service_name \<Rightarrow> ('w, job_registration option) call"
  durable_list_all :: "('w, job_registration list) call"
  watch_registrations :: "('w, registration_event list) call"

subsection \<open>Lemmas\<close>

lemma job_state_exactly_one:
  "length (filter (\<lambda>p. p js)
     [job_state_is_dormant, job_state_is_waking, job_state_is_ready, job_state_is_draining]) = 1"
  by (cases js) auto

lemma is_job_not_found_iff: "is_job_not_found e \<longleftrightarrow> (\<exists>j. e = JobNotFound j)"
  by (cases e) auto

text \<open>Decimal printing can be read back, so it is injective, and it contains digits only.\<close>

definition read_nat :: "string \<Rightarrow> nat" where
  "read_nat s = foldl (\<lambda>acc c. acc * 10 + (of_char c - 48)) 0 s"

lemma of_char_digit_char: "d < 10 \<Longrightarrow> of_char (digit_char d) = 48 + d"
  by (simp add: digit_char_def)

lemma read_show_nat [simp]: "read_nat (show_nat n) = n"
proof (induction n rule: show_nat.induct)
  case (1 n)
  show ?case
  proof (cases "n < 10")
    case True
    then show ?thesis
      by (subst show_nat.simps) (simp add: read_nat_def of_char_digit_char)
  next
    case False
    with 1 have "read_nat (show_nat (n div 10)) = n div 10" by simp
    with False show ?thesis
      by (subst show_nat.simps) (simp add: read_nat_def of_char_digit_char)
  qed
qed

lemma show_nat_inj: "show_nat m = show_nat n \<longleftrightarrow> m = n"
  by (metis read_show_nat)

lemma show_nat_digits: "c \<in> set (show_nat n) \<Longrightarrow> 48 \<le> (of_char c :: nat) \<and> (of_char c :: nat) \<le> 57"
proof (induction n rule: show_nat.induct)
  case (1 n)
  show ?case
  proof (cases "n < 10")
    case True
    with 1 have "c = digit_char n" by (simp add: show_nat.simps [of n])
    with True show ?thesis by (simp add: of_char_digit_char)
  next
    case False
    with 1(2) have "c \<in> set (show_nat (n div 10)) \<or> c = digit_char (n mod 10)"
      by (auto simp: show_nat.simps [of n])
    with 1(1) False show ?thesis by (auto simp: of_char_digit_char)
  qed
qed

lemma colon_not_in_show_nat [simp]: "CHR '':'' \<notin> set (show_nat n)"
  using show_nat_digits [of "CHR '':''" n] by auto

end
