(* ===== verification/Wake.thy ===== *)
theory Wake
  imports Core
begin

text \<open>
  The wake coordinator of \<^verbatim>\<open>crates/nscale-waker\<close> (\<^verbatim>\<open>state.rs\<close> and \<^verbatim>\<open>coordinator.rs\<close>)
  as a machine whose steps are the code's atomic actions, so that requests, wake tasks and
  the operations that forget a job interleave as they do on the runtime.

  \<^item> The two concurrent maps are partial functions. A \<^verbatim>\<open>WakeState\<close> object is a cell of the
    list \<open>states\<close> and an \<^verbatim>\<open>Arc<WakeState>\<close> is its index: an entry that left the map can
    still be held by a request or a wake task.
  \<^item> A request (\<^verbatim>\<open>ensure_running\<close>) is a program counter. It moves by one map access, one
    atomic load or one compare-exchange at a time, and may be dropped where it awaits.
  \<^item> A broadcast receiver is the list of the messages sent since it subscribed that it has
    not read; sending appends to the receivers subscribed at that moment.
  \<^item> A wake task (the spawned \<^verbatim>\<open>run_wake_task\<close> and the match on its result) is a program
    counter too. The answers of the orchestrator and of service discovery, and the expiry of
    timers, are events, so nothing is assumed about them.
  \<^item> \<open>owner\<close> and \<open>reported\<close> are history: the job a cell was made for, and the endpoints that
    were reported healthy for a job.
\<close>

subsection \<open>Wake states\<close>

definition STATE_DORMANT :: u8 where "STATE_DORMANT = 0"
definition STATE_WAKING :: u8 where "STATE_WAKING = 1"
definition STATE_READY :: u8 where "STATE_READY = 2"

lemmas state_defs = STATE_DORMANT_def STATE_WAKING_def STATE_READY_def

record wake_state =
  status :: u8

datatype wake_result =
    WakeReady endpoint
  | WakeJobNotFound string
  | WakeFailed string
  | WakeCancelled

definition new_waking :: wake_state where
  "new_waking = \<lparr>status = STATE_WAKING\<rparr>"

definition is_dormant :: "wake_state \<Rightarrow> bool" where
  "is_dormant w \<longleftrightarrow> status w = STATE_DORMANT"

definition is_waking :: "wake_state \<Rightarrow> bool" where
  "is_waking w \<longleftrightarrow> status w = STATE_WAKING"

definition is_ready_state :: "wake_state \<Rightarrow> bool" where
  "is_ready_state w \<longleftrightarrow> status w = STATE_READY"

definition try_start_wake :: "wake_state \<Rightarrow> bool \<times> wake_state" where
  "try_start_wake w =
     (if status w = STATE_DORMANT then (True, w\<lparr>status := STATE_WAKING\<rparr>) else (False, w))"

definition set_ready :: "wake_state \<Rightarrow> wake_state" where
  "set_ready w = w\<lparr>status := STATE_READY\<rparr>"

definition set_dormant :: "wake_state \<Rightarrow> wake_state" where
  "set_dormant w = w\<lparr>status := STATE_DORMANT\<rparr>"

subsection \<open>The coordinator and its map operations\<close>

record coordinator =
  jobs :: "string \<rightharpoonup> nat"
  states :: "wake_state list"
  endpoints :: "string \<rightharpoonup> endpoint"
  permits :: nat
  sem_closed :: bool
  wake_timeout :: nat

datatype endpoint_refresh = Confirmed endpoint | Updated endpoint | Missing

definition coordinator_new :: "nat \<Rightarrow> nat \<Rightarrow> coordinator" where
  "coordinator_new nomad_concurrency timeout =
     \<lparr>jobs = Map.empty, states = [], endpoints = Map.empty, permits = nomad_concurrency,
      sem_closed = False, wake_timeout = timeout\<rparr>"

definition entry_state :: "string \<Rightarrow> coordinator \<Rightarrow> nat \<times> coordinator" where
  "entry_state k c =
     (case jobs c k of
        Some a \<Rightarrow> (a, c)
      | None \<Rightarrow> (length (states c),
          c\<lparr>jobs := (jobs c)(k \<mapsto> length (states c)),
            states := states c @ [\<lparr>status = STATE_DORMANT\<rparr>]\<rparr>))"

definition put_state :: "nat \<Rightarrow> wake_state \<Rightarrow> coordinator \<Rightarrow> coordinator" where
  "put_state a w c = c\<lparr>states := (states c)[a := w]\<rparr>"

definition insert_endpoint :: "string \<Rightarrow> endpoint \<Rightarrow> coordinator \<Rightarrow> coordinator" where
  "insert_endpoint k e c = c\<lparr>endpoints := (endpoints c)(k \<mapsto> e)\<rparr>"

definition remove_endpoint :: "string \<Rightarrow> coordinator \<Rightarrow> coordinator" where
  "remove_endpoint k c = c\<lparr>endpoints := (endpoints c)(k := None)\<rparr>"

definition remove_job :: "string \<Rightarrow> coordinator \<Rightarrow> coordinator" where
  "remove_job k c = c\<lparr>jobs := (jobs c)(k := None)\<rparr>"

text \<open>\<^verbatim>\<open>if let Some(state) = self.jobs.get(key) { state.set_...() }\<close>\<close>

definition on_state :: "(wake_state \<Rightarrow> wake_state) \<Rightarrow> string \<Rightarrow> coordinator \<Rightarrow> coordinator" where
  "on_state f k c =
     (case jobs c k of None \<Rightarrow> c | Some a \<Rightarrow> put_state a (f (states c ! a)) c)"

definition mark_dormant :: "job_id \<Rightarrow> coordinator \<Rightarrow> coordinator" where
  "mark_dormant j c =
     remove_job (job_str j) (on_state set_dormant (job_str j) (remove_endpoint (job_str j) c))"

definition invalidate :: "job_id \<Rightarrow> coordinator \<Rightarrow> coordinator" where
  "invalidate j c =
     remove_job (job_str j) (on_state set_dormant (job_str j) (remove_endpoint (job_str j) c))"

definition is_ready :: "job_id \<Rightarrow> coordinator \<Rightarrow> bool" where
  "is_ready j c \<longleftrightarrow> endpoints c (job_str j) \<noteq> None"

text \<open>
  \<^verbatim>\<open>refresh_endpoint\<close>, given the orchestrator's answer.
\<close>

definition refresh_endpoint_with ::
  "job_registration \<Rightarrow> endpoint \<Rightarrow> endpoint option \<Rightarrow> coordinator \<Rightarrow>
   endpoint_refresh \<times> coordinator" where
  "refresh_endpoint_with reg current answer c =
     (let k = job_str (job_id reg) in
      case answer of
        Some e \<Rightarrow>
          (if host e = host current \<and> port e = port current then Confirmed e else Updated e,
           on_state set_ready k (insert_endpoint k e c))
      | None \<Rightarrow> (Missing, remove_job k (on_state set_dormant k (remove_endpoint k c))))"

subsection \<open>Requests, wake tasks and forgetting operations\<close>

datatype request_pc =
    AtFastPath
  | AtLoop
  | AtLoad nat
  | AtMatch nat u8
  | AtFetch nat
  | AtSpawn nat
  | AtRecv nat "wake_result list"
  | Returned "endpoint result"
  | Dropped

record request =
  req_reg :: job_registration
  req_pc :: request_pc

text \<open>\<^verbatim>\<open>wait_until_abandoned\<close>: in its grace period, about to poll, about to double-check.\<close>

datatype abandon_pc = Grace | Poll | Recheck

datatype task_pc =
    TAcquire
  | TScaleUp
  | THealth abandon_pc
  | TInsert endpoint
  | TSetReady endpoint
  | TSendReady endpoint
  | TSetDormant nscale_error
  | TSend nscale_error
  | TRemove
  | TDone

record wake_task =
  task_reg :: job_registration
  task_state :: nat
  task_pc :: task_pc

text \<open>
  \<^verbatim>\<open>mark_dormant\<close>, \<^verbatim>\<open>invalidate\<close> and \<^verbatim>\<open>refresh_endpoint\<close>, one map access at a time.
\<close>

datatype op_pc =
    RefreshFetch
  | RefreshInsert endpoint
  | RefreshSetReady
  | DropEndpoint
  | ResetState
  | DropJob
  | OpDone

record op_task =
  op_key :: string
  op_pc :: op_pc

record wake_sys =
  coord :: coordinator
  requests :: "request list"
  tasks :: "wake_task list"
  ops :: "op_task list"
  owner :: "string list"
  reported :: "(string \<times> endpoint) list"

definition reg_key :: "job_registration \<Rightarrow> string" where
  "reg_key r = job_str (job_id r)"

definition wake_init :: "nat \<Rightarrow> nat \<Rightarrow> wake_sys" where
  "wake_init nomad_concurrency timeout =
     \<lparr>coord = coordinator_new nomad_concurrency timeout, requests = [], tasks = [], ops = [],
      owner = [], reported = []\<rparr>"

definition set_req :: "nat \<Rightarrow> request_pc \<Rightarrow> wake_sys \<Rightarrow> wake_sys" where
  "set_req i pc s = s\<lparr>requests := (requests s)[i := (requests s ! i)\<lparr>req_pc := pc\<rparr>]\<rparr>"

definition set_task :: "nat \<Rightarrow> task_pc \<Rightarrow> wake_sys \<Rightarrow> wake_sys" where
  "set_task i pc s = s\<lparr>tasks := (tasks s)[i := (tasks s ! i)\<lparr>task_pc := pc\<rparr>]\<rparr>"

definition set_op :: "nat \<Rightarrow> op_pc \<Rightarrow> wake_sys \<Rightarrow> wake_sys" where
  "set_op i pc s = s\<lparr>ops := (ops s)[i := (ops s ! i)\<lparr>op_pc := pc\<rparr>]\<rparr>"

definition on_coord :: "(coordinator \<Rightarrow> coordinator) \<Rightarrow> wake_sys \<Rightarrow> wake_sys" where
  "on_coord f s = s\<lparr>coord := f (coord s)\<rparr>"

definition report :: "string \<Rightarrow> endpoint \<Rightarrow> wake_sys \<Rightarrow> wake_sys" where
  "report k e s = s\<lparr>reported := (k, e) # reported s\<rparr>"

subsection \<open>The broadcast channel\<close>

definition broadcast_capacity :: nat where
  "broadcast_capacity = 16"

fun deliver :: "nat \<Rightarrow> wake_result \<Rightarrow> request_pc \<Rightarrow> request_pc" where
  "deliver a m (AtRecv b ms) = (if b = a then AtRecv b (ms @ [m]) else AtRecv b ms)"
| "deliver a m pc = pc"

definition send :: "nat \<Rightarrow> wake_result \<Rightarrow> wake_sys \<Rightarrow> wake_sys" where
  "send a m s = s\<lparr>requests := map (\<lambda>r. r\<lparr>req_pc := deliver a m (req_pc r)\<rparr>) (requests s)\<rparr>"

fun receives_on :: "nat \<Rightarrow> request_pc \<Rightarrow> bool" where
  "receives_on a (AtRecv b ms) = (b = a)"
| "receives_on a _ = False"

definition receiver_count :: "nat \<Rightarrow> wake_sys \<Rightarrow> nat" where
  "receiver_count a s = length (filter (\<lambda>r. receives_on a (req_pc r)) (requests s))"

text \<open>The match on the received value at the end of \<^verbatim>\<open>ensure_running\<close>.\<close>

fun received :: "string \<Rightarrow> wake_result \<Rightarrow> endpoint result" where
  "received k (WakeReady e) = Inr e"
| "received k WakeCancelled = Inl (WakeAbandoned k)"
| "received k (WakeJobNotFound j) = Inl (JobNotFound j)"
| "received k (WakeFailed m) = Inl (Nomad (''wake failed: '' @ m))"

text \<open>The match on the wake task's error: what the waiters are told.\<close>

fun failure_message :: "nscale_error \<Rightarrow> wake_result" where
  "failure_message (WakeAbandoned _) = WakeCancelled"
| "failure_message (JobNotFound j) = WakeJobNotFound j"
| "failure_message e = WakeFailed (error_to_string e)"

subsection \<open>Steps\<close>

datatype wake_event =
    Call job_registration
  | ReqStep nat
  | FetchAnswer nat "endpoint option result"
  | Receive nat
  | TimeOut nat
  | Disconnect nat
  | TaskStep nat
  | ScaleUpAnswer nat "unit result"
  | HealthAnswer nat "endpoint result"
  | StartForget string
  | StartRefresh string
  | OpStep nat
  | RefreshAnswer nat "endpoint option result"

text \<open>
  One iteration's dispatch on the status that was loaded. A request that loses the race
  goes back to the head of the loop.
\<close>

definition dispatch :: "nat \<Rightarrow> job_registration \<Rightarrow> nat \<Rightarrow> u8 \<Rightarrow> wake_sys \<Rightarrow> wake_sys" where
  "dispatch i reg a current s =
     (if current = STATE_READY then
        (case endpoints (coord s) (reg_key reg) of
           Some e \<Rightarrow> set_req i (Returned (Inr e)) s
         | None \<Rightarrow> set_req i (AtFetch a) s)
      else if current = STATE_WAKING then set_req i (AtRecv a []) s
      else if current = STATE_DORMANT then
        (let (won, w) = try_start_wake (states (coord s) ! a) in
         if won then set_req i (AtSpawn a) (on_coord (put_state a w) s)
         else set_req i AtLoop s)
      else set_req i (Returned (Inl (JobNotReady
             (''unexpected state '' @ show_nat (unat current) @ '' for job '' @ reg_key reg)))) s)"

fun req_step :: "nat \<Rightarrow> job_registration \<Rightarrow> request_pc \<Rightarrow> wake_sys \<Rightarrow> wake_sys option" where
  "req_step i reg AtFastPath s =
     (case endpoints (coord s) (reg_key reg) of
        Some e \<Rightarrow> Some (set_req i (Returned (Inr e)) s)
      | None \<Rightarrow> Some (set_req i AtLoop s))"
| "req_step i reg AtLoop s =
     (let (a, c) = entry_state (reg_key reg) (coord s);
          own = (if jobs (coord s) (reg_key reg) = None then owner s @ [reg_key reg] else owner s)
      in Some (set_req i (AtLoad a) (s\<lparr>coord := c, owner := own\<rparr>)))"
| "req_step i reg (AtLoad a) s = Some (set_req i (AtMatch a (status (states (coord s) ! a))) s)"
| "req_step i reg (AtMatch a current) s = Some (dispatch i reg a current s)"
| "req_step i reg (AtSpawn a) s =
     Some (set_req i (AtRecv a [])
       (s\<lparr>tasks := tasks s @ [\<lparr>task_reg = reg, task_state = a, task_pc = TAcquire\<rparr>]\<rparr>))"
| "req_step i reg _ s = None"

fun task_step :: "nat \<Rightarrow> job_registration \<Rightarrow> nat \<Rightarrow> task_pc \<Rightarrow> wake_sys \<Rightarrow> wake_sys option" where
  "task_step i reg a TAcquire s =
     (if sem_closed (coord s) then
        Some (set_task i (TSetDormant (Nomad ''wake semaphore closed'')) s)
      else if 0 < permits (coord s) then
        Some (set_task i TScaleUp (on_coord (\<lambda>c. c\<lparr>permits := permits c - 1\<rparr>) s))
      else None)"
| "task_step i reg a (THealth Grace) s = Some (set_task i (THealth Poll) s)"
| "task_step i reg a (THealth Poll) s =
     Some (if receiver_count a s = 0 then set_task i (THealth Recheck) s else s)"
| "task_step i reg a (THealth Recheck) s =
     Some (if receiver_count a s = 0 then set_task i (TSetDormant (WakeAbandoned (reg_key reg))) s
           else set_task i (THealth Poll) s)"
| "task_step i reg a (TInsert e) s =
     Some (set_task i (TSetReady e) (on_coord (insert_endpoint (reg_key reg) e) s))"
| "task_step i reg a (TSetReady e) s =
     Some (set_task i (TSendReady e)
       (on_coord (put_state a (set_ready (states (coord s) ! a))) s))"
| "task_step i reg a (TSendReady e) s = Some (set_task i TDone (send a (WakeReady e) s))"
| "task_step i reg a (TSetDormant err) s =
     Some (set_task i (TSend err)
       (on_coord (put_state a (set_dormant (states (coord s) ! a))) s))"
| "task_step i reg a (TSend err) s = Some (set_task i TRemove (send a (failure_message err) s))"
| "task_step i reg a TRemove s = Some (set_task i TDone (on_coord (remove_job (reg_key reg)) s))"
| "task_step i reg a _ s = None"

fun op_step :: "nat \<Rightarrow> string \<Rightarrow> op_pc \<Rightarrow> wake_sys \<Rightarrow> wake_sys option" where
  "op_step i k (RefreshInsert e) s =
     Some (set_op i RefreshSetReady (on_coord (insert_endpoint k e) s))"
| "op_step i k RefreshSetReady s = Some (set_op i OpDone (on_coord (on_state set_ready k) s))"
| "op_step i k DropEndpoint s = Some (set_op i ResetState (on_coord (remove_endpoint k) s))"
| "op_step i k ResetState s = Some (set_op i DropJob (on_coord (on_state set_dormant k) s))"
| "op_step i k DropJob s = Some (set_op i OpDone (on_coord (remove_job k) s))"
| "op_step i k _ s = None"

definition fetch_answer ::
  "nat \<Rightarrow> job_registration \<Rightarrow> endpoint option result \<Rightarrow> wake_sys \<Rightarrow> wake_sys" where
  "fetch_answer i reg ans s =
     (case ans of
        Inl e \<Rightarrow> set_req i (Returned (Inl e)) s
      | Inr None \<Rightarrow> set_req i (Returned (Inl (JobNotReady
           (''job '' @ reg_key reg @ '' marked ready but no healthy endpoint'')))) s
      | Inr (Some e) \<Rightarrow> set_req i (Returned (Inr e))
           (report (reg_key reg) e (on_coord (insert_endpoint (reg_key reg) e) s)))"

definition receive :: "nat \<Rightarrow> string \<Rightarrow> wake_result list \<Rightarrow> wake_sys \<Rightarrow> wake_sys option" where
  "receive i k ms s =
     (case ms of
        [] \<Rightarrow> None
      | m # _ \<Rightarrow>
          Some (set_req i (Returned
            (if broadcast_capacity < length ms
             then Inl (Nomad ''wake broadcast channel closed'') else received k m)) s))"

fun wake_step :: "wake_event \<Rightarrow> wake_sys \<Rightarrow> wake_sys option" where
  "wake_step (Call reg) s =
     Some (s\<lparr>requests := requests s @ [\<lparr>req_reg = reg, req_pc = AtFastPath\<rparr>]\<rparr>)"
| "wake_step (ReqStep i) s =
     (if i < length (requests s)
      then req_step i (req_reg (requests s ! i)) (req_pc (requests s ! i)) s else None)"
| "wake_step (FetchAnswer i ans) s =
     (if i < length (requests s) then
        (case req_pc (requests s ! i) of
           AtFetch a \<Rightarrow> Some (fetch_answer i (req_reg (requests s ! i)) ans s)
         | _ \<Rightarrow> None)
      else None)"
| "wake_step (Receive i) s =
     (if i < length (requests s) then
        (case req_pc (requests s ! i) of
           AtRecv a ms \<Rightarrow> receive i (reg_key (req_reg (requests s ! i))) ms s
         | _ \<Rightarrow> None)
      else None)"
| "wake_step (TimeOut i) s =
     (if i < length (requests s) then
        (case req_pc (requests s ! i) of
           AtRecv a [] \<Rightarrow> Some (set_req i (Returned (Inl (WakeTimeout
             (reg_key (req_reg (requests s ! i))) (wake_timeout (coord s))))) s)
         | _ \<Rightarrow> None)
      else None)"
| "wake_step (Disconnect i) s =
     (if i < length (requests s) then
        (case req_pc (requests s ! i) of
           AtRecv a ms \<Rightarrow> Some (set_req i Dropped s)
         | AtFetch a \<Rightarrow> Some (set_req i Dropped s)
         | _ \<Rightarrow> None)
      else None)"
| "wake_step (TaskStep i) s =
     (if i < length (tasks s) then
        task_step i (task_reg (tasks s ! i)) (task_state (tasks s ! i)) (task_pc (tasks s ! i)) s
      else None)"
| "wake_step (ScaleUpAnswer i ans) s =
     (if i < length (tasks s) \<and> task_pc (tasks s ! i) = TScaleUp then
        Some (set_task i (case ans of Inl e \<Rightarrow> TSetDormant e | Inr _ \<Rightarrow> THealth Grace)
          (on_coord (\<lambda>c. c\<lparr>permits := permits c + 1\<rparr>) s))
      else None)"
| "wake_step (HealthAnswer i ans) s =
     (if i < length (tasks s) then
        (case task_pc (tasks s ! i) of
           THealth p \<Rightarrow>
             Some (case ans of
                     Inl e \<Rightarrow> set_task i (TSetDormant e) s
                   | Inr e \<Rightarrow> set_task i (TInsert e)
                       (report (reg_key (task_reg (tasks s ! i))) e s))
         | _ \<Rightarrow> None)
      else None)"
| "wake_step (StartForget k) s = Some (s\<lparr>ops := ops s @ [\<lparr>op_key = k, op_pc = DropEndpoint\<rparr>]\<rparr>)"
| "wake_step (StartRefresh k) s = Some (s\<lparr>ops := ops s @ [\<lparr>op_key = k, op_pc = RefreshFetch\<rparr>]\<rparr>)"
| "wake_step (OpStep i) s =
     (if i < length (ops s) then op_step i (op_key (ops s ! i)) (op_pc (ops s ! i)) s else None)"
| "wake_step (RefreshAnswer i ans) s =
     (if i < length (ops s) \<and> op_pc (ops s ! i) = RefreshFetch then
        Some (case ans of
                Inl e \<Rightarrow> set_op i OpDone s
              | Inr None \<Rightarrow> set_op i DropEndpoint s
              | Inr (Some e) \<Rightarrow> set_op i (RefreshInsert e) (report (op_key (ops s ! i)) e s))
      else None)"

fun wake_run :: "wake_event list \<Rightarrow> wake_sys \<Rightarrow> wake_sys option" where
  "wake_run [] s = Some s"
| "wake_run (e # es) s = (case wake_step e s of None \<Rightarrow> None | Some t \<Rightarrow> wake_run es t)"

inductive wake_reachable :: "nat \<Rightarrow> nat \<Rightarrow> wake_sys \<Rightarrow> bool" for n to where
  start: "wake_reachable n to (wake_init n to)"
| step: "wake_reachable n to s \<Longrightarrow> wake_step e s = Some t \<Longrightarrow> wake_reachable n to t"

end
