(* ===== verification/Wake_Invariants.thy ===== *)
theory Wake_Invariants
  imports Wake
begin

text \<open>
  Invariants of the wake machine, for every interleaving.

  \<^item> \<open>addr_ok\<close>: every index held by the map, a request or a wake task points to a cell that
    was made for its job.
  \<^item> \<open>waking_ok\<close>: a cell whose status is \<open>STATE_WAKING\<close> has a wake task that has not yet
    written its outcome, or a request that is about to spawn it.
  \<^item> \<open>permits_ok\<close>: a permit of the semaphore is either free or held by a task that is
    calling \<^verbatim>\<open>scale_up\<close>.
  \<^item> \<open>sound_ok\<close>: every endpoint the coordinator caches, broadcasts or returns for a job was
    reported healthy for that job.

  Each one is proved kept by the building blocks of a step first and then, by a case split
  on the event, by every step.
\<close>

lemmas upd_defs = set_req_def set_task_def set_op_def on_coord_def report_def send_def
lemmas map_defs = put_state_def insert_endpoint_def remove_endpoint_def remove_job_def on_state_def

lemma put_state_sel [simp]:
  "jobs (put_state a w c) = jobs c" "endpoints (put_state a w c) = endpoints c"
  "permits (put_state a w c) = permits c" "sem_closed (put_state a w c) = sem_closed c"
  "states (put_state a w c) = (states c)[a := w]"
  by (simp_all add: put_state_def)

lemma insert_endpoint_sel [simp]:
  "jobs (insert_endpoint k e c) = jobs c" "states (insert_endpoint k e c) = states c"
  "permits (insert_endpoint k e c) = permits c" "sem_closed (insert_endpoint k e c) = sem_closed c"
  "endpoints (insert_endpoint k e c) = (endpoints c)(k \<mapsto> e)"
  by (simp_all add: insert_endpoint_def)

lemma remove_endpoint_sel [simp]:
  "jobs (remove_endpoint k c) = jobs c" "states (remove_endpoint k c) = states c"
  "permits (remove_endpoint k c) = permits c" "sem_closed (remove_endpoint k c) = sem_closed c"
  "endpoints (remove_endpoint k c) = (endpoints c)(k := None)"
  by (simp_all add: remove_endpoint_def)

lemma remove_job_sel [simp]:
  "jobs (remove_job k c) = (jobs c)(k := None)" "states (remove_job k c) = states c"
  "permits (remove_job k c) = permits c" "sem_closed (remove_job k c) = sem_closed c"
  "endpoints (remove_job k c) = endpoints c"
  by (simp_all add: remove_job_def)

lemma on_state_sel [simp]:
  "jobs (on_state f k c) = jobs c" "endpoints (on_state f k c) = endpoints c"
  "permits (on_state f k c) = permits c" "sem_closed (on_state f k c) = sem_closed c"
  "length (states (on_state f k c)) = length (states c)"
  by (simp_all add: on_state_def split: option.splits)

lemma set_status_sel [simp]:
  "status (set_ready w) = STATE_READY" "status (set_dormant w) = STATE_DORMANT"
  by (simp_all add: set_ready_def set_dormant_def)

lemma state_distinct [simp]:
  "STATE_DORMANT \<noteq> STATE_WAKING" "STATE_DORMANT \<noteq> STATE_READY" "STATE_WAKING \<noteq> STATE_READY"
  "STATE_WAKING \<noteq> STATE_DORMANT" "STATE_READY \<noteq> STATE_DORMANT" "STATE_READY \<noteq> STATE_WAKING"
  by (simp_all add: state_defs)

subsection \<open>Indices\<close>

fun req_addr :: "request_pc \<Rightarrow> nat option" where
  "req_addr (AtLoad a) = Some a"
| "req_addr (AtMatch a _) = Some a"
| "req_addr (AtFetch a) = Some a"
| "req_addr (AtSpawn a) = Some a"
| "req_addr (AtRecv a _) = Some a"
| "req_addr _ = None"

definition cell_of :: "wake_sys \<Rightarrow> nat \<Rightarrow> string \<Rightarrow> bool" where
  "cell_of s a k \<longleftrightarrow> a < length (owner s) \<and> owner s ! a = k"

definition addr_ok :: "wake_sys \<Rightarrow> bool" where
  "addr_ok s \<longleftrightarrow>
     length (owner s) = length (states (coord s)) \<and>
     (\<forall>k a. jobs (coord s) k = Some a \<longrightarrow> cell_of s a k) \<and>
     (\<forall>r \<in> set (requests s). \<forall>a. req_addr (req_pc r) = Some a \<longrightarrow> cell_of s a (reg_key (req_reg r))) \<and>
     (\<forall>t \<in> set (tasks s). cell_of s (task_state t) (reg_key (task_reg t)))"

lemma addr_ok_init: "addr_ok (wake_init n to)"
  by (simp add: addr_ok_def wake_init_def coordinator_new_def)

lemma upd_sel [simp]:
  "coord (set_req i pc s) = coord s" "coord (set_task i tpc s) = coord s"
  "coord (set_op i opc s) = coord s" "coord (report k e s) = coord s"
  "coord (send a m s) = coord s" "coord (on_coord f s) = f (coord s)"
  "length (requests (set_req i pc s)) = length (requests s)"
  "requests (set_task i tpc s) = requests s" "requests (set_op i opc s) = requests s"
  "requests (report k e s) = requests s" "requests (on_coord f s) = requests s"
  "tasks (set_req i pc s) = tasks s" "tasks (set_op i opc s) = tasks s"
  "tasks (report k e s) = tasks s" "tasks (on_coord f s) = tasks s" "tasks (send a m s) = tasks s"
  "length (tasks (set_task i tpc s)) = length (tasks s)"
  "length (requests (send a m s)) = length (requests s)"
  "owner (set_req i pc s) = owner s" "owner (set_task i tpc s) = owner s"
  "owner (set_op i opc s) = owner s" "owner (report k e s) = owner s"
  "owner (send a m s) = owner s" "owner (on_coord f s) = owner s"
  "ops (set_req i pc s) = ops s" "ops (set_task i tpc s) = ops s" "ops (report k e s) = ops s"
  "ops (send a m s) = ops s" "ops (on_coord f s) = ops s"
  "reported (set_req i pc s) = reported s" "reported (set_task i tpc s) = reported s"
  "reported (set_op i opc s) = reported s" "reported (send a m s) = reported s"
  "reported (on_coord f s) = reported s" "reported (report k e s) = (k, e) # reported s"
  by (simp_all add: upd_defs)

lemma cell_of_upd [simp]:
  "cell_of (set_req i pc s) = cell_of s" "cell_of (set_task i tpc s) = cell_of s"
  "cell_of (set_op i opc s) = cell_of s" "cell_of (report k e s) = cell_of s"
  "cell_of (send a m s) = cell_of s" "cell_of (on_coord f s) = cell_of s"
  by (simp_all add: cell_of_def fun_eq_iff)

lemma set_req_mem:
  "r \<in> set (requests (set_req i pc s)) \<Longrightarrow>
   r = (requests s ! i)\<lparr>req_pc := pc\<rparr> \<or> r \<in> set (requests s)"
  using set_update_subset_insert [of "requests s" i "(requests s ! i)\<lparr>req_pc := pc\<rparr>"]
  by (auto simp: set_req_def)

lemma set_task_mem:
  "t \<in> set (tasks (set_task i pc s)) \<Longrightarrow>
   t = (tasks s ! i)\<lparr>task_pc := pc\<rparr> \<or> t \<in> set (tasks s)"
  using set_update_subset_insert [of "tasks s" i "(tasks s ! i)\<lparr>task_pc := pc\<rparr>"]
  by (auto simp: set_task_def)

lemma set_op_mem:
  "p \<in> set (ops (set_op i pc s)) \<Longrightarrow> p = (ops s ! i)\<lparr>op_pc := pc\<rparr> \<or> p \<in> set (ops s)"
  using set_update_subset_insert [of "ops s" i "(ops s ! i)\<lparr>op_pc := pc\<rparr>"]
  by (auto simp: set_op_def)

lemma requests_send: "requests (send a m s) = map (\<lambda>r. r\<lparr>req_pc := deliver a m (req_pc r)\<rparr>) (requests s)"
  by (simp add: send_def)

lemma addr_ok_set_req:
  assumes "addr_ok s" and "i < length (requests s)"
    and "\<And>a. req_addr pc = Some a \<Longrightarrow> cell_of s a (reg_key (req_reg (requests s ! i)))"
  shows "addr_ok (set_req i pc s)"
  using assms by (auto simp: addr_ok_def dest!: set_req_mem)

lemma addr_ok_set_task:
  assumes "addr_ok s" and "i < length (tasks s)"
  shows "addr_ok (set_task i pc s)"
proof -
  have "tasks s ! i \<in> set (tasks s)" using assms by simp
  then show ?thesis
    using assms by (auto simp: addr_ok_def dest!: set_task_mem)
qed

lemma addr_ok_set_op: "addr_ok s \<Longrightarrow> addr_ok (set_op i pc s)"
  by (simp add: addr_ok_def)

lemma addr_ok_report: "addr_ok s \<Longrightarrow> addr_ok (report k e s)"
  by (simp add: addr_ok_def)

lemma req_addr_deliver [simp]: "req_addr (deliver a m pc) = req_addr pc"
  by (cases pc) auto

lemma addr_ok_send: "addr_ok s \<Longrightarrow> addr_ok (send a m s)"
  by (simp add: addr_ok_def requests_send)

lemma addr_ok_on_coord:
  assumes "addr_ok s" and "length (states (f (coord s))) = length (states (coord s))"
    and "\<And>k a. jobs (f (coord s)) k = Some a \<Longrightarrow> jobs (coord s) k = Some a"
  shows "addr_ok (on_coord f s)"
  using assms by (simp add: addr_ok_def)

lemma addr_ok_entry:
  assumes "addr_ok s" and "i < length (requests s)" and "k = reg_key (req_reg (requests s ! i))"
    and "entry_state k (coord s) = (a, c)"
    and "own = (if jobs (coord s) k = None then owner s @ [k] else owner s)"
  shows "addr_ok (set_req i (AtLoad a) (s\<lparr>coord := c, owner := own\<rparr>))"
proof (rule addr_ok_set_req)
  have mono: "cell_of s b l \<Longrightarrow> cell_of (s\<lparr>coord := c, owner := own\<rparr>) b l" for b l
    using assms(5) by (auto simp: cell_of_def nth_append)
  have new: "cell_of (s\<lparr>coord := c, owner := own\<rparr>) a k"
    using assms by (auto simp: cell_of_def entry_state_def addr_ok_def nth_append split: option.splits)
  have jobs': "jobs c l = Some b \<Longrightarrow> b = a \<and> l = k \<or> jobs (coord s) l = Some b" for l b
    using assms(4) by (auto simp: entry_state_def split: option.splits if_splits)
  have len: "length own = length (states c)"
    using assms by (auto simp: entry_state_def addr_ok_def split: option.splits)
  show "addr_ok (s\<lparr>coord := c, owner := own\<rparr>)"
    unfolding addr_ok_def
  proof (intro conjI allI ballI impI)
    show "length (owner (s\<lparr>coord := c, owner := own\<rparr>)) =
        length (states (coord (s\<lparr>coord := c, owner := own\<rparr>)))" using len by simp
  next
    fix l b assume "jobs (coord (s\<lparr>coord := c, owner := own\<rparr>)) l = Some b"
    then have "b = a \<and> l = k \<or> jobs (coord s) l = Some b" using jobs' by simp
    then show "cell_of (s\<lparr>coord := c, owner := own\<rparr>) b l"
      using new mono assms(1) by (auto simp: addr_ok_def)
  next
    fix r b assume "r \<in> set (requests (s\<lparr>coord := c, owner := own\<rparr>))"
      and "req_addr (req_pc r) = Some b"
    then show "cell_of (s\<lparr>coord := c, owner := own\<rparr>) b (reg_key (req_reg r))"
      using assms(1) mono by (simp add: addr_ok_def)
  next
    fix t assume "t \<in> set (tasks (s\<lparr>coord := c, owner := own\<rparr>))"
    then show "cell_of (s\<lparr>coord := c, owner := own\<rparr>) (task_state t) (reg_key (task_reg t))"
      using assms(1) mono by (simp add: addr_ok_def)
  qed
  show "req_addr (AtLoad a) = Some b \<Longrightarrow>
      cell_of (s\<lparr>coord := c, owner := own\<rparr>) b
        (reg_key (req_reg (requests (s\<lparr>coord := c, owner := own\<rparr>) ! i)))" for b
    using new assms(3) by simp
qed (use assms in simp)

lemmas addr_ok_blocks = addr_ok_set_req addr_ok_set_task addr_ok_set_op addr_ok_report
  addr_ok_send addr_ok_on_coord

lemma addr_ok_request:
  "addr_ok s \<Longrightarrow> i < length (requests s) \<Longrightarrow> req_addr (req_pc (requests s ! i)) = Some a \<Longrightarrow>
   cell_of s a (reg_key (req_reg (requests s ! i)))"
  by (simp add: addr_ok_def)

lemma addr_ok_spawn:
  assumes "addr_ok s" and "cell_of s a (reg_key reg)"
  shows "addr_ok (s\<lparr>tasks := tasks s @ [\<lparr>task_reg = reg, task_state = a, task_pc = pc\<rparr>]\<rparr>)"
  using assms by (auto simp: addr_ok_def cell_of_def)

lemma addr_ok_dispatch:
  assumes "addr_ok s" and "i < length (requests s)" and "reg = req_reg (requests s ! i)"
    and "cell_of s a (reg_key reg)"
  shows "addr_ok (dispatch i reg a cur s)"
  using assms
  by (auto simp: dispatch_def try_start_wake_def split: option.splits prod.splits
      intro!: addr_ok_blocks)

lemma addr_ok_req_step:
  assumes ok: "addr_ok s" and i: "i < length (requests s)"
    and st: "req_step i (req_reg (requests s ! i)) (req_pc (requests s ! i)) s = Some t"
  shows "addr_ok t"
proof (cases "req_pc (requests s ! i)")
  case AtFastPath
  with ok i st show ?thesis by (auto split: option.splits intro!: addr_ok_blocks)
next
  case AtLoop
  with st show ?thesis by (auto split: prod.splits intro: addr_ok_entry [OF ok i refl _ refl])
next
  case (AtLoad a)
  with ok i st addr_ok_request [OF ok i] show ?thesis by (auto intro!: addr_ok_blocks)
next
  case (AtMatch a cur)
  with ok i st addr_ok_request [OF ok i] show ?thesis by (auto intro!: addr_ok_dispatch)
next
  case (AtSpawn a)
  then have "cell_of s a (reg_key (req_reg (requests s ! i)))"
    using addr_ok_request [OF ok i] by simp
  with AtSpawn ok i st show ?thesis
    by (auto intro!: addr_ok_set_req addr_ok_spawn simp: cell_of_def)
qed (use st in simp_all)

lemma addr_ok_task_step:
  assumes "addr_ok s" and "i < length (tasks s)" and "task_step i reg a pc s = Some t"
  shows "addr_ok t"
  using assms
  by (cases "(i, reg, a, pc, s)" rule: task_step.cases)
     (auto split: if_splits intro!: addr_ok_set_task addr_ok_send addr_ok_on_coord)

lemma addr_ok_op_step:
  assumes "addr_ok s" and "op_step i k pc s = Some t"
  shows "addr_ok t"
  using assms
  by (cases "(i, k, pc, s)" rule: op_step.cases)
     (auto split: if_splits intro!: addr_ok_set_op addr_ok_on_coord)

lemma addr_ok_step:
  assumes ok: "addr_ok s" and st: "wake_step e s = Some t"
  shows "addr_ok t"
proof (cases e)
  case (Call reg)
  with assms show ?thesis by (auto simp: addr_ok_def cell_of_def)
next
  case (ReqStep i)
  with st addr_ok_req_step [OF ok] show ?thesis by (simp split: if_splits)
next
  case (FetchAnswer i ans)
  with assms show ?thesis
    by (auto simp: fetch_answer_def split: if_splits request_pc.splits sum.splits option.splits
        intro!: addr_ok_blocks)
next
  case (Receive i)
  with assms show ?thesis
    by (auto simp: receive_def split: if_splits request_pc.splits list.splits intro!: addr_ok_set_req)
next
  case (TimeOut i)
  with assms show ?thesis
    by (auto split: if_splits request_pc.splits list.splits intro!: addr_ok_set_req)
next
  case (Disconnect i)
  with assms show ?thesis by (auto split: if_splits request_pc.splits intro!: addr_ok_set_req)
next
  case (TaskStep i)
  with st addr_ok_task_step [OF ok] show ?thesis by (simp split: if_splits)
next
  case (ScaleUpAnswer i ans)
  with assms show ?thesis
    by (auto split: if_splits intro!: addr_ok_set_task addr_ok_on_coord)
next
  case (HealthAnswer i ans)
  with assms show ?thesis
    by (auto split: if_splits task_pc.splits sum.splits intro!: addr_ok_set_task addr_ok_report)
next
  case (OpStep i)
  with st addr_ok_op_step [OF ok] show ?thesis by (simp split: if_splits)
next
  case (RefreshAnswer i ans)
  with assms show ?thesis
    by (auto split: if_splits sum.splits option.splits intro!: addr_ok_set_op addr_ok_report)
qed (use assms in \<open>auto simp: addr_ok_def cell_of_def\<close>)

lemma reachable_addr_ok: "wake_reachable n to s \<Longrightarrow> addr_ok s"
  by (induction rule: wake_reachable.induct) (auto intro: addr_ok_init addr_ok_step)

subsection \<open>A waking cell has someone who will settle it\<close>

fun unsettled :: "task_pc \<Rightarrow> bool" where
  "unsettled TAcquire = True"
| "unsettled TScaleUp = True"
| "unsettled (THealth _) = True"
| "unsettled (TInsert _) = True"
| "unsettled (TSetReady _) = True"
| "unsettled (TSetDormant _) = True"
| "unsettled _ = False"

definition pending :: "nat \<Rightarrow> wake_sys \<Rightarrow> bool" where
  "pending a s \<longleftrightarrow>
     (\<exists>i < length (requests s). req_pc (requests s ! i) = AtSpawn a) \<or>
     (\<exists>i < length (tasks s). task_state (tasks s ! i) = a \<and> unsettled (task_pc (tasks s ! i)))"

definition waking_ok :: "wake_sys \<Rightarrow> bool" where
  "waking_ok s \<longleftrightarrow>
     (\<forall>a < length (states (coord s)). status (states (coord s) ! a) = STATE_WAKING \<longrightarrow> pending a s)"

lemma waking_ok_mono:
  assumes "waking_ok s"
    and "\<And>a. a < length (states (coord t)) \<Longrightarrow> status (states (coord t) ! a) = STATE_WAKING \<Longrightarrow>
           a < length (states (coord s)) \<and> status (states (coord s) ! a) = STATE_WAKING"
    and "\<And>a. pending a s \<Longrightarrow> pending a t"
  shows "waking_ok t"
  using assms unfolding waking_ok_def by blast

lemma pending_set_req:
  assumes "pending a s" and "i < length (requests s)"
    and "\<And>b. req_pc (requests s ! i) = AtSpawn b \<Longrightarrow> pc = AtSpawn b"
  shows "pending a (set_req i pc s)"
proof -
  from assms(1) consider
      (r) m where "m < length (requests s)" "req_pc (requests s ! m) = AtSpawn a"
    | (t) "\<exists>m < length (tasks s). task_state (tasks s ! m) = a \<and> unsettled (task_pc (tasks s ! m))"
    unfolding pending_def by blast
  then show ?thesis
  proof cases
    case r
    then have "req_pc (requests (set_req i pc s) ! m) = AtSpawn a"
      using assms(3) [of a] by (auto simp: set_req_def nth_update_if)
    with r show ?thesis unfolding pending_def by auto
  qed (simp add: pending_def)
qed

lemma pending_set_task:
  assumes "pending a s" and "i < length (tasks s)"
    and "task_state (tasks s ! i) = a \<Longrightarrow> unsettled (task_pc (tasks s ! i)) \<Longrightarrow> unsettled pc"
  shows "pending a (set_task i pc s)"
proof -
  from assms(1) consider
      (r) "\<exists>m < length (requests s). req_pc (requests s ! m) = AtSpawn a"
    | (t) m where "m < length (tasks s)" "task_state (tasks s ! m) = a" "unsettled (task_pc (tasks s ! m))"
    unfolding pending_def by blast
  then show ?thesis
  proof cases
    case t
    then have "task_state (tasks (set_task i pc s) ! m) = a"
      and "unsettled (task_pc (tasks (set_task i pc s) ! m))"
      using assms(3) by (auto simp: set_task_def nth_update_if)
    with t show ?thesis unfolding pending_def by auto
  qed (simp add: pending_def)
qed

lemma deliver_AtSpawn [simp]: "deliver b m pc = AtSpawn a \<longleftrightarrow> pc = AtSpawn a"
  by (cases pc) auto

lemma pending_simps [simp]:
  "pending a (set_op i opc s) = pending a s" "pending a (report k e s) = pending a s"
  "pending a (on_coord f s) = pending a s" "pending a (send b m s) = pending a s"
  by (simp_all add: pending_def requests_send cong: conj_cong)

lemma waking_ok_set_req:
  "waking_ok s \<Longrightarrow> i < length (requests s) \<Longrightarrow>
   (\<And>b. req_pc (requests s ! i) = AtSpawn b \<Longrightarrow> pc = AtSpawn b) \<Longrightarrow> waking_ok (set_req i pc s)"
  by (erule waking_ok_mono) (auto intro: pending_set_req)

lemma waking_ok_set_task:
  "waking_ok s \<Longrightarrow> i < length (tasks s) \<Longrightarrow>
   (unsettled (task_pc (tasks s ! i)) \<Longrightarrow> unsettled pc) \<Longrightarrow> waking_ok (set_task i pc s)"
  by (erule waking_ok_mono) (auto intro: pending_set_task)

lemma waking_ok_simps [simp]:
  "waking_ok (set_op i opc s) = waking_ok s" "waking_ok (report k e s) = waking_ok s"
  "waking_ok (send b m s) = waking_ok s"
  by (simp_all add: waking_ok_def)

lemma waking_ok_ops [simp]: "waking_ok (s\<lparr>ops := x\<rparr>) = waking_ok s"
  by (simp add: waking_ok_def pending_def)

lemma waking_ok_on_coord:
  "waking_ok s \<Longrightarrow> states (f (coord s)) = states (coord s) \<Longrightarrow> waking_ok (on_coord f s)"
  by (simp add: waking_ok_def)

lemma waking_ok_on_state:
  assumes "waking_ok s" and "\<And>w. status (f w) \<noteq> STATE_WAKING"
  shows "waking_ok (on_coord (on_state f k) s)"
  using assms
  by (auto simp: waking_ok_def on_state_def nth_update_if split: option.splits if_splits)

lemma waking_ok_settle:
  assumes "waking_ok s" and "i < length (tasks s)" and "task_state (tasks s ! i) = a"
    and "status w \<noteq> STATE_WAKING"
  shows "waking_ok (set_task i pc (on_coord (put_state a w) s))"
  using assms unfolding waking_ok_def
  by (auto simp: nth_update_if split: if_splits intro!: pending_set_task)

lemma waking_ok_win:
  assumes "waking_ok s" and "i < length (requests s)"
    and "\<And>b. req_pc (requests s ! i) \<noteq> AtSpawn b"
  shows "waking_ok (set_req i (AtSpawn a) (on_coord (put_state a w) s))"
proof -
  have "pending a (set_req i (AtSpawn a) (on_coord (put_state a w) s))"
    using assms(2) unfolding pending_def set_req_def by auto
  moreover have "pending b (set_req i (AtSpawn a) (on_coord (put_state a w) s))" if "pending b s" for b
    using that assms(2,3) by (auto intro!: pending_set_req)
  ultimately show ?thesis
    using assms(1) unfolding waking_ok_def by (auto simp: nth_update_if split: if_splits)
qed

lemma waking_ok_spawn:
  assumes "waking_ok s" and "i < length (requests s)" and "req_pc (requests s ! i) = AtSpawn a"
  shows "waking_ok (set_req i (AtRecv a [])
           (s\<lparr>tasks := tasks s @ [\<lparr>task_reg = reg, task_state = a, task_pc = TAcquire\<rparr>]\<rparr>))"
    (is "waking_ok ?t")
proof -
  have "\<exists>m < length (tasks ?t). task_state (tasks ?t ! m) = a \<and> unsettled (task_pc (tasks ?t ! m))"
    by (rule exI [of _ "length (tasks s)"]) simp
  then have new: "pending a ?t" unfolding pending_def by blast
  have "pending b ?t" if "pending b s" and "b \<noteq> a" for b
  proof -
    from that consider
        (r) m where "m < length (requests s)" "req_pc (requests s ! m) = AtSpawn b"
      | (t) m where "m < length (tasks s)" "task_state (tasks s ! m) = b" "unsettled (task_pc (tasks s ! m))"
      unfolding pending_def by blast
    then show ?thesis
    proof cases
      case r
      then have "req_pc (requests ?t ! m) = AtSpawn b"
        using assms(3) \<open>b \<noteq> a\<close> by (auto simp: set_req_def nth_update_if)
      with r show ?thesis unfolding pending_def by auto
    next
      case t
      then have "m < length (tasks ?t) \<and> tasks ?t ! m = tasks s ! m" by (simp add: nth_append)
      with t show ?thesis unfolding pending_def by metis
    qed
  qed
  with new assms(1) show ?thesis
    unfolding waking_ok_def by (metis upd_sel(1) wake_sys.select_convs(1) wake_sys.surjective
        wake_sys.update_convs(3))
qed

lemma waking_ok_entry:
  assumes "waking_ok s" and "i < length (requests s)" and "req_pc (requests s ! i) = AtLoop"
    and "entry_state k (coord s) = (a, c)"
  shows "waking_ok (set_req i (AtLoad a) (s\<lparr>coord := c, owner := own\<rparr>))"
proof (rule waking_ok_set_req)
  have "pending b (s\<lparr>coord := c, owner := own\<rparr>) = pending b s" for b
    by (simp add: pending_def)
  with assms(1,4) show "waking_ok (s\<lparr>coord := c, owner := own\<rparr>)"
    by (auto simp: waking_ok_def entry_state_def nth_append less_Suc_eq split: option.splits if_splits)
qed (use assms in auto)

lemma waking_ok_req_step:
  assumes ok: "waking_ok s" and i: "i < length (requests s)"
    and st: "req_step i (req_reg (requests s ! i)) (req_pc (requests s ! i)) s = Some t"
  shows "waking_ok t"
proof (cases "req_pc (requests s ! i)")
  case AtFastPath
  with ok i st show ?thesis by (auto split: option.splits intro!: waking_ok_set_req)
next
  case AtLoop
  with st show ?thesis by (auto split: prod.splits intro: waking_ok_entry [OF ok i])
next
  case (AtLoad a)
  with ok i st show ?thesis by (auto intro!: waking_ok_set_req)
next
  case (AtMatch a cur)
  with ok i st show ?thesis
    by (auto simp: dispatch_def try_start_wake_def split: if_splits option.splits
        intro!: waking_ok_set_req waking_ok_win)
next
  case (AtSpawn a)
  with st show ?thesis by (auto intro: waking_ok_spawn [OF ok i])
qed (use st in simp_all)

lemma waking_ok_task_step:
  assumes ok: "waking_ok s" and i: "i < length (tasks s)"
    and st: "task_step i reg (task_state (tasks s ! i)) (task_pc (tasks s ! i)) s = Some t"
  shows "waking_ok t"
proof (cases "task_pc (tasks s ! i)")
  case (THealth p)
  with assms show ?thesis by (cases p) (auto split: if_splits intro!: waking_ok_set_task)
next
  case (TSetReady e)
  with st have "t = set_task i (TSendReady e) (on_coord (put_state (task_state (tasks s ! i))
      (set_ready (states (coord s) ! task_state (tasks s ! i)))) s)" by simp
  then show ?thesis using waking_ok_settle [OF ok i refl] by simp
next
  case (TSetDormant e)
  with st have "t = set_task i (TSend e) (on_coord (put_state (task_state (tasks s ! i))
      (set_dormant (states (coord s) ! task_state (tasks s ! i)))) s)" by simp
  then show ?thesis using waking_ok_settle [OF ok i refl] by simp
qed (use assms in \<open>auto split: if_splits intro!: waking_ok_set_task waking_ok_on_coord\<close>)

lemma waking_ok_op_step:
  assumes "waking_ok s" and "op_step i k pc s = Some t"
  shows "waking_ok t"
  using assms
  by (cases "(i, k, pc, s)" rule: op_step.cases)
     (auto simp: waking_ok_on_state split: if_splits intro!: waking_ok_on_coord)

lemma waking_ok_call:
  "waking_ok s \<Longrightarrow> waking_ok (s\<lparr>requests := requests s @ [\<lparr>req_reg = reg, req_pc = AtFastPath\<rparr>]\<rparr>)"
  by (erule waking_ok_mono) (auto simp: pending_def nth_append less_SucI)

lemma waking_ok_step:
  assumes ok: "waking_ok s" and st: "wake_step e s = Some t"
  shows "waking_ok t"
proof (cases e)
  case (Call reg)
  with assms waking_ok_call show ?thesis by auto
next
  case (ReqStep i)
  with st waking_ok_req_step [OF ok] show ?thesis by (simp split: if_splits)
next
  case (FetchAnswer i ans)
  with assms show ?thesis
    by (auto simp: fetch_answer_def split: if_splits request_pc.splits sum.splits option.splits
        intro!: waking_ok_set_req waking_ok_on_coord)
next
  case (Receive i)
  with assms show ?thesis
    by (auto simp: receive_def split: if_splits request_pc.splits list.splits intro!: waking_ok_set_req)
next
  case (TimeOut i)
  with assms show ?thesis
    by (auto split: if_splits request_pc.splits list.splits intro!: waking_ok_set_req)
next
  case (Disconnect i)
  with assms show ?thesis by (auto split: if_splits request_pc.splits intro!: waking_ok_set_req)
next
  case (TaskStep i)
  with st waking_ok_task_step [OF ok] show ?thesis by (simp split: if_splits)
next
  case (ScaleUpAnswer i ans)
  with assms show ?thesis
    by (auto split: if_splits sum.splits intro!: waking_ok_set_task waking_ok_on_coord)
next
  case (HealthAnswer i ans)
  with assms show ?thesis
    by (auto split: if_splits task_pc.splits sum.splits intro!: waking_ok_set_task)
next
  case (OpStep i)
  with st waking_ok_op_step [OF ok] show ?thesis by (simp split: if_splits)
next
  case (RefreshAnswer i ans)
  with assms show ?thesis by (auto split: if_splits sum.splits option.splits)
qed (use assms in auto)

lemma waking_ok_init: "waking_ok (wake_init n to)"
  by (simp add: waking_ok_def wake_init_def coordinator_new_def)

lemma reachable_waking_ok: "wake_reachable n to s \<Longrightarrow> waking_ok s"
  by (induction rule: wake_reachable.induct) (auto intro: waking_ok_init waking_ok_step)

subsection \<open>Permits\<close>

definition scaling_up :: "wake_sys \<Rightarrow> nat" where
  "scaling_up s = length (filter (\<lambda>t. task_pc t = TScaleUp) (tasks s))"

definition permits_ok :: "nat \<Rightarrow> wake_sys \<Rightarrow> bool" where
  "permits_ok n s \<longleftrightarrow> permits (coord s) + scaling_up s = n \<and> \<not> sem_closed (coord s)"

lemma scaling_up_set_task:
  "i < length (tasks s) \<Longrightarrow>
   scaling_up (set_task i pc s) + of_bool (task_pc (tasks s ! i) = TScaleUp) =
   scaling_up s + of_bool (pc = TScaleUp)"
  using length_filter_list_update [of i "tasks s" "\<lambda>t. task_pc t = TScaleUp"
      "(tasks s ! i)\<lparr>task_pc := pc\<rparr>"]
  by (simp add: scaling_up_def set_task_def of_bool_def split: if_splits)

lemma scaling_up_simps [simp]:
  "scaling_up (set_req i rpc s) = scaling_up s" "scaling_up (set_op i opc s) = scaling_up s"
  "scaling_up (report k e s) = scaling_up s" "scaling_up (send a m s) = scaling_up s"
  "scaling_up (on_coord f s) = scaling_up s"
  by (simp_all add: scaling_up_def)

lemma permits_ok_set_task:
  assumes "i < length (tasks s)" and "task_pc (tasks s ! i) \<noteq> TScaleUp" and "pc \<noteq> TScaleUp"
  shows "permits_ok n (set_task i pc s) = permits_ok n s"
  using scaling_up_set_task [OF assms(1), of pc] assms(2,3) by (simp add: permits_ok_def)

lemma permits_ok_simps [simp]:
  "permits_ok n (set_req i rpc s) = permits_ok n s" "permits_ok n (set_op i opc s) = permits_ok n s"
  "permits_ok n (report k e s) = permits_ok n s" "permits_ok n (send a m s) = permits_ok n s"
  by (simp_all add: permits_ok_def)

lemma permits_ok_on_coord:
  "permits (f (coord s)) = permits (coord s) \<Longrightarrow> sem_closed (f (coord s)) = sem_closed (coord s) \<Longrightarrow>
   permits_ok n (on_coord f s) = permits_ok n s"
  by (simp add: permits_ok_def)

lemma permits_ok_req_step:
  assumes "permits_ok n s" and "req_step i reg pc s = Some t"
  shows "permits_ok n t"
proof (cases pc)
  case AtLoop
  with assms show ?thesis
    by (auto simp: permits_ok_def scaling_up_def entry_state_def split: option.splits)
next
  case (AtMatch a cur)
  with assms show ?thesis
    by (auto simp: dispatch_def try_start_wake_def permits_ok_on_coord
        split: if_splits option.splits)
next
  case (AtSpawn a)
  with assms show ?thesis by (auto simp: permits_ok_def scaling_up_def)
qed (use assms in \<open>auto split: option.splits\<close>)

lemma permits_ok_task_step:
  assumes ok: "permits_ok n s" and i: "i < length (tasks s)"
    and st: "task_step i reg a (task_pc (tasks s ! i)) s = Some t"
  shows "permits_ok n t"
proof (cases "task_pc (tasks s ! i)")
  case TAcquire
  with assms scaling_up_set_task [OF i, of TScaleUp] show ?thesis
    by (auto simp: permits_ok_def scaling_up_def set_task_def split: if_splits)
next
  case (THealth p)
  with assms show ?thesis by (cases p) (auto simp: permits_ok_set_task split: if_splits)
qed (use assms in \<open>auto simp: permits_ok_set_task permits_ok_on_coord split: if_splits\<close>)

lemma permits_ok_op_step:
  assumes "permits_ok n s" and "op_step i k pc s = Some t"
  shows "permits_ok n t"
  using assms
  by (cases "(i, k, pc, s)" rule: op_step.cases) (auto simp: permits_ok_on_coord)

lemma permits_ok_answer:
  assumes "permits_ok n s" and "i < length (tasks s)" and "task_pc (tasks s ! i) = TScaleUp"
    and "pc \<noteq> TScaleUp"
  shows "permits_ok n (set_task i pc (on_coord (\<lambda>c. c\<lparr>permits := Suc (permits c)\<rparr>) s))"
  using assms scaling_up_set_task [of i "on_coord (\<lambda>c. c\<lparr>permits := Suc (permits c)\<rparr>) s" pc]
  by (simp add: permits_ok_def)

lemma permits_ok_step:
  assumes ok: "permits_ok n s" and st: "wake_step e s = Some t"
  shows "permits_ok n t"
proof (cases e)
  case (ReqStep i)
  with st permits_ok_req_step [OF ok] show ?thesis by (simp split: if_splits)
next
  case (FetchAnswer i ans)
  with assms show ?thesis
    by (auto simp: fetch_answer_def permits_ok_on_coord
        split: if_splits request_pc.splits sum.splits option.splits)
next
  case (Receive i)
  with assms show ?thesis
    by (auto simp: receive_def split: if_splits request_pc.splits list.splits)
next
  case (TimeOut i)
  with assms show ?thesis by (auto split: if_splits request_pc.splits list.splits)
next
  case (Disconnect i)
  with assms show ?thesis by (auto split: if_splits request_pc.splits)
next
  case (TaskStep i)
  with st permits_ok_task_step [OF ok] show ?thesis by (simp split: if_splits)
next
  case (ScaleUpAnswer i ans)
  with assms show ?thesis by (auto split: if_splits sum.splits intro!: permits_ok_answer)
next
  case (HealthAnswer i ans)
  with assms show ?thesis
    by (auto simp: permits_ok_set_task split: if_splits task_pc.splits sum.splits)
next
  case (OpStep i)
  with st permits_ok_op_step [OF ok] show ?thesis by (simp split: if_splits)
next
  case (RefreshAnswer i ans)
  with assms show ?thesis by (auto split: if_splits sum.splits option.splits)
qed (use assms in \<open>auto simp: permits_ok_def scaling_up_def\<close>)

lemma permits_ok_init: "permits_ok n (wake_init n to)"
  by (simp add: permits_ok_def scaling_up_def wake_init_def coordinator_new_def)

lemma reachable_permits_ok: "wake_reachable n to s \<Longrightarrow> permits_ok n s"
  by (induction rule: wake_reachable.induct) (auto intro: permits_ok_init permits_ok_step)

subsection \<open>Endpoints are healthy reports\<close>

fun req_claims :: "request_pc \<Rightarrow> endpoint \<Rightarrow> bool" where
  "req_claims (AtRecv a ms) e = (WakeReady e \<in> set ms)"
| "req_claims (Returned (Inr d)) e = (d = e)"
| "req_claims _ e = False"

fun task_claims :: "task_pc \<Rightarrow> endpoint \<Rightarrow> bool" where
  "task_claims (TInsert d) e = (d = e)"
| "task_claims (TSetReady d) e = (d = e)"
| "task_claims (TSendReady d) e = (d = e)"
| "task_claims _ e = False"

definition sound_ok :: "wake_sys \<Rightarrow> bool" where
  "sound_ok s \<longleftrightarrow>
     (\<forall>k e. endpoints (coord s) k = Some e \<longrightarrow> (k, e) \<in> set (reported s)) \<and>
     (\<forall>r \<in> set (requests s). \<forall>e. req_claims (req_pc r) e \<longrightarrow> (reg_key (req_reg r), e) \<in> set (reported s)) \<and>
     (\<forall>t \<in> set (tasks s). \<forall>e. task_claims (task_pc t) e \<longrightarrow> (reg_key (task_reg t), e) \<in> set (reported s)) \<and>
     (\<forall>p \<in> set (ops s). \<forall>e. op_pc p = RefreshInsert e \<longrightarrow> (op_key p, e) \<in> set (reported s))"

lemma sound_ok_set_req:
  assumes "sound_ok s" and "i < length (requests s)"
    and "\<And>e. req_claims pc e \<Longrightarrow> (reg_key (req_reg (requests s ! i)), e) \<in> set (reported s)"
  shows "sound_ok (set_req i pc s)"
  using assms by (auto simp: sound_ok_def dest!: set_req_mem)

lemma sound_ok_set_task:
  assumes "sound_ok s" and "i < length (tasks s)"
    and "\<And>e. task_claims pc e \<Longrightarrow> (reg_key (task_reg (tasks s ! i)), e) \<in> set (reported s)"
  shows "sound_ok (set_task i pc s)"
  using assms by (auto simp: sound_ok_def dest!: set_task_mem)

lemma sound_ok_set_op:
  assumes "sound_ok s" and "i < length (ops s)"
    and "\<And>e. pc = RefreshInsert e \<Longrightarrow> (op_key (ops s ! i), e) \<in> set (reported s)"
  shows "sound_ok (set_op i pc s)"
  using assms by (auto simp: sound_ok_def dest!: set_op_mem)

lemma sound_ok_report: "sound_ok s \<Longrightarrow> sound_ok (report k e s)"
  by (auto simp: sound_ok_def)

lemma sound_ok_on_coord:
  assumes "sound_ok s"
    and "\<And>k e. endpoints (f (coord s)) k = Some e \<Longrightarrow>
           endpoints (coord s) k = Some e \<or> (k, e) \<in> set (reported s)"
  shows "sound_ok (on_coord f s)"
  using assms unfolding sound_ok_def by (simp del: split_paired_All) blast

lemma sound_ok_send:
  assumes "sound_ok s"
    and "\<And>r e. r \<in> set (requests s) \<Longrightarrow> receives_on a (req_pc r) \<Longrightarrow> m = WakeReady e \<Longrightarrow>
           (reg_key (req_reg r), e) \<in> set (reported s)"
  shows "sound_ok (send a m s)"
proof -
  have "(reg_key (req_reg r), e) \<in> set (reported s)"
    if "r \<in> set (requests s)" and "req_claims (deliver a m (req_pc r)) e" for r e
    using that assms by (cases "req_pc r") (auto simp: sound_ok_def split: if_splits)
  with assms(1) show ?thesis by (simp add: sound_ok_def requests_send)
qed

lemma failure_message_not_ready [simp]: "failure_message err \<noteq> WakeReady e"
  by (cases err) auto

lemma sound_ok_task:
  "sound_ok s \<Longrightarrow> i < length (tasks s) \<Longrightarrow> task_claims (task_pc (tasks s ! i)) e \<Longrightarrow>
   (reg_key (task_reg (tasks s ! i)), e) \<in> set (reported s)"
  by (simp add: sound_ok_def)

lemma sound_ok_endpoint:
  "sound_ok s \<Longrightarrow> endpoints (coord s) k = Some e \<Longrightarrow> (k, e) \<in> set (reported s)"
  by (simp add: sound_ok_def)

text \<open>A receiver subscribed to a task's cell waits for the task's job.\<close>

lemma receiver_same_job:
  assumes "addr_ok s" and "i < length (tasks s)" and "r \<in> set (requests s)"
    and "receives_on (task_state (tasks s ! i)) (req_pc r)"
  shows "reg_key (req_reg r) = reg_key (task_reg (tasks s ! i))"
proof -
  have "cell_of s (task_state (tasks s ! i)) (reg_key (task_reg (tasks s ! i)))"
    using assms(1,2) by (simp add: addr_ok_def)
  moreover have "req_addr (req_pc r) = Some (task_state (tasks s ! i))"
    using assms(4) by (cases "req_pc r") auto
  then have "cell_of s (task_state (tasks s ! i)) (reg_key (req_reg r))"
    using assms(1,3) by (simp add: addr_ok_def)
  ultimately show ?thesis by (simp add: cell_of_def)
qed

lemma sound_ok_req_step:
  assumes ok: "sound_ok s" and i: "i < length (requests s)"
    and st: "req_step i (req_reg (requests s ! i)) (req_pc (requests s ! i)) s = Some t"
  shows "sound_ok t"
proof (cases "req_pc (requests s ! i)")
  case AtFastPath
  with ok i st show ?thesis
    by (auto split: option.splits intro!: sound_ok_set_req sound_ok_endpoint)
next
  case AtLoop
  with ok i st show ?thesis
    by (auto simp: sound_ok_def entry_state_def set_req_def
        split: option.splits dest!: set_update_subset_insert [THEN subsetD])
next
  case (AtLoad a)
  with ok i st show ?thesis by (auto intro!: sound_ok_set_req)
next
  case (AtMatch a cur)
  with ok i st show ?thesis
    by (auto simp: dispatch_def try_start_wake_def split: if_splits option.splits
        intro!: sound_ok_set_req sound_ok_on_coord sound_ok_endpoint)
next
  case (AtSpawn a)
  with ok i st show ?thesis by (auto simp: sound_ok_def dest!: set_req_mem)
qed (use st in simp_all)

lemma sound_ok_task_step:
  assumes adr: "addr_ok s" and ok: "sound_ok s" and i: "i < length (tasks s)"
    and st: "task_step i (task_reg (tasks s ! i)) (task_state (tasks s ! i)) (task_pc (tasks s ! i)) s
             = Some t"
  shows "sound_ok t"
proof -
  note here = sound_ok_task [OF ok i]
  show ?thesis
  proof (cases "task_pc (tasks s ! i)")
    case (THealth p)
    with ok i st show ?thesis by (cases p) (auto split: if_splits intro!: sound_ok_set_task)
  next
    case (TInsert e)
    with ok i st here show ?thesis
      by (auto split: if_splits intro!: sound_ok_set_task sound_ok_on_coord)
  next
    case (TSetReady e)
    with ok i st here show ?thesis by (auto intro!: sound_ok_set_task sound_ok_on_coord)
  next
    case (TSendReady e)
    with ok i st here receiver_same_job [OF adr i] show ?thesis
      by (auto intro!: sound_ok_set_task sound_ok_send)
  qed (use ok i st in \<open>auto split: if_splits intro!: sound_ok_set_task sound_ok_send sound_ok_on_coord\<close>)
qed

lemma sound_ok_op_step:
  assumes "sound_ok s" and "i < length (ops s)"
    and "op_step i (op_key (ops s ! i)) (op_pc (ops s ! i)) s = Some t"
  shows "sound_ok t"
proof -
  have here: "op_pc (ops s ! i) = RefreshInsert e \<Longrightarrow> (op_key (ops s ! i), e) \<in> set (reported s)" for e
    using assms(1,2) by (simp add: sound_ok_def)
  show ?thesis
    using assms here
    by (cases "op_pc (ops s ! i)")
       (auto split: if_splits intro!: sound_ok_set_op sound_ok_on_coord)
qed

lemma received_Inr: "received k m = Inr e \<longleftrightarrow> m = WakeReady e"
  by (cases m) auto

lemma req_claims_Returned [simp]: "req_claims (Returned x) e \<longleftrightarrow> x = Inr e"
  by (cases x) auto

lemma sound_ok_receive:
  assumes "sound_ok s" and "i < length (requests s)" and "req_pc (requests s ! i) = AtRecv a ms"
    and "receive i k ms s = Some t"
  shows "sound_ok t"
proof -
  have "WakeReady e \<in> set ms \<Longrightarrow> (reg_key (req_reg (requests s ! i)), e) \<in> set (reported s)" for e
    using assms(1-3) nth_mem [OF assms(2)] unfolding sound_ok_def by fastforce
  with assms show ?thesis
    by (auto simp: receive_def received_Inr split: list.splits if_splits intro!: sound_ok_set_req)
qed

lemma sound_ok_step:
  assumes adr: "addr_ok s" and ok: "sound_ok s" and st: "wake_step e s = Some t"
  shows "sound_ok t"
proof (cases e)
  case (ReqStep i)
  with st sound_ok_req_step [OF ok] show ?thesis by (simp split: if_splits)
next
  case (FetchAnswer i ans)
  with ok st show ?thesis
    by (auto simp: fetch_answer_def split: if_splits request_pc.splits sum.splits option.splits
        intro!: sound_ok_set_req)
       (auto simp: sound_ok_def split: if_splits)
next
  case (Receive i)
  with st sound_ok_receive [OF ok] show ?thesis
    by (auto split: if_splits request_pc.splits)
next
  case (TimeOut i)
  with ok st show ?thesis
    by (auto split: if_splits request_pc.splits list.splits intro!: sound_ok_set_req)
next
  case (Disconnect i)
  with ok st show ?thesis by (auto split: if_splits request_pc.splits intro!: sound_ok_set_req)
next
  case (TaskStep i)
  with st sound_ok_task_step [OF adr ok] show ?thesis by (simp split: if_splits)
next
  case (ScaleUpAnswer i ans)
  with ok st show ?thesis
    by (auto split: if_splits sum.splits intro!: sound_ok_set_task sound_ok_on_coord)
next
  case (HealthAnswer i ans)
  with ok st show ?thesis
    by (auto split: if_splits task_pc.splits sum.splits intro!: sound_ok_set_task sound_ok_report)
next
  case (OpStep i)
  with st sound_ok_op_step [OF ok] show ?thesis by (simp split: if_splits)
next
  case (RefreshAnswer i ans)
  with ok st show ?thesis
    by (auto split: if_splits sum.splits option.splits intro!: sound_ok_set_op sound_ok_report)
qed (use ok st in \<open>auto simp: sound_ok_def\<close>)

lemma sound_ok_init: "sound_ok (wake_init n to)"
  by (simp add: sound_ok_def wake_init_def coordinator_new_def)

lemma reachable_sound_ok: "wake_reachable n to s \<Longrightarrow> sound_ok s"
  by (induction rule: wake_reachable.induct)
     (auto intro: sound_ok_init sound_ok_step reachable_addr_ok)

end
