(* ===== verification/Wake_Coalescing.thy ===== *)
theory Wake_Coalescing
  imports Wake_Invariants
begin

text \<open>
  Request coalescing: in a run in which no wake fails and no job is forgotten, a job gets
  one wake task however many requests interleave. The second part has the runs in which it
  does not, and the run in which a waiter misses the broadcast.
\<close>

subsection \<open>Calm runs\<close>

fun failing :: "task_pc \<Rightarrow> bool" where
  "failing (TSetDormant _) = True"
| "failing (TSend _) = True"
| "failing TRemove = True"
| "failing _ = False"

text \<open>
  A wake that fails or is abandoned passes through a failing program counter, so a run
  without such a state is a run without a failed wake; a run without operations neither
  forgets nor refreshes a job.
\<close>

definition calm :: "wake_sys \<Rightarrow> bool" where
  "calm s \<longleftrightarrow> ops s = [] \<and> (\<forall>t \<in> set (tasks s). \<not> failing (task_pc t))"

inductive calm_reachable :: "nat \<Rightarrow> nat \<Rightarrow> wake_sys \<Rightarrow> bool" for n to where
  start: "calm_reachable n to (wake_init n to)"
| step: "calm_reachable n to s \<Longrightarrow> wake_step e s = Some t \<Longrightarrow> calm t \<Longrightarrow> calm_reachable n to t"

lemma calm_reachable_imp: "calm_reachable n to s \<Longrightarrow> wake_reachable n to s"
  by (induction rule: calm_reachable.induct) (auto intro: wake_reachable.intros)

definition spawned :: "nat \<Rightarrow> wake_sys \<Rightarrow> nat" where
  "spawned a s = length (filter (\<lambda>t. task_state t = a) (tasks s)) +
                 length (filter (\<lambda>r. req_pc r = AtSpawn a) (requests s))"

definition once_ok :: "wake_sys \<Rightarrow> bool" where
  "once_ok s \<longleftrightarrow>
     (\<forall>a < length (states (coord s)).
        spawned a s = of_bool (status (states (coord s) ! a) \<noteq> STATE_DORMANT)) \<and>
     (\<forall>a < length (owner s). jobs (coord s) (owner s ! a) = Some a)"

lemma spawned_set_req:
  "i < length (requests s) \<Longrightarrow>
   spawned a (set_req i pc s) + of_bool (req_pc (requests s ! i) = AtSpawn a) =
   spawned a s + of_bool (pc = AtSpawn a)"
  using length_filter_list_update [of i "requests s" "\<lambda>r. req_pc r = AtSpawn a"
      "(requests s ! i)\<lparr>req_pc := pc\<rparr>"]
  by (simp add: spawned_def set_req_def of_bool_def split: if_splits)

lemma spawned_set_task [simp]: "spawned a (set_task i pc s) = spawned a s"
proof (cases "i < length (tasks s)")
  case True
  then show ?thesis
    unfolding spawned_def set_task_def by (simp add: length_filter_update_same)
qed (simp add: spawned_def set_task_def list_update_beyond)

lemma spawned_simps [simp]:
  "spawned a (on_coord f s) = spawned a s" "spawned a (report k e s) = spawned a s"
  "spawned a (send b m s) = spawned a s"
  by (simp_all add: spawned_def requests_send filter_map o_def)

lemma once_ok_set_req:
  assumes "once_ok s" and "i < length (requests s)"
    and "\<And>b. req_pc (requests s ! i) \<noteq> AtSpawn b" and "\<And>b. pc \<noteq> AtSpawn b"
  shows "once_ok (set_req i pc s)"
  using assms spawned_set_req [OF assms(2), of _ pc] by (simp add: once_ok_def)

lemma once_ok_set_task [simp]: "once_ok (set_task i pc s) = once_ok s"
  by (simp add: once_ok_def)

lemma once_ok_simps [simp]:
  "once_ok (report k e s) = once_ok s" "once_ok (send b m s) = once_ok s"
  by (simp_all add: once_ok_def)

lemma once_ok_on_coord:
  "once_ok s \<Longrightarrow> states (f (coord s)) = states (coord s) \<Longrightarrow> jobs (f (coord s)) = jobs (coord s) \<Longrightarrow>
   once_ok (on_coord f s)"
  by (simp add: once_ok_def)

lemma once_ok_put_state:
  assumes "once_ok s"
    and "status w = STATE_DORMANT \<longleftrightarrow> status (states (coord s) ! a) = STATE_DORMANT"
  shows "once_ok (on_coord (put_state a w) s)"
  using assms by (auto simp: once_ok_def nth_update_if)

text \<open>Winning the compare-exchange, and spawning the task.\<close>

lemma once_ok_win:
  assumes "once_ok s" and "i < length (requests s)"
    and "\<And>b. req_pc (requests s ! i) \<noteq> AtSpawn b"
    and "status (states (coord s) ! a) = STATE_DORMANT" and "status w = STATE_WAKING"
  shows "once_ok (set_req i (AtSpawn a) (on_coord (put_state a w) s))"
proof -
  have "spawned b (set_req i (AtSpawn a) (on_coord (put_state a w) s)) = spawned b s + of_bool (b = a)" for b
    using spawned_set_req [of i "on_coord (put_state a w) s" b "AtSpawn a"] assms(2,3) by auto
  with assms show ?thesis by (auto simp: once_ok_def nth_update_if)
qed

lemma once_ok_spawn:
  assumes "once_ok s" and "i < length (requests s)" and "req_pc (requests s ! i) = AtSpawn a"
  shows "once_ok (set_req i (AtRecv a [])
           (s\<lparr>tasks := tasks s @ [\<lparr>task_reg = reg, task_state = a, task_pc = TAcquire\<rparr>]\<rparr>))"
    (is "once_ok (set_req i _ ?u)")
proof -
  have "spawned b (set_req i (AtRecv a []) ?u) = spawned b s" for b
    using spawned_set_req [of i ?u b "AtRecv a []"] assms(2,3) by (auto simp: spawned_def)
  with assms(1) show ?thesis by (simp add: once_ok_def)
qed

lemma once_ok_entry:
  assumes adr: "addr_ok s" and ok: "once_ok s" and i: "i < length (requests s)"
    and pc: "req_pc (requests s ! i) = AtLoop"
    and e: "entry_state k (coord s) = (a, c)"
    and own: "own = (if jobs (coord s) k = None then owner s @ [k] else owner s)"
  shows "once_ok (set_req i (AtLoad a) (s\<lparr>coord := c, owner := own\<rparr>))"
proof (rule once_ok_set_req)
  have sp: "spawned b (s\<lparr>coord := c, owner := own\<rparr>) = spawned b s" for b
    by (simp add: spawned_def)
  show "once_ok (s\<lparr>coord := c, owner := own\<rparr>)"
  proof (cases "jobs (coord s) k")
    case None
    have len: "length (owner s) = length (states (coord s))" using adr by (simp add: addr_ok_def)
    have "t \<in> set (tasks s) \<Longrightarrow> task_state t < length (states (coord s))" for t
      using adr len by (auto simp: addr_ok_def cell_of_def)
    moreover have "r \<in> set (requests s) \<Longrightarrow> req_pc r = AtSpawn b \<Longrightarrow> b < length (states (coord s))" for r b
      using adr len unfolding addr_ok_def cell_of_def by fastforce
    ultimately have "spawned (length (states (coord s))) s = 0"
      unfolding spawned_def by (force simp: filter_empty_conv)
    moreover have "owner s ! b \<noteq> k" if "b < length (owner s)" for b
      using that ok None by (auto simp: once_ok_def)
    ultimately show ?thesis
      using ok None e own len unfolding once_ok_def sp
      by (auto simp: entry_state_def nth_append less_Suc_eq)
  next
    case (Some b)
    with ok e own show ?thesis unfolding once_ok_def sp by (simp add: entry_state_def)
  qed
qed (use i pc in auto)

lemma once_ok_req_step:
  assumes adr: "addr_ok s" and ok: "once_ok s" and i: "i < length (requests s)"
    and st: "req_step i (req_reg (requests s ! i)) (req_pc (requests s ! i)) s = Some t"
  shows "once_ok t"
proof (cases "req_pc (requests s ! i)")
  case AtFastPath
  with ok i st show ?thesis by (auto split: option.splits intro!: once_ok_set_req)
next
  case AtLoop
  with st show ?thesis by (auto split: prod.splits intro: once_ok_entry [OF adr ok i _ _ refl])
next
  case (AtLoad a)
  with ok i st show ?thesis by (auto intro!: once_ok_set_req)
next
  case (AtMatch a cur)
  have win: "once_ok (set_req i (AtSpawn a) (on_coord (put_state a w) s))"
    if "status (states (coord s) ! a) = STATE_DORMANT" and "status w = STATE_WAKING" for w
    using once_ok_win [OF ok i _ that] AtMatch by simp
  have stay: "once_ok (set_req i pc s)" if "\<And>b. pc \<noteq> AtSpawn b" for pc
    using once_ok_set_req [OF ok i _ that] AtMatch by simp
  from AtMatch st show ?thesis
    by (auto simp: dispatch_def try_start_wake_def win stay split: if_splits option.splits)
next
  case (AtSpawn a)
  with st show ?thesis by (auto intro: once_ok_spawn [OF ok i])
qed (use st in simp_all)

text \<open>
  In a calm run the only status a task writes is \<open>STATE_READY\<close>, on a cell it woke.
\<close>

lemma spawned_pos: "i < length (tasks s) \<Longrightarrow> 0 < spawned (task_state (tasks s ! i)) s"
  unfolding spawned_def by (metis (mono_tags, lifting) add_gr_0 filter_pos_ex nth_mem)

lemma once_ok_task_step:
  assumes adr: "addr_ok s" and ok: "once_ok s" and i: "i < length (tasks s)"
    and cm: "\<not> failing (task_pc (tasks s ! i))"
    and st: "task_step i reg (task_state (tasks s ! i)) (task_pc (tasks s ! i)) s = Some t"
  shows "once_ok t"
proof (cases "task_pc (tasks s ! i)")
  case TAcquire
  with ok st show ?thesis by (auto split: if_splits intro!: once_ok_on_coord)
next
  case (THealth p)
  with ok st show ?thesis by (cases p) (auto split: if_splits)
next
  case (TInsert e)
  with ok st show ?thesis by (auto intro!: once_ok_on_coord)
next
  case (TSetReady e)
  let ?a = "task_state (tasks s ! i)"
  have "?a < length (states (coord s))" using adr i by (auto simp: addr_ok_def cell_of_def)
  with ok spawned_pos [OF i] have "status (states (coord s) ! ?a) \<noteq> STATE_DORMANT"
    by (auto simp: once_ok_def)
  with TSetReady ok st show ?thesis by (auto intro!: once_ok_put_state)
qed (use cm ok st in auto)

lemma once_ok_step:
  assumes adr: "addr_ok s" and ok: "once_ok s" and cm: "calm s" and st: "wake_step e s = Some t"
  shows "once_ok t"
proof (cases e)
  case (Call reg)
  with ok st show ?thesis by (auto simp: once_ok_def spawned_def)
next
  case (ReqStep i)
  with st once_ok_req_step [OF adr ok] show ?thesis by (simp split: if_splits)
next
  case (FetchAnswer i ans)
  with ok st show ?thesis
    by (auto simp: fetch_answer_def split: if_splits request_pc.splits sum.splits option.splits
        intro!: once_ok_set_req once_ok_on_coord)
next
  case (Receive i)
  with ok st show ?thesis
    by (auto simp: receive_def split: if_splits request_pc.splits list.splits intro!: once_ok_set_req)
next
  case (TimeOut i)
  with ok st show ?thesis
    by (auto split: if_splits request_pc.splits list.splits intro!: once_ok_set_req)
next
  case (Disconnect i)
  with ok st show ?thesis by (auto split: if_splits request_pc.splits intro!: once_ok_set_req)
next
  case (TaskStep i)
  with st cm once_ok_task_step [OF adr ok] show ?thesis
    by (simp add: calm_def split: if_splits)
next
  case (ScaleUpAnswer i ans)
  with ok st show ?thesis by (auto split: if_splits sum.splits intro!: once_ok_on_coord)
next
  case (HealthAnswer i ans)
  with ok st show ?thesis by (auto split: if_splits task_pc.splits sum.splits)
qed (use ok cm st in \<open>auto simp: calm_def once_ok_def spawned_def\<close>)

lemma calm_reachable_calm: "calm_reachable n to s \<Longrightarrow> calm s"
  by (cases rule: calm_reachable.cases) (auto simp: calm_def wake_init_def)

lemma calm_reachable_once_ok: "calm_reachable n to s \<Longrightarrow> once_ok s"
proof (induction rule: calm_reachable.induct)
  case start
  show ?case by (simp add: once_ok_def spawned_def wake_init_def coordinator_new_def)
next
  case (step s e t)
  then show ?case
    using once_ok_step calm_reachable_calm reachable_addr_ok calm_reachable_imp by blast
qed

text \<open>One cell per job, one task per cell.\<close>

definition wakes_for :: "string \<Rightarrow> wake_sys \<Rightarrow> wake_task list" where
  "wakes_for k s = filter (\<lambda>t. reg_key (task_reg t) = k) (tasks s)"

lemma wakes_for_le_1:
  assumes adr: "addr_ok s" and ok: "once_ok s"
  shows "length (wakes_for k s) \<le> 1"
proof (cases "wakes_for k s")
  case (Cons t ts)
  then have "t \<in> set (tasks s)" and "reg_key (task_reg t) = k"
    unfolding wakes_for_def by (auto dest: filter_eq_ConsD)
  then have cell: "cell_of s (task_state t) k" using adr by (auto simp: addr_ok_def)
  have same: "task_state u = task_state t" if "u \<in> set (tasks s)" and "reg_key (task_reg u) = k" for u
  proof -
    have "cell_of s (task_state u) k" using that adr by (auto simp: addr_ok_def)
    then show ?thesis using cell ok unfolding cell_of_def once_ok_def by (metis option.inject)
  qed
  have "length (wakes_for k s) \<le> length (filter (\<lambda>u. task_state u = task_state t) (tasks s))"
    unfolding wakes_for_def length_filter_conv_card
    using same by (intro card_mono) auto
  also have "\<dots> \<le> spawned (task_state t) s" by (simp add: spawned_def)
  also have "\<dots> \<le> 1" using ok cell adr by (auto simp: once_ok_def cell_of_def addr_ok_def)
  finally show ?thesis .
qed simp

subsection \<open>Concrete runs\<close>

text \<open>Runs that are checked to be calm at every step, for the witnesses.\<close>

fun calm_run :: "wake_event list \<Rightarrow> wake_sys \<Rightarrow> wake_sys option" where
  "calm_run [] s = Some s"
| "calm_run (e # es) s =
     (case wake_step e s of
        None \<Rightarrow> None
      | Some t \<Rightarrow> if calm t then calm_run es t else None)"

lemma calm_run_reachable:
  "calm_run es s = Some t \<Longrightarrow> calm_reachable n to s \<Longrightarrow> calm_reachable n to t"
  by (induction es arbitrary: s) (auto split: option.splits if_splits intro: calm_reachable.step)

lemma wake_run_reachable:
  "wake_run es s = Some t \<Longrightarrow> wake_reachable n to s \<Longrightarrow> wake_reachable n to t"
  by (induction es arbitrary: s) (auto split: option.splits intro: wake_reachable.step)

definition demo_reg :: job_registration where
  "demo_reg = \<lparr>job_id = JobId ''job'', service_name = ServiceName ''svc'', nomad_group = ''web''\<rparr>"

definition demo_ep :: endpoint where
  "demo_ep = \<lparr>host = ''10.0.0.1'', port = 8080\<rparr>"

text \<open>One request wakes the job; a second one joins while it is waking.\<close>

definition demo_two_requests :: "wake_event list" where
  "demo_two_requests =
     [Call demo_reg, Call demo_reg,
      ReqStep 0, ReqStep 1, ReqStep 0, ReqStep 1, ReqStep 0, ReqStep 1,
      ReqStep 0, ReqStep 1, ReqStep 0, ReqStep 1, ReqStep 1, ReqStep 1,
      TaskStep 0, ScaleUpAnswer 0 (Inr ()), HealthAnswer 0 (Inr demo_ep),
      TaskStep 0, TaskStep 0, TaskStep 0, Receive 0, Receive 1]"

text \<open>The second request has loaded \<open>STATE_WAKING\<close> when the wake completes, and subscribes after.\<close>

definition lost_wakeup_run :: "wake_event list" where
  "lost_wakeup_run =
     [Call demo_reg, ReqStep 0, ReqStep 0, ReqStep 0, ReqStep 0, ReqStep 0,
      Call demo_reg, ReqStep 1, ReqStep 1, ReqStep 1,
      TaskStep 0, ScaleUpAnswer 0 (Inr ()), HealthAnswer 0 (Inr demo_ep),
      TaskStep 0, TaskStep 0, TaskStep 0,
      ReqStep 1]"

text \<open>
  A wake fails. After it wrote \<open>STATE_DORMANT\<close> and before it removes the map entry, a second
  request starts another wake on the same cell; the removal then lets a third one start on a
  fresh cell.
\<close>

definition double_wake_run :: "wake_event list" where
  "double_wake_run =
     [Call demo_reg, ReqStep 0, ReqStep 0, ReqStep 0, ReqStep 0, ReqStep 0,
      TaskStep 0, ScaleUpAnswer 0 (Inl (Nomad ''boom'')), TaskStep 0,
      Call demo_reg, ReqStep 1, ReqStep 1, ReqStep 1, ReqStep 1, ReqStep 1,
      TaskStep 0, TaskStep 0,
      Call demo_reg, ReqStep 2, ReqStep 2, ReqStep 2, ReqStep 2, ReqStep 2]"

lemmas run_simps = wake_init_def coordinator_new_def demo_reg_def demo_ep_def reg_key_def
  dispatch_def try_start_wake_def entry_state_def fetch_answer_def receive_def state_defs
  upd_defs map_defs set_ready_def set_dormant_def receiver_count_def calm_def
  broadcast_capacity_def

subsection \<open>Properties\<close>

text \<open>
  C1: Request coalescing. In every run in which no wake fails and the job is not forgotten,
  at most one wake task is ever spawned for a job, however many requests for it interleave,
  so at most one \<^verbatim>\<open>scale_up\<close> call is made.
\<close>

theorem coalescing: "calm_reachable n to s \<Longrightarrow> length (wakes_for k s) \<le> 1"
  using wakes_for_le_1 calm_reachable_once_ok reachable_addr_ok calm_reachable_imp by blast

lemma demo_two_requests_run:
  "case calm_run demo_two_requests (wake_init 1 60) of
     None \<Rightarrow> False
   | Some s \<Rightarrow> length (wakes_for ''job'' s) = 1 \<and>
       map req_pc (requests s) = [Returned (Inr demo_ep), Returned (Inr demo_ep)]"
  by (simp add: demo_two_requests_def wakes_for_def run_simps)

theorem coalescing_witness:
  "\<exists>s. calm_reachable 1 60 s \<and> length (wakes_for ''job'' s) = 1 \<and> length (requests s) = 2 \<and>
       length (wakes_for ''job'' s) \<le> 1"
proof -
  obtain s where s: "calm_run demo_two_requests (wake_init 1 60) = Some s"
    "length (wakes_for ''job'' s) = 1"
    "map req_pc (requests s) = [Returned (Inr demo_ep), Returned (Inr demo_ep)]"
    using demo_two_requests_run by (auto split: option.splits)
  have r: "calm_reachable 1 60 s"
    by (rule calm_run_reachable [OF s(1) calm_reachable.start])
  have "length (requests s) = 2" using s(3) by (metis length_map length_Cons list.size(3) One_nat_def Suc_1)
  with r s(2) coalescing [OF r, of "''job''"] show ?thesis by blast
qed

text \<open>
  C15: No stuck wake. In every reachable state, a job whose status is \<open>STATE_WAKING\<close> has a wake
  task that has not yet written its outcome, or a request about to spawn one: a request that
  sees \<open>STATE_WAKING\<close> is never waiting for a wake that nobody runs.
\<close>

theorem waking_has_task:
  assumes "wake_reachable n to s" and "a < length (states (coord s))"
    and "is_waking (states (coord s) ! a)"
  shows "pending a s"
  using reachable_waking_ok [OF assms(1)] assms(2,3) by (simp add: waking_ok_def is_waking_def)

theorem waking_has_task_witness:
  "\<exists>s. wake_reachable 1 60 s \<and> 0 < length (states (coord s)) \<and> is_waking (states (coord s) ! 0) \<and>
       pending 0 s"
proof -
  have "case wake_run (take 6 double_wake_run) (wake_init 1 60) of
          None \<Rightarrow> False
        | Some s \<Rightarrow> 0 < length (states (coord s)) \<and> is_waking (states (coord s) ! 0)"
    by (simp add: double_wake_run_def is_waking_def run_simps)
  then obtain s where s: "wake_run (take 6 double_wake_run) (wake_init 1 60) = Some s"
    "0 < length (states (coord s))" "is_waking (states (coord s) ! 0)"
    by (auto split: option.splits)
  have r: "wake_reachable 1 60 s" by (rule wake_run_reachable [OF s(1) wake_reachable.start])
  from waking_has_task [OF r s(2,3)] r s(2,3) show ?thesis by blast
qed

text \<open>
  Bounded concurrency. In every reachable state the tasks that are calling \<^verbatim>\<open>scale_up\<close>
  number at most the configured concurrency, and every permit they do not hold is free; the
  tasks that only wait for a healthy endpoint hold none.
\<close>

theorem scale_up_bounded:
  assumes "wake_reachable n to s"
  shows "scaling_up s \<le> n \<and> permits (coord s) = n - scaling_up s"
  using reachable_permits_ok [OF assms] by (auto simp: permits_ok_def)

theorem scale_up_bounded_witness:
  "\<exists>s. wake_reachable 1 60 s \<and> scaling_up s = 1 \<and> scaling_up s \<le> 1 \<and> permits (coord s) = 1 - scaling_up s"
proof -
  have "case wake_run (take 7 double_wake_run) (wake_init 1 60) of
          None \<Rightarrow> False | Some s \<Rightarrow> scaling_up s = 1"
    by (simp add: double_wake_run_def scaling_up_def run_simps)
  then obtain s where s: "wake_run (take 7 double_wake_run) (wake_init 1 60) = Some s" "scaling_up s = 1"
    by (auto split: option.splits)
  have r: "wake_reachable 1 60 s" by (rule wake_run_reachable [OF s(1) wake_reachable.start])
  from scale_up_bounded [OF r] r s(2) show ?thesis by blast
qed

text \<open>
  C3: Soundness of the answer. Whatever interleaves, an endpoint that \<^verbatim>\<open>ensure_running\<close>
  returns for a registration was reported healthy for the job of that registration, by
  service discovery or by the orchestrator.
\<close>

theorem ensure_running_sound:
  assumes "wake_reachable n to s" and "i < length (requests s)"
    and "req_pc (requests s ! i) = Returned (Inr e)"
  shows "(reg_key (req_reg (requests s ! i)), e) \<in> set (reported s)"
  using reachable_sound_ok [OF assms(1)] assms(2,3) unfolding sound_ok_def by force

theorem ensure_running_sound_witness:
  "\<exists>s. wake_reachable 1 60 s \<and> 1 < length (requests s) \<and>
       req_pc (requests s ! 1) = Returned (Inr demo_ep) \<and>
       (reg_key (req_reg (requests s ! 1)), demo_ep) \<in> set (reported s)"
proof -
  obtain s where s: "calm_run demo_two_requests (wake_init 1 60) = Some s"
    "map req_pc (requests s) = [Returned (Inr demo_ep), Returned (Inr demo_ep)]"
    using demo_two_requests_run by (auto split: option.splits)
  have r: "wake_reachable 1 60 s"
    by (rule calm_reachable_imp [OF calm_run_reachable [OF s(1) calm_reachable.start]])
  have l: "1 < length (requests s)" and p: "req_pc (requests s ! 1) = Returned (Inr demo_ep)"
    using s(2) by (auto simp: map_eq_Cons_conv)
  from ensure_running_sound [OF r l p] r l p show ?thesis by blast
qed

text \<open>
  The warm path. A request for a job whose endpoint is cached returns that endpoint in
  its first step and changes neither the coordinator nor the wake tasks.
\<close>

theorem warm_path:
  assumes "endpoints (coord s) (reg_key reg) = Some e"
  shows "\<exists>t. wake_run [Call reg, ReqStep (length (requests s))] s = Some t \<and>
             requests t = requests s @ [\<lparr>req_reg = reg, req_pc = Returned (Inr e)\<rparr>] \<and>
             coord t = coord s \<and> tasks t = tasks s"
  using assms by (simp add: set_req_def nth_append)

theorem warm_path_witness:
  "endpoints (insert_endpoint ''job'' demo_ep (coordinator_new 1 60)) (reg_key demo_reg) = Some demo_ep \<and>
   (\<exists>t. wake_run [Call demo_reg, ReqStep 0]
          ((wake_init 1 60)\<lparr>coord := insert_endpoint ''job'' demo_ep (coordinator_new 1 60)\<rparr>) = Some t \<and>
        requests t = [\<lparr>req_reg = demo_reg, req_pc = Returned (Inr demo_ep)\<rparr>])"
proof -
  let ?s = "(wake_init 1 60)\<lparr>coord := insert_endpoint ''job'' demo_ep (coordinator_new 1 60)\<rparr>"
  have e: "endpoints (coord ?s) (reg_key demo_reg) = Some demo_ep"
    by (simp add: reg_key_def demo_reg_def)
  moreover have "requests ?s = []" by (simp add: wake_init_def)
  ultimately show ?thesis using warm_path [OF e] by auto
qed

text \<open>
  Forgetting a job makes the next request wake it again. After \<^verbatim>\<open>mark_dormant\<close> (or
  \<^verbatim>\<open>invalidate\<close>, which does the same) a request for the job, run on its own, misses the
  cache, makes a fresh dormant cell, wins the compare-exchange and spawns one wake task.
\<close>

theorem rewake_after_forget:
  assumes "s = s0\<lparr>coord := mark_dormant (job_id reg) (coord s0)\<rparr>" and "i = length (requests s)"
  shows "\<exists>t. wake_run [Call reg, ReqStep i, ReqStep i, ReqStep i, ReqStep i, ReqStep i] s = Some t \<and>
             tasks t = tasks s @
               [\<lparr>task_reg = reg, task_state = length (states (coord s)), task_pc = TAcquire\<rparr>] \<and>
             is_waking (states (coord t) ! length (states (coord s))) \<and>
             req_pc (requests t ! i) = AtRecv (length (states (coord s))) [] \<and>
             mark_dormant (job_id reg) (coord s0) = invalidate (job_id reg) (coord s0)"
proof -
  have "endpoints (coord s) (reg_key reg) = None" and "jobs (coord s) (reg_key reg) = None"
    using assms(1) by (simp_all add: mark_dormant_def reg_key_def)
  then show ?thesis
    using assms(2)
    by (simp add: set_req_def on_coord_def dispatch_def try_start_wake_def entry_state_def
        is_waking_def mark_dormant_def invalidate_def nth_append list_update_append)
qed

theorem rewake_after_forget_witness:
  "\<exists>s t. s = (wake_init 1 60)\<lparr>coord := mark_dormant (job_id demo_reg)
                (insert_endpoint ''job'' demo_ep (coordinator_new 1 60))\<rparr> \<and>
     wake_run [Call demo_reg, ReqStep 0, ReqStep 0, ReqStep 0, ReqStep 0, ReqStep 0] s = Some t \<and>
     length (tasks t) = 1"
proof -
  let ?base = "(wake_init 1 60)\<lparr>coord := insert_endpoint ''job'' demo_ep (coordinator_new 1 60)\<rparr>"
  let ?s = "?base\<lparr>coord := mark_dormant (job_id demo_reg) (coord ?base)\<rparr>"
  have a: "?s = ?base\<lparr>coord := mark_dormant (job_id demo_reg) (coord ?base)\<rparr>" ..
  have b: "0 = length (requests ?s)" and c: "tasks ?s = []" by (simp_all add: wake_init_def)
  obtain t where t: "wake_run [Call demo_reg, ReqStep 0, ReqStep 0, ReqStep 0, ReqStep 0, ReqStep 0] ?s = Some t"
    "length (tasks t) = Suc (length (tasks ?s))"
    using rewake_after_forget [OF a b] by auto
  then show ?thesis using c by (intro exI [of _ ?s] exI [of _ t]) simp
qed

text \<open>
  \<^verbatim>\<open>mark_dormant\<close> and \<^verbatim>\<open>refresh_endpoint\<close> as one operation are what their single map
  accesses amount to when nothing interleaves: the step-by-step operations refine the
  atomic ones.
\<close>

theorem forget_and_refresh_steps:
  "(\<exists>t. wake_run [StartForget (reg_key reg), OpStep (length (ops s)), OpStep (length (ops s)),
                  OpStep (length (ops s))] s = Some t \<and>
        coord t = mark_dormant (job_id reg) (coord s) \<and> requests t = requests s \<and> tasks t = tasks s) \<and>
   (\<exists>t. wake_run (StartRefresh (reg_key reg) # RefreshAnswer (length (ops s)) (Inr ans) #
                  replicate (case ans of Some _ \<Rightarrow> 2 | None \<Rightarrow> 3) (OpStep (length (ops s)))) s = Some t \<and>
        coord t = snd (refresh_endpoint_with reg cur ans (coord s)) \<and>
        requests t = requests s \<and> tasks t = tasks s)"
  by (cases ans)
     (simp_all add: numeral_2_eq_2 numeral_3_eq_3 set_op_def on_coord_def report_def nth_append
       list_update_append mark_dormant_def refresh_endpoint_with_def reg_key_def Let_def)



end
