(* ===== verification/Wake_Typing.thy ===== *)
theory Wake_Typing
  imports Wake_Coalescing
begin

text \<open>
  The types that Rust does not express: the status of a job is a \<^verbatim>\<open>u8\<close>, but only three of its values
  occur, and the indices that stand for shared \<^verbatim>\<open>Arc\<close> pointers are always allocated. Hence the
  branch for an unexpected status in \<^verbatim>\<open>ensure_running\<close> is never taken.
\<close>

definition known_status :: "u8 \<Rightarrow> bool" where
  "known_status x \<longleftrightarrow> x = STATE_DORMANT \<or> x = STATE_WAKING \<or> x = STATE_READY"

fun pc_typed :: "request_pc \<Rightarrow> bool" where
  "pc_typed (AtMatch a current) = known_status current"
| "pc_typed _ = True"

definition typed_ok :: "wake_sys \<Rightarrow> bool" where
  "typed_ok s \<longleftrightarrow> (\<forall>w \<in> set (states (coord s)). known_status (status w)) \<and> (\<forall>r \<in> set (requests s). pc_typed (req_pc r))"

lemma known_status_consts [simp]: "known_status STATE_DORMANT" "known_status STATE_WAKING" "known_status STATE_READY"
  by (simp_all add: known_status_def)

lemma typed_ok_set_req: "typed_ok s \<Longrightarrow> pc_typed pc \<Longrightarrow> typed_ok (set_req i pc s)"
  unfolding typed_ok_def by (auto simp: set_req_def dest!: set_update_subset_insert [THEN subsetD])

lemma typed_ok_simps [simp]:
  "typed_ok (set_task i tpc s) = typed_ok s" "typed_ok (set_op i opc s) = typed_ok s" "typed_ok (report k e s) = typed_ok s"
  by (simp_all add: typed_ok_def)

lemma typed_ok_on_coord:
  "typed_ok s \<Longrightarrow> (\<And>w. w \<in> set (states (f (coord s))) \<Longrightarrow> w \<in> set (states (coord s)) \<or> known_status (status w)) \<Longrightarrow>
   typed_ok (on_coord f s)"
  by (auto simp: typed_ok_def)

lemma typed_ok_put:
  "typed_ok s \<Longrightarrow> known_status (status w) \<Longrightarrow> typed_ok (on_coord (put_state a w) s)"
  by (rule typed_ok_on_coord) (auto dest: set_update_subset_insert [THEN subsetD])

lemma typed_ok_on_state:
  "typed_ok s \<Longrightarrow> (\<And>w. known_status (status (f w))) \<Longrightarrow> typed_ok (on_coord (on_state f k) s)"
  by (rule typed_ok_on_coord)
    (auto simp: on_state_def split: option.splits dest: set_update_subset_insert [THEN subsetD])

lemma typed_ok_maps [simp]:
  "typed_ok (on_coord (insert_endpoint k e) s) = typed_ok s" "typed_ok (on_coord (remove_endpoint k) s) = typed_ok s"
  "typed_ok (on_coord (remove_job k) s) = typed_ok s" "typed_ok (on_coord (\<lambda>c. c\<lparr>permits := p c\<rparr>) s) = typed_ok s"
  by (simp_all add: typed_ok_def)

lemma typed_ok_send: "typed_ok s \<Longrightarrow> typed_ok (send a m s)"
proof -
  have "pc_typed (deliver a m pc) = pc_typed pc" for pc by (cases pc) auto
  then show "typed_ok s \<Longrightarrow> typed_ok (send a m s)" by (simp add: typed_ok_def requests_send)
qed

lemmas typed_ok_blocks = typed_ok_set_req typed_ok_put typed_ok_on_state typed_ok_send

lemma typed_ok_req_step:
  assumes "typed_ok s" and "addr_ok s" and "i < length (requests s)"
    and "req_step i (req_reg (requests s ! i)) (req_pc (requests s ! i)) s = Some t"
  shows "typed_ok t"
proof (cases "req_pc (requests s ! i)")
  case AtLoop
  have "typed_ok (s\<lparr>coord := snd (entry_state (reg_key (req_reg (requests s ! i))) (coord s)), owner := own\<rparr>)" for own
    using assms(1) by (auto simp: typed_ok_def entry_state_def split: option.splits)
  with assms AtLoop show ?thesis by (auto simp: case_prod_beta Let_def intro: typed_ok_set_req)
next
  case (AtLoad a)
  have "a < length (states (coord s))"
    using assms(2) AtLoad nth_mem [OF assms(3)] by (fastforce simp: addr_ok_def cell_of_def)
  with assms AtLoad show ?thesis by (auto simp: typed_ok_def intro!: typed_ok_set_req [unfolded typed_ok_def])
next
  case (AtMatch a cur)
  with assms show ?thesis
    by (auto simp: dispatch_def try_start_wake_def split: if_splits option.splits intro!: typed_ok_blocks)
next
  case (AtSpawn a)
  have "typed_ok (s\<lparr>tasks := x\<rparr>)" for x using assms(1) by (simp add: typed_ok_def)
  with assms AtSpawn show ?thesis by (auto intro: typed_ok_set_req)
qed (use assms in \<open>auto split: option.splits intro!: typed_ok_set_req\<close>)

lemma typed_ok_task_step: "typed_ok s \<Longrightarrow> task_step i reg a pc s = Some t \<Longrightarrow> typed_ok t"
  by (cases "(i, reg, a, pc, s)" rule: task_step.cases) (auto split: if_splits intro!: typed_ok_blocks)

lemma typed_ok_op_step: "typed_ok s \<Longrightarrow> op_step i k pc s = Some t \<Longrightarrow> typed_ok t"
  by (cases "(i, k, pc, s)" rule: op_step.cases) (auto intro!: typed_ok_blocks)

lemma typed_ok_step:
  assumes ok: "typed_ok s" "addr_ok s" and st: "wake_step e s = Some t"
  shows "typed_ok t"
proof (cases e)
  case (ReqStep i)
  with st typed_ok_req_step [OF ok] show ?thesis by (simp split: if_splits)
next
  case (FetchAnswer i ans)
  with assms show ?thesis
    by (auto simp: fetch_answer_def split: if_splits request_pc.splits sum.splits option.splits intro!: typed_ok_blocks)
next
  case (Receive i)
  with assms show ?thesis
    by (auto simp: receive_def split: if_splits request_pc.splits list.splits intro!: typed_ok_blocks)
next
  case (TimeOut i)
  with assms show ?thesis by (auto split: if_splits request_pc.splits list.splits intro!: typed_ok_blocks)
next
  case (Disconnect i)
  with assms show ?thesis by (auto split: if_splits request_pc.splits intro!: typed_ok_blocks)
next
  case (TaskStep i)
  with st typed_ok_task_step [OF ok(1)] show ?thesis by (simp split: if_splits)
next
  case (ScaleUpAnswer i ans)
  with assms show ?thesis by (auto split: if_splits)
next
  case (HealthAnswer i ans)
  with assms show ?thesis by (auto split: if_splits task_pc.splits sum.splits)
next
  case (OpStep i)
  with st typed_ok_op_step [OF ok(1)] show ?thesis by (simp split: if_splits)
next
  case (RefreshAnswer i ans)
  with assms show ?thesis by (auto split: if_splits sum.splits option.splits)
qed (use assms in \<open>auto simp: typed_ok_def\<close>)

lemma reachable_typed_ok: "wake_reachable n to s \<Longrightarrow> typed_ok s"
proof (induction rule: wake_reachable.induct)
  case start
  show ?case by (simp add: typed_ok_def wake_init_def coordinator_new_def)
next
  case (step s e t)
  from typed_ok_step [OF step.IH reachable_addr_ok [OF step.hyps(1)] step.hyps(2)] show ?case .
qed

lemma req_step_no_error:
  assumes "i < length (requests s)" and "pc_typed (req_pc (requests s ! i))"
    and "req_step i reg (req_pc (requests s ! i)) s = Some t"
  shows "req_pc (requests t ! i) \<noteq> Returned (Inl err)"
  using assms
  by (cases "req_pc (requests s ! i)")
    (auto simp: dispatch_def known_status_def set_req_def on_coord_def Let_def split: option.splits if_splits prod.splits)

text \<open>
  C28: The coordinator's state is well typed, and its last branch is dead. In every reachable state,
  every status is one of the three constants, and every index that the map, a request or a task
  holds is allocated and belongs to its job. Hence no request ever ends in an error by a step of its
  own: the answer for an unexpected status is never given.
\<close>

theorem wake_well_typed:
  assumes "wake_reachable n to s"
  shows "(\<forall>w \<in> set (states (coord s)). status w \<in> {STATE_DORMANT, STATE_WAKING, STATE_READY}) \<and>
    length (owner s) = length (states (coord s)) \<and>
    (\<forall>k a. jobs (coord s) k = Some a \<longrightarrow> cell_of s a k) \<and>
    (\<forall>r \<in> set (requests s). \<forall>a. req_addr (req_pc r) = Some a \<longrightarrow> cell_of s a (reg_key (req_reg r))) \<and>
    (\<forall>t \<in> set (tasks s). cell_of s (task_state t) (reg_key (task_reg t))) \<and>
    (\<forall>i t err. i < length (requests s) \<longrightarrow> wake_step (ReqStep i) s = Some t \<longrightarrow>
       req_pc (requests t ! i) \<noteq> Returned (Inl err))"
proof -
  note typed = reachable_typed_ok [OF assms] and addr = reachable_addr_ok [OF assms]
  have "req_pc (requests t ! i) \<noteq> Returned (Inl err)"
    if "i < length (requests s)" and "wake_step (ReqStep i) s = Some t" for i t err
    using req_step_no_error [OF that(1)] that typed by (simp add: typed_ok_def)
  with typed addr show ?thesis by (auto simp: typed_ok_def addr_ok_def known_status_def)
qed

theorem wake_well_typed_witness:
  "\<exists>s t. wake_reachable 1 60 s \<and> wake_step (ReqStep 0) s = Some t \<and> status (states (coord s) ! 0) = STATE_DORMANT \<and>
     (\<forall>err. req_pc (requests t ! 0) \<noteq> Returned (Inl err))"
proof -
  have "case wake_run (take 3 double_wake_run) (wake_init 1 60) of
          None \<Rightarrow> False
        | Some s \<Rightarrow> wake_step (ReqStep 0) s \<noteq> None \<and> 0 < length (requests s) \<and> status (states (coord s) ! 0) = STATE_DORMANT"
    by (simp add: double_wake_run_def run_simps)
  then obtain s t where s: "wake_run (take 3 double_wake_run) (wake_init 1 60) = Some s" "wake_step (ReqStep 0) s = Some t"
    "0 < length (requests s)" "status (states (coord s) ! 0) = STATE_DORMANT"
    by (auto simp del: wake_step.simps split: option.splits)
  have r: "wake_reachable 1 60 s" by (rule wake_run_reachable [OF s(1) wake_reachable.start])
  from wake_well_typed [OF r] r s(2-) show ?thesis by blast
qed

end
