(* ===== verification/Wake_Sequential.thy ===== *)
theory Wake_Sequential
  imports Wake
begin

text \<open>
  \<^verbatim>\<open>ensure_running\<close> and \<^verbatim>\<open>refresh_endpoint\<close> as calls that run from beginning to end, which is how the
  request handler sees them. \<open>ensure_running\<close> here is the call of a request that no other request, wake
  task or forgetting operation interleaves with; the wake task it spawns runs to its end. The
  refinement theorem shows that it is one of the runs of the step machine of \<open>Wake\<close>.
\<close>

record 'w wake_env =
  we_orchestrator :: "'w orchestrator"
  we_discovery :: "'w service_discovery"
  we_now :: "'w \<Rightarrow> instant"
  we_sleep :: "duration \<Rightarrow> 'w \<Rightarrow> 'w"

definition timeout_of :: "coordinator \<Rightarrow> duration" where
  "timeout_of c = wake_timeout c * nanos_per_sec"

text \<open>\<^verbatim>\<open>run_wake_task\<close>, when a permit is free or the semaphore is closed.\<close>

definition run_wake_task :: "'w wake_env \<Rightarrow> job_registration \<Rightarrow> coordinator \<Rightarrow> ('w, endpoint) call" where
  "run_wake_task env reg c =
     (if sem_closed c then io_fail (Nomad ''wake semaphore closed'')
      else io_bind (scale_up (we_orchestrator env) (job_id reg) (nomad_group reg) 1) (\<lambda>_.
        wait_for_healthy (we_discovery env) (service_name reg) (timeout_of c)))"

text \<open>The match on the task's result: what it leaves behind, and what it broadcasts.\<close>

definition settle :: "string \<Rightarrow> nat \<Rightarrow> endpoint result \<Rightarrow> coordinator \<Rightarrow> coordinator" where
  "settle k a r c =
     (case r of
        Inr e \<Rightarrow> put_state a (set_ready (states c ! a)) (insert_endpoint k e c)
      | Inl _ \<Rightarrow> remove_job k (put_state a (set_dormant (states c ! a)) c))"

definition broadcast_of :: "endpoint result \<Rightarrow> wake_result" where
  "broadcast_of r = (case r of Inr e \<Rightarrow> WakeReady e | Inl err \<Rightarrow> failure_message err)"

text \<open>The winner of the race: the task runs, the request waits for its message or its timer.\<close>

definition wake_and_wait ::
  "'w wake_env \<Rightarrow> job_registration \<Rightarrow> nat \<Rightarrow> coordinator \<Rightarrow> 'w \<Rightarrow> endpoint result \<times> coordinator \<times> 'w" where
  "wake_and_wait env reg a c w =
     (let timeout = Inl (WakeTimeout (reg_key reg) (wake_timeout c)) in
      if \<not> sem_closed c \<and> permits c = 0 then (timeout, c, we_sleep env (timeout_of c) w)
      else case run_wake_task env reg c w of
             (r, w1) \<Rightarrow>
               (if we_now env w + timeout_of c \<le> we_now env w1 then timeout
                else received (reg_key reg) (broadcast_of r),
                settle (reg_key reg) a r c, w1))"

definition ensure_running ::
  "'w wake_env \<Rightarrow> job_registration \<Rightarrow> coordinator \<Rightarrow> 'w \<Rightarrow> endpoint result \<times> coordinator \<times> 'w" where
  "ensure_running env reg c w =
     (let k = reg_key reg in
      case endpoints c k of
        Some e \<Rightarrow> (Inr e, c, w)
      | None \<Rightarrow>
          let (a, c1) = entry_state k c; current = status (states c1 ! a) in
          if current = STATE_READY then
            (case get_healthy_endpoint (we_orchestrator env) (job_id reg) w of
               (Inl e, w1) \<Rightarrow> (Inl e, c1, w1)
             | (Inr None, w1) \<Rightarrow> (Inl (JobNotReady (''job '' @ k @ '' marked ready but no healthy endpoint'')), c1, w1)
             | (Inr (Some e), w1) \<Rightarrow> (Inr e, insert_endpoint k e c1, w1))
          else if current = STATE_WAKING then
            (Inl (WakeTimeout k (wake_timeout c1)), c1, we_sleep env (timeout_of c1) w)
          else if current = STATE_DORMANT then
            wake_and_wait env reg a (put_state a (snd (try_start_wake (states c1 ! a))) c1) w
          else (Inl (JobNotReady (''unexpected state '' @ show_nat (unat current) @ '' for job '' @ k)), c1, w))"

definition refresh_endpoint ::
  "'w orchestrator \<Rightarrow> job_registration \<Rightarrow> endpoint \<Rightarrow> coordinator \<Rightarrow> 'w \<Rightarrow>
   endpoint_refresh result \<times> coordinator \<times> 'w" where
  "refresh_endpoint orch reg current c w =
     (case get_healthy_endpoint orch (job_id reg) w of
        (Inl e, w1) \<Rightarrow> (Inl e, c, w1)
      | (Inr answer, w1) \<Rightarrow> (case refresh_endpoint_with reg current answer c of (r, c1) \<Rightarrow> (Inr r, c1, w1)))"

subsection \<open>A request and its task in the machine\<close>

text \<open>
  The machine seen from request \<open>n\<close> and task \<open>m\<close>: their program counters and the coordinator. Before the
  task is spawned, \<open>m\<close> is the next free index.
\<close>

type_synonym solo_view = "request_pc \<times> (nat \<times> task_pc) option \<times> coordinator"

fun solo :: "nat \<Rightarrow> nat \<Rightarrow> job_registration \<Rightarrow> solo_view \<Rightarrow> wake_sys \<Rightarrow> bool" where
  "solo n m reg (pc, tk, c) s \<longleftrightarrow>
     n < length (requests s) \<and> requests s ! n = \<lparr>req_reg = reg, req_pc = pc\<rparr> \<and> coord s = c \<and>
     (case tk of
        None \<Rightarrow> m = length (tasks s)
      | Some (a, tpc) \<Rightarrow> m < length (tasks s) \<and> tasks s ! m = \<lparr>task_reg = reg, task_state = a, task_pc = tpc\<rparr>)"

text \<open>The answers in a run come from the orchestrator and from service discovery.\<close>

fun answered :: "'w wake_env \<Rightarrow> job_registration \<Rightarrow> wake_event \<Rightarrow> bool" where
  "answered env reg (ScaleUpAnswer _ ans) \<longleftrightarrow>
     (\<exists>w. ans = fst (scale_up (we_orchestrator env) (job_id reg) (nomad_group reg) 1 w))"
| "answered env reg (HealthAnswer _ ans) \<longleftrightarrow>
     (\<exists>w d. ans = fst (wait_for_healthy (we_discovery env) (service_name reg) d w))"
| "answered env reg (FetchAnswer _ ans) \<longleftrightarrow>
     (\<exists>w. ans = fst (get_healthy_endpoint (we_orchestrator env) (job_id reg) w))"
| "answered env reg _ \<longleftrightarrow> True"

definition moves :: "'w wake_env \<Rightarrow> nat \<Rightarrow> nat \<Rightarrow> job_registration \<Rightarrow> solo_view \<Rightarrow> solo_view \<Rightarrow> bool" where
  "moves env n m reg u v \<longleftrightarrow>
     (\<forall>s. solo n m reg u s \<longrightarrow>
        (\<exists>evs t. wake_run evs s = Some t \<and> list_all (answered env reg) evs \<and> solo n m reg v t))"

lemma wake_run_append: "wake_run (es @ fs) s = Option.bind (wake_run es s) (wake_run fs)"
  by (induction es s rule: wake_run.induct) (auto split: option.splits)

lemma moves_trans [trans]:
  assumes "moves env n m reg u v" and "moves env n m reg v x"
  shows "moves env n m reg u x"
  unfolding moves_def
proof (intro allI impI)
  fix s assume "solo n m reg u s"
  with assms obtain e1 t1 e2 t2 where r: "wake_run e1 s = Some t1" "wake_run e2 t1 = Some t2"
    "list_all (answered env reg) e1" "list_all (answered env reg) e2" "solo n m reg x t2"
    unfolding moves_def by blast
  then have "wake_run (e1 @ e2) s = Some t2" "list_all (answered env reg) (e1 @ e2)" by (simp_all add: wake_run_append)
  with r(5) show "\<exists>evs t. wake_run evs s = Some t \<and> list_all (answered env reg) evs \<and> solo n m reg x t" by blast
qed

lemma moves_step:
  assumes "answered env reg e" and "\<And>s. solo n m reg u s \<Longrightarrow> \<exists>t. wake_step e s = Some t \<and> solo n m reg v t"
  shows "moves env n m reg u v"
  unfolding moves_def
proof (intro allI impI)
  fix s assume "solo n m reg u s"
  from assms(2) [OF this] obtain t where "wake_run [e] s = Some t" "solo n m reg v t" by auto
  moreover have "list_all (answered env reg) [e]" using assms(1) by simp
  ultimately show "\<exists>evs t. wake_run evs s = Some t \<and> list_all (answered env reg) evs \<and> solo n m reg v t" by blast
qed

lemmas solo_defs = set_req_def set_task_def on_coord_def report_def send_def

lemma moves_fast_hit: "endpoints c (reg_key reg) = Some e \<Longrightarrow> moves env n m reg (AtFastPath, tk, c) (Returned (Inr e), tk, c)"
  by (rule moves_step [where e = "ReqStep n"]) (auto simp: solo_defs split: option.splits)

lemma moves_fast_miss: "endpoints c (reg_key reg) = None \<Longrightarrow> moves env n m reg (AtFastPath, tk, c) (AtLoop, tk, c)"
  by (rule moves_step [where e = "ReqStep n"]) (auto simp: solo_defs split: option.splits)

lemma moves_entry: "entry_state (reg_key reg) c = (a, c1) \<Longrightarrow> moves env n m reg (AtLoop, tk, c) (AtLoad a, tk, c1)"
  by (rule moves_step [where e = "ReqStep n"]) (auto simp: solo_defs split: option.splits)

lemma moves_load: "moves env n m reg (AtLoad a, tk, c) (AtMatch a (status (states c ! a)), tk, c)"
  by (rule moves_step [where e = "ReqStep n"]) (auto simp: solo_defs split: option.splits)

lemma moves_match:
  assumes "\<And>s. coord s = c \<Longrightarrow> dispatch n reg a cur s = set_req n pc (on_coord (\<lambda>_. c1) s)"
  shows "moves env n m reg (AtMatch a cur, tk, c) (pc, tk, c1)"
  by (rule moves_step [where e = "ReqStep n"]) (auto simp: assms solo_defs split: option.splits)

lemma moves_spawn: "moves env n m reg (AtSpawn a, None, c) (AtRecv a [], Some (a, TAcquire), c)"
  by (rule moves_step [where e = "ReqStep n"]) (auto simp: solo_defs split: option.splits)

lemma moves_timeout:
  "moves env n m reg (AtRecv a [], tk, c) (Returned (Inl (WakeTimeout (reg_key reg) (wake_timeout c))), tk, c)"
  by (rule moves_step [where e = "TimeOut n"]) (auto simp: solo_defs split: option.splits)

lemma moves_receive: "moves env n m reg (AtRecv a [x], tk, c) (Returned (received (reg_key reg) x), tk, c)"
  by (rule moves_step [where e = "Receive n"]) (auto simp: receive_def broadcast_capacity_def solo_defs split: option.splits)

lemma moves_task:
  assumes "\<And>s. coord s = c \<Longrightarrow> task_step m reg a tpc s = Some (set_task m tpc' (on_coord (\<lambda>_. c1) s))"
  shows "moves env n m reg (pc, Some (a, tpc), c) (pc, Some (a, tpc'), c1)"
  by (rule moves_step [where e = "TaskStep m"]) (auto simp: assms solo_defs split: option.splits)

lemma moves_send:
  assumes "\<And>s. task_step m reg a tpc s = Some (set_task m tpc' (send a x s))"
  shows "moves env n m reg (pc, Some (a, tpc), c) (deliver a x pc, Some (a, tpc'), c)"
  by (rule moves_step [where e = "TaskStep m"]) (auto simp: assms solo_defs split: option.splits)

lemma moves_fetch:
  assumes "get_healthy_endpoint (we_orchestrator env) (job_id reg) w = (ans, w1)"
  shows "moves env n m reg (AtFetch a, tk, c) (case ans of
     Inl e \<Rightarrow> (Returned (Inl e), tk, c)
   | Inr None \<Rightarrow> (Returned (Inl (JobNotReady (''job '' @ reg_key reg @ '' marked ready but no healthy endpoint''))), tk, c)
   | Inr (Some e) \<Rightarrow> (Returned (Inr e), tk, insert_endpoint (reg_key reg) e c))"
proof (rule moves_step [where e = "FetchAnswer n ans"])
  show "answered env reg (FetchAnswer n ans)" by (simp, rule exI [of _ w]) (simp add: assms)
qed (auto simp: fetch_answer_def solo_defs split: sum.splits option.splits)

lemma moves_scale:
  assumes "scale_up (we_orchestrator env) (job_id reg) (nomad_group reg) 1 w = (ans, w1)"
    and "\<not> sem_closed c" and "0 < permits c"
  shows "moves env n m reg (pc, Some (a, TAcquire), c)
     (pc, Some (a, case ans of Inl e \<Rightarrow> TSetDormant e | Inr _ \<Rightarrow> THealth Grace), c)"
proof -
  have "moves env n m reg (pc, Some (a, TAcquire), c) (pc, Some (a, TScaleUp), c\<lparr>permits := permits c - 1\<rparr>)"
    using assms(2,3) by (intro moves_task) (auto simp: solo_defs)
  also have "moves env n m reg (pc, Some (a, TScaleUp), c\<lparr>permits := permits c - 1\<rparr>)
      (pc, Some (a, case ans of Inl e \<Rightarrow> TSetDormant e | Inr _ \<Rightarrow> THealth Grace), c)"
  proof (rule moves_step [where e = "ScaleUpAnswer m ans"])
    show "answered env reg (ScaleUpAnswer m ans)" by (simp, rule exI [of _ w]) (simp add: assms)
  qed (use assms(3) in \<open>auto simp: solo_defs\<close>)
  finally show ?thesis .
qed

definition settling :: "endpoint result \<Rightarrow> task_pc" where
  "settling r = (case r of Inr e \<Rightarrow> TInsert e | Inl e \<Rightarrow> TSetDormant e)"

lemma moves_health:
  assumes "wait_for_healthy (we_discovery env) (service_name reg) d w = (r, w1)"
  shows "moves env n m reg (pc, Some (a, THealth p), c) (pc, Some (a, settling r), c)"
proof (rule moves_step [where e = "HealthAnswer m r"])
  show "answered env reg (HealthAnswer m r)" by (simp, rule exI [of _ w], rule exI [of _ d]) (simp add: assms)
qed (auto simp: settling_def solo_defs split: sum.splits)

lemma moves_settle:
  "moves env n m reg (pc, Some (a, settling r), c)
     (deliver a (broadcast_of r) pc, Some (a, TDone), settle (reg_key reg) a r c)"
proof (cases r)
  case (Inl err)
  let ?c1 = "put_state a (set_dormant (states c ! a)) c"
  have "moves env n m reg (pc, Some (a, TSetDormant err), c) (pc, Some (a, TSend err), ?c1)"
    by (rule moves_task) (simp add: on_coord_def)
  also have "moves env n m reg (pc, Some (a, TSend err), ?c1) (deliver a (failure_message err) pc, Some (a, TRemove), ?c1)"
    by (rule moves_send) simp
  also have "moves env n m reg (deliver a (failure_message err) pc, Some (a, TRemove), ?c1)
      (deliver a (failure_message err) pc, Some (a, TDone), remove_job (reg_key reg) ?c1)"
    by (rule moves_task) (simp add: on_coord_def)
  finally show ?thesis using Inl by (simp add: settling_def broadcast_of_def settle_def)
next
  case (Inr e)
  let ?c1 = "insert_endpoint (reg_key reg) e c"
  let ?c2 = "put_state a (set_ready (states ?c1 ! a)) ?c1"
  have "moves env n m reg (pc, Some (a, TInsert e), c) (pc, Some (a, TSetReady e), ?c1)"
    by (rule moves_task) (simp add: on_coord_def)
  also have "moves env n m reg (pc, Some (a, TSetReady e), ?c1) (pc, Some (a, TSendReady e), ?c2)"
    by (rule moves_task) (simp add: on_coord_def)
  also have "moves env n m reg (pc, Some (a, TSendReady e), ?c2) (deliver a (WakeReady e) pc, Some (a, TDone), ?c2)"
    by (rule moves_send) simp
  finally show ?thesis using Inr by (simp add: settling_def broadcast_of_def settle_def insert_endpoint_def)
qed

lemma moves_run_task:
  assumes "run_wake_task env reg c w = (r, w1)" and "sem_closed c \<or> 0 < permits c"
  shows "moves env n m reg (pc, Some (a, TAcquire), c) (pc, Some (a, settling r), c)"
proof (cases "sem_closed c")
  case True
  then have "r = Inl (Nomad ''wake semaphore closed'')" using assms(1) by (simp add: run_wake_task_def io_fail_def)
  then show ?thesis using True by (intro moves_task) (auto simp: settling_def solo_defs)
next
  case False
  obtain ans w2 where u: "scale_up (we_orchestrator env) (job_id reg) (nomad_group reg) 1 w = (ans, w2)" by force
  note sc = moves_scale [OF u False, of n m pc a] 
  show ?thesis
  proof (cases ans)
    case (Inl e)
    then show ?thesis using assms False u sc by (auto simp: run_wake_task_def io_bind_def settling_def)
  next
    case (Inr x)
    then have "wait_for_healthy (we_discovery env) (service_name reg) (timeout_of c) w2 = (r, w1)"
      using assms(1) False u by (simp add: run_wake_task_def io_bind_def)
    from moves_health [OF this] have "moves env n m reg (pc, Some (a, THealth Grace), c) (pc, Some (a, settling r), c)" .
    with sc show ?thesis using Inr False assms(2) by (simp add: moves_trans)
  qed
qed

lemma moves_wake_and_wait:
  assumes "wake_and_wait env reg a c w = (r, c1, w1)"
  shows "\<exists>tk. moves env n m reg (AtRecv a [], Some (a, TAcquire), c) (Returned r, tk, c1)"
proof (cases "\<not> sem_closed c \<and> permits c = 0")
  case True
  then show ?thesis using assms moves_timeout [of env n m reg a _ c] by (auto simp: wake_and_wait_def)
next
  case False
  obtain q w2 where q: "run_wake_task env reg c w = (q, w2)" by force
  have c1: "c1 = settle (reg_key reg) a q c" using assms False q by (auto simp: wake_and_wait_def Let_def split: if_splits)
  have "moves env n m reg (AtRecv a [], Some (a, TAcquire), c) (AtRecv a [], Some (a, settling q), c)"
    using q False by (intro moves_run_task) auto
  also have "moves env n m reg (AtRecv a [], Some (a, settling q), c) (Returned r, Some (a, TDone), c1)"
  proof (cases "we_now env w + timeout_of c \<le> we_now env w2")
    case True
    then have "r = Inl (WakeTimeout (reg_key reg) (wake_timeout c))"
      using assms False q by (auto simp: wake_and_wait_def Let_def split: if_splits)
    then show ?thesis
      using moves_trans [OF moves_timeout moves_settle, of env n m reg a a q c] by (simp add: c1)
  next
    case late: False
    then have "r = received (reg_key reg) (broadcast_of q)"
      using assms False q by (auto simp: wake_and_wait_def Let_def split: if_splits)
    then show ?thesis
      using moves_settle [of env n m reg "AtRecv a []" a q c] moves_trans [OF _ moves_receive] by (simp add: c1)
  qed
  finally show ?thesis by blast
qed

text \<open>The match on the status, for a job without a cached endpoint.\<close>

lemma match_moves:
  assumes r: "ensure_running env reg c w = (r, c2, w2)" and none: "endpoints c (reg_key reg) = None"
    and e: "entry_state (reg_key reg) c = (a, c1)" and cur: "cur = status (states c1 ! a)"
  shows "\<exists>tk. moves env n m reg (AtMatch a cur, None, c1) (Returned r, tk, c2)"
proof -
  have n1: "endpoints c1 (reg_key reg) = None" using e none by (auto simp: entry_state_def split: option.splits)
  consider (ready) "cur = STATE_READY" | (waking) "cur = STATE_WAKING" | (dormant) "cur = STATE_DORMANT"
    | (other) "cur \<noteq> STATE_READY" "cur \<noteq> STATE_WAKING" "cur \<noteq> STATE_DORMANT" by blast
  then show ?thesis
  proof cases
    case ready
    obtain ans w1 where g: "get_healthy_endpoint (we_orchestrator env) (job_id reg) w = (ans, w1)" by force
    have "moves env n m reg (AtMatch a cur, None, c1) (AtFetch a, None, c1)"
      using ready n1 by (intro moves_match) (auto simp: dispatch_def solo_defs)
    from moves_trans [OF this moves_fetch [OF g]] show ?thesis
      using r none e ready g by (auto simp: ensure_running_def Let_def cur split: sum.splits option.splits)
  next
    case waking
    have "moves env n m reg (AtMatch a cur, None, c1) (AtRecv a [], None, c1)"
      using waking by (intro moves_match) (auto simp: dispatch_def solo_defs state_defs)
    from moves_trans [OF this moves_timeout] show ?thesis
      using r none e waking by (auto simp: ensure_running_def Let_def cur state_defs)
  next
    case dormant
    let ?c = "put_state a (snd (try_start_wake (states c1 ! a))) c1"
    have "moves env n m reg (AtMatch a cur, None, c1) (AtSpawn a, None, ?c)"
      using dormant by (intro moves_match) (auto simp: dispatch_def try_start_wake_def cur solo_defs state_defs)
    from moves_trans [OF this moves_spawn]
    have go: "moves env n m reg (AtMatch a cur, None, c1) (AtRecv a [], Some (a, TAcquire), ?c)" .
    have "wake_and_wait env reg a ?c w = (r, c2, w2)"
      using r none e dormant by (auto simp: ensure_running_def Let_def cur state_defs)
    from moves_wake_and_wait [OF this] show ?thesis using moves_trans [OF go] by blast
  next
    case other
    have "moves env n m reg (AtMatch a cur, None, c1) (Returned (Inl (JobNotReady
        (''unexpected state '' @ show_nat (unat cur) @ '' for job '' @ reg_key reg))), None, c1)"
      using other by (intro moves_match) (auto simp: dispatch_def solo_defs)
    then show ?thesis using r none e other by (auto simp: ensure_running_def Let_def cur)
  qed
qed

lemma ensure_running_moves:
  assumes "ensure_running env reg c w = (r, c2, w2)"
  shows "\<exists>tk. moves env n m reg (AtFastPath, None, c) (Returned r, tk, c2)"
proof (cases "endpoints c (reg_key reg)")
  case (Some e)
  then show ?thesis using assms moves_fast_hit [OF Some, of env n m None] by (auto simp: ensure_running_def)
next
  case None
  obtain a c1 where e: "entry_state (reg_key reg) c = (a, c1)" by force
  have "moves env n m reg (AtFastPath, None, c) (AtLoop, None, c)" by (rule moves_fast_miss [OF None])
  also have "moves env n m reg (AtLoop, None, c) (AtLoad a, None, c1)" by (rule moves_entry [OF e])
  also have "moves env n m reg (AtLoad a, None, c1) (AtMatch a (status (states c1 ! a)), None, c1)" by (rule moves_load)
  finally show ?thesis using match_moves [OF assms None e refl] moves_trans by blast
qed

text \<open>
  C24: The sequential call is a run of the machine. For every state of the step machine, every
  orchestrator and every service discovery, the machine has a run that starts with the request,
  takes all its answers from that orchestrator and that discovery, and ends with the request having
  returned what the sequential \<^verbatim>\<open>ensure_running\<close> returns and the coordinator as it leaves it.
\<close>

theorem ensure_running_refines:
  "case ensure_running env reg (coord s) w of
     (r, c, _) \<Rightarrow> \<exists>evs t. wake_run (Call reg # evs) s = Some t \<and> list_all (answered env reg) evs \<and>
        coord t = c \<and> requests t ! length (requests s) = \<lparr>req_reg = reg, req_pc = Returned r\<rparr>"
proof -
  obtain r c w1 where e: "ensure_running env reg (coord s) w = (r, c, w1)" by (cases "ensure_running env reg (coord s) w")
  let ?n = "length (requests s)" and ?m = "length (tasks s)"
  let ?s = "s\<lparr>requests := requests s @ [\<lparr>req_reg = reg, req_pc = AtFastPath\<rparr>]\<rparr>"
  obtain tk where "moves env ?n ?m reg (AtFastPath, None, coord s) (Returned r, tk, c)"
    using ensure_running_moves [OF e] by blast
  moreover have "solo ?n ?m reg (AtFastPath, None, coord s) ?s" by simp
  ultimately obtain evs t where "wake_run evs ?s = Some t" "list_all (answered env reg) evs" "solo ?n ?m reg (Returned r, tk, c) t"
    unfolding moves_def by blast
  then show ?thesis using e by (auto intro!: exI [of _ evs] exI [of _ t])
qed

lemma received_InrD: "received k (broadcast_of q) = Inr e \<Longrightarrow> q = Inr e"
proof (cases q)
  case (Inl a)
  then show "received k (broadcast_of q) = Inr e \<Longrightarrow> ?thesis" by (cases a) (auto simp: broadcast_of_def)
qed (simp add: broadcast_of_def)

lemma wake_and_wait_cached:
  assumes "wake_and_wait env reg a c w = (Inr e, c1, w1)"
  shows "endpoints c1 (reg_key reg) = Some e"
proof -
  obtain q w2 where q: "run_wake_task env reg c w = (q, w2)" by force
  have "received (reg_key reg) (broadcast_of q) = Inr e" and c: "c1 = settle (reg_key reg) a q c"
    using assms q by (auto simp: wake_and_wait_def Let_def split: if_splits)
  with received_InrD show ?thesis by (fastforce simp: settle_def insert_endpoint_def put_state_def)
qed

lemma ensure_running_cached:
  assumes "ensure_running env reg c w = (Inr e, c1, w1)"
  shows "endpoints c1 (reg_key reg) = Some e"
proof (cases "endpoints c (reg_key reg)")
  case (Some e')
  then show ?thesis using assms by (simp add: ensure_running_def)
next
  case None
  then show ?thesis
    using assms wake_and_wait_cached
    by (auto simp: ensure_running_def Let_def insert_endpoint_def split: prod.splits if_splits sum.splits option.splits)
qed

text \<open>
  A woken job stays warm, for all its services. When a call returns an endpoint, every later call for a
  registration of the same job, whatever its service and group, returns that endpoint at once on the coordinator it
  leaves: it touches neither the coordinator nor the world, whatever the orchestrator and service discovery are by then.
\<close>

theorem woken_stays_warm:
  assumes "ensure_running env reg c w = (Inr e, c1, w1)" and "job_id reg' = job_id reg"
  shows "ensure_running env' reg' c1 w2 = (Inr e, c1, w2)"
  using ensure_running_cached [OF assms(1)] assms(2) by (simp add: ensure_running_def reg_key_def)

definition demo_env :: "nat wake_env" where
  "demo_env =
     \<lparr>we_orchestrator = \<lparr>scale_up = (\<lambda>j g n w. (Inr (), Suc w)), scale_down = (\<lambda>j g. io_return ()),
        get_job_count = (\<lambda>j g. io_return 1), get_healthy_endpoint = (\<lambda>j. io_return None)\<rparr>,
      we_discovery = \<lparr>register_fallback = (\<lambda>s e. io_return ()), deregister_fallback = (\<lambda>s. io_return ()),
        wait_for_healthy = (\<lambda>s d. io_return \<lparr>host = ''10.0.0.7'', port = 80\<rparr>)\<rparr>,
      we_now = (\<lambda>w. w), we_sleep = (\<lambda>d w. w + d)\<rparr>"

theorem woken_stays_warm_witness:
  "let reg = \<lparr>job_id = JobId ''shop'', service_name = ServiceName ''web'', nomad_group = ''g''\<rparr>;
       e = \<lparr>host = ''10.0.0.7'', port = 80\<rparr>
   in \<exists>c1. ensure_running demo_env reg (coordinator_new 1 60) 0 = (Inr e, c1, 1) \<and>
        ensure_running (demo_env\<lparr>we_now := (\<lambda>_. 0)\<rparr>) reg c1 9 = (Inr e, c1, 9)"
proof -
  let ?reg = "\<lparr>job_id = JobId ''shop'', service_name = ServiceName ''web'', nomad_group = ''g''\<rparr>"
  obtain c1 where c: "ensure_running demo_env ?reg (coordinator_new 1 60) 0 = (Inr \<lparr>host = ''10.0.0.7'', port = 80\<rparr>, c1, 1)"
    by (simp add: ensure_running_def coordinator_new_def reg_key_def entry_state_def state_defs try_start_wake_def
        wake_and_wait_def run_wake_task_def demo_env_def io_bind_def io_return_def timeout_of_def nanos_per_sec_def
        put_state_def broadcast_of_def settle_def Let_def)
  from woken_stays_warm [OF c refl] c show ?thesis by (auto simp: Let_def)
qed

definition two_services_env :: "string list wake_env" where
  "two_services_env =
     \<lparr>we_orchestrator = \<lparr>scale_up = (\<lambda>j g n w. (Inr (), w @ [g])), scale_down = (\<lambda>j g. io_return ()),
        get_job_count = (\<lambda>j g. io_return 1), get_healthy_endpoint = (\<lambda>j. io_return None)\<rparr>,
      we_discovery = \<lparr>register_fallback = (\<lambda>s e. io_return ()), deregister_fallback = (\<lambda>s. io_return ()),
        wait_for_healthy = (\<lambda>s d. io_return
          (if s = ServiceName ''web'' then \<lparr>host = ''10.0.0.7'', port = 80\<rparr> else \<lparr>host = ''10.0.0.8'', port = 90\<rparr>))\<rparr>,
      we_now = (\<lambda>w. 0), we_sleep = (\<lambda>d w. w)\<rparr>"

definition web_service :: job_registration where
  "web_service = \<lparr>job_id = JobId ''shop'', service_name = ServiceName ''web'', nomad_group = ''front''\<rparr>"

definition api_service :: job_registration where
  "api_service = \<lparr>job_id = JobId ''shop'', service_name = ServiceName ''api'', nomad_group = ''back''\<rparr>"

text \<open>Two services of one job: the second is given the endpoint of the first, and its group is not scaled up.\<close>

lemma two_services_run:
  "\<exists>c1. ensure_running two_services_env web_service (coordinator_new 1 60) [] = (Inr \<lparr>host = ''10.0.0.7'', port = 80\<rparr>, c1, [''front'']) \<and>
     ensure_running two_services_env api_service c1 [''front''] = (Inr \<lparr>host = ''10.0.0.7'', port = 80\<rparr>, c1, [''front'']) \<and>
     fst (ensure_running two_services_env api_service (coordinator_new 1 60) []) = Inr \<lparr>host = ''10.0.0.8'', port = 90\<rparr>"
  by (simp add: ensure_running_def coordinator_new_def reg_key_def entry_state_def state_defs try_start_wake_def
      wake_and_wait_def run_wake_task_def two_services_env_def io_bind_def io_return_def timeout_of_def nanos_per_sec_def
      put_state_def insert_endpoint_def broadcast_of_def settle_def web_service_def api_service_def Let_def)

end
