(* ===== verification/Wake_Progress.thy ===== *)
theory Wake_Progress
  imports Wake_Typing
begin

text \<open>
  Progress of \<^verbatim>\<open>ensure_running\<close>. The loop of a request goes round again only when it loses the
  compare-and-swap, and it loses it only to somebody else who has moved the status of the same job
  away from dormant in the meantime: the loop is lock-free. Hence, in every infinite execution in which
  a request is not starved, it returns.
\<close>

subsection \<open>Steps of a request\<close>

text \<open>How many steps of its own a request has left at most, if it does not lose the race.\<close>

fun steps_left :: "request_pc \<Rightarrow> nat" where
  "steps_left AtFastPath = 5"
| "steps_left AtLoop = 4"
| "steps_left (AtLoad a) = 3"
| "steps_left (AtMatch a current) = 2"
| "steps_left (AtSpawn a) = 1"
| "steps_left _ = 0"

text \<open>The request is about to lose the race: it has read dormant, and that is no longer so.\<close>

fun outdated :: "coordinator \<Rightarrow> request_pc \<Rightarrow> bool" where
  "outdated c (AtMatch a current) \<longleftrightarrow> current = STATE_DORMANT \<and> status (states c ! a) \<noteq> STATE_DORMANT"
| "outdated c _ \<longleftrightarrow> False"

text \<open>A step moves the status of a cell of job \<open>k\<close> away from dormant.\<close>

definition raised :: "string \<Rightarrow> wake_sys \<Rightarrow> wake_sys \<Rightarrow> bool" where
  "raised k s t \<longleftrightarrow> (\<exists>a. cell_of s a k \<and> status (states (coord s) ! a) = STATE_DORMANT \<and>
     status (states (coord t) ! a) \<noteq> STATE_DORMANT)"

lemma req_step_other:
  assumes "req_step j reg pc s = Some t" and "i \<noteq> j" and "i < length (requests s)"
  shows "requests t ! i = requests s ! i"
  using assms
  by (cases "(j, reg, pc, s)" rule: req_step.cases)
    (auto simp: set_req_def on_coord_def dispatch_def Let_def split: option.splits if_splits prod.splits)

lemma deliver_left: "0 < steps_left (deliver a m pc) \<Longrightarrow> deliver a m pc = pc"
  by (cases pc) auto

lemma task_step_left:
  assumes "task_step j reg a tpc s = Some t" and "i < length (requests s)"
  shows "length (requests t) = length (requests s) \<and> req_reg (requests t ! i) = req_reg (requests s ! i) \<and>
    (req_pc (requests t ! i) = req_pc (requests s ! i) \<or> steps_left (req_pc (requests t ! i)) = 0)"
  using assms
  by (cases "(j, reg, a, tpc, s)" rule: task_step.cases)
    (auto simp: requests_send split: if_splits intro: deliver_left)

lemma op_step_requests: "op_step j k pc s = Some t \<Longrightarrow> requests t = requests s"
  by (cases "(j, k, pc, s)" rule: op_step.cases) auto

lemma set_req_same: "j < length (requests s) \<Longrightarrow>
   requests (set_req j pc s) ! i = (if i = j then (requests s ! i)\<lparr>req_pc := pc\<rparr> else requests s ! i)"
  by (simp add: set_req_def)

text \<open>What the other events do to a request: nothing, or they end its steps.\<close>

lemma other_event:
  assumes "wake_step e s = Some t" and "e \<noteq> ReqStep i" and "i < length (requests s)"
  shows "req_pc (requests t ! i) = req_pc (requests s ! i) \<or> steps_left (req_pc (requests t ! i)) = 0"
proof (cases e)
  case (Call reg)
  with assms show ?thesis by (auto simp: nth_append)
next
  case (ReqStep j)
  with assms req_step_other [of j _ _ s t i] show ?thesis by (auto split: if_splits)
next
  case (FetchAnswer j ans)
  with assms show ?thesis
    by (auto simp: fetch_answer_def set_req_same split: if_splits request_pc.splits sum.splits option.splits)
next
  case (Receive j)
  with assms show ?thesis
    by (auto simp: receive_def set_req_same split: if_splits request_pc.splits list.splits)
next
  case (TimeOut j)
  with assms show ?thesis by (auto simp: set_req_same split: if_splits request_pc.splits list.splits)
next
  case (Disconnect j)
  with assms show ?thesis by (auto simp: set_req_same split: if_splits request_pc.splits)
next
  case (TaskStep j)
  with assms task_step_left [of j _ _ _ s t i] show ?thesis by (auto split: if_splits)
next
  case (ScaleUpAnswer j ans)
  with assms show ?thesis by (auto split: if_splits)
next
  case (HealthAnswer j ans)
  with assms show ?thesis by (auto split: if_splits task_pc.splits sum.splits)
next
  case (OpStep j)
  with assms op_step_requests [of j _ _ s t] show ?thesis by (auto split: if_splits)
next
  case (RefreshAnswer j ans)
  with assms show ?thesis by (auto split: if_splits sum.splits option.splits)
qed (use assms in auto)

lemma req_step_kept:
  assumes "req_step j reg pc s = Some t" and "j < length (requests s)"
  shows "length (requests t) = length (requests s) \<and> req_reg (requests t ! i) = req_reg (requests s ! i)"
  using assms
  by (cases "(j, reg, pc, s)" rule: req_step.cases)
    (auto simp: set_req_same on_coord_def dispatch_def Let_def split: option.splits if_splits prod.splits)

lemma request_kept:
  assumes "wake_step e s = Some t" and "i < length (requests s)"
  shows "length (requests s) \<le> length (requests t) \<and> req_reg (requests t ! i) = req_reg (requests s ! i)"
proof (cases e)
  case (ReqStep j)
  with assms req_step_kept [of j _ _ s t i] show ?thesis by (auto split: if_splits)
next
  case (TaskStep j)
  with assms task_step_left [of j _ _ _ s t i] show ?thesis by (auto split: if_splits)
next
  case (OpStep j)
  with assms op_step_requests [of j _ _ s t] show ?thesis by (auto split: if_splits)
next
  case (HealthAnswer j ans)
  with assms show ?thesis by (auto split: if_splits task_pc.splits sum.splits)
qed (use assms in \<open>auto simp: nth_append fetch_answer_def receive_def set_req_same
      split: if_splits request_pc.splits sum.splits option.splits list.splits\<close>)

subsection \<open>The bound on the steps of a request\<close>

text \<open>What a request may still spend: its steps, and three more when it is about to lose the race.\<close>

definition budget :: "nat \<Rightarrow> wake_sys \<Rightarrow> nat" where
  "budget i s = steps_left (req_pc (requests s ! i)) + (if outdated (coord s) (req_pc (requests s ! i)) then 3 else 0)"

lemma own_step_budget:
  assumes "wake_step (ReqStep i) s = Some t" and "i < length (requests s)"
  shows "Suc (budget i t) \<le> budget i s"
  using assms
  by (cases "req_pc (requests s ! i)")
    (auto simp: budget_def dispatch_def set_req_same on_coord_def try_start_wake_def Let_def
      split: option.splits if_splits prod.splits)

lemma other_step_budget:
  assumes "addr_ok s" and "wake_step e s = Some t" and "e \<noteq> ReqStep i" and "i < length (requests s)"
  shows "budget i t \<le> budget i s + (if raised (reg_key (req_reg (requests s ! i))) s t then 3 else 0)"
proof (cases "outdated (coord t) (req_pc (requests t ! i))")
  case True
  then obtain a where a: "req_pc (requests t ! i) = AtMatch a STATE_DORMANT" "status (states (coord t) ! a) \<noteq> STATE_DORMANT"
    by (cases "req_pc (requests t ! i)") auto
  have s: "req_pc (requests s ! i) = AtMatch a STATE_DORMANT" using other_event [OF assms(2-4)] a(1) by simp
  have "cell_of s a (reg_key (req_reg (requests s ! i)))"
    using assms(1) nth_mem [OF assms(4)] s unfolding addr_ok_def by (metis req_addr.simps(2))
  then show ?thesis using a s by (auto simp: budget_def raised_def)
next
  case False
  then show ?thesis using other_event [OF assms(2-4)] by (auto simp: budget_def)
qed

subsection \<open>Infinite executions\<close>

text \<open>The states over time, and the event at each moment; without an event nothing happens.\<close>

definition execution :: "nat \<Rightarrow> nat \<Rightarrow> (nat \<Rightarrow> wake_sys) \<Rightarrow> (nat \<Rightarrow> wake_event option) \<Rightarrow> bool" where
  "execution n to sys ev \<longleftrightarrow> sys 0 = wake_init n to \<and>
     (\<forall>i. case ev i of None \<Rightarrow> sys (Suc i) = sys i | Some e \<Rightarrow> wake_step e (sys i) = Some (sys (Suc i)))"

text \<open>
  The events that move a request on: a step of its own, the answer it waits for, a message, its timer.
  A request is treated fairly when it is not the case that such an event is possible from some
  moment on and never happens.
\<close>

fun moves_on :: "nat \<Rightarrow> wake_event \<Rightarrow> bool" where
  "moves_on i (ReqStep j) \<longleftrightarrow> i = j"
| "moves_on i (FetchAnswer j ans) \<longleftrightarrow> i = j"
| "moves_on i (Receive j) \<longleftrightarrow> i = j"
| "moves_on i (TimeOut j) \<longleftrightarrow> i = j"
| "moves_on i _ \<longleftrightarrow> False"

definition fair_to :: "nat \<Rightarrow> (nat \<Rightarrow> wake_sys) \<Rightarrow> (nat \<Rightarrow> wake_event option) \<Rightarrow> bool" where
  "fair_to i sys ev \<longleftrightarrow> (\<forall>m. (\<forall>u \<ge> m. \<exists>e. moves_on i e \<and> wake_step e (sys u) \<noteq> None) \<longrightarrow>
     (\<exists>u \<ge> m. \<exists>e. ev u = Some e \<and> moves_on i e))"

fun finished :: "request_pc \<Rightarrow> bool" where
  "finished (Returned r) = True"
| "finished Dropped = True"
| "finished _ = False"

lemma executionD:
  assumes "execution n to sys ev"
  shows "ev i = Some e \<Longrightarrow> wake_step e (sys i) = Some (sys (Suc i))" and "ev i = None \<Longrightarrow> sys (Suc i) = sys i"
    and "sys 0 = wake_init n to"
  using assms unfolding execution_def by (metis option.simps(4,5))+

lemma execution_reachable: "execution n to sys ev \<Longrightarrow> wake_reachable n to (sys i)"
proof (induction i)
  case 0
  then show ?case using executionD(3) wake_reachable.start by metis
next
  case (Suc i)
  then show ?case using executionD(1,2) [OF Suc.prems, of i] wake_reachable.step by (cases "ev i") fastforce+
qed

text \<open>The steps of request \<open>i\<close>, and the status changes of job \<open>k\<close>, before a moment.\<close>

definition own_steps :: "nat \<Rightarrow> (nat \<Rightarrow> wake_event option) \<Rightarrow> nat \<Rightarrow> nat" where
  "own_steps i ev m = length (filter (\<lambda>u. ev u = Some (ReqStep i)) [0..<m])"

definition raises :: "string \<Rightarrow> (nat \<Rightarrow> wake_sys) \<Rightarrow> nat \<Rightarrow> nat" where
  "raises k sys m = length (filter (\<lambda>u. raised k (sys u) (sys (Suc u))) [0..<m])"

lemma count_Suc [simp]:
  "own_steps i ev (Suc m) = own_steps i ev m + (if ev m = Some (ReqStep i) then 1 else 0)"
  "raises k sys (Suc m) = raises k sys m + (if raised k (sys m) (sys (Suc m)) then 1 else 0)"
  by (simp_all add: own_steps_def raises_def)

lemma new_request:
  assumes "wake_step e s = Some t" and "\<not> i < length (requests s)" and "i < length (requests t)"
  shows "budget i t = 5 \<and> e \<noteq> ReqStep i"
  using assms
proof (cases e)
  case (Call reg)
  with assms have "i = length (requests s)" by auto
  with Call assms show ?thesis by (auto simp: budget_def)
next
  case (ReqStep j)
  with assms req_step_kept [of j _ _ s t] show ?thesis by (auto split: if_splits)
next
  case (TaskStep j)
  with assms show ?thesis
    by (cases "(j, task_reg (tasks s ! j), task_state (tasks s ! j), task_pc (tasks s ! j), s)" rule: task_step.cases)
      (auto split: if_splits)
next
  case (OpStep j)
  with assms op_step_requests [of j _ _ s t] show ?thesis by (auto split: if_splits)
next
  case (HealthAnswer j ans)
  with assms show ?thesis by (auto split: if_splits task_pc.splits sum.splits)
qed (use assms in \<open>auto simp: fetch_answer_def receive_def
      split: if_splits request_pc.splits sum.splits option.splits list.splits\<close>)

lemma budget_bound:
  assumes x: "execution n to sys ev"
  shows "if i < length (requests (sys m))
    then own_steps i ev m + budget i (sys m) \<le> 5 + 3 * raises (reg_key (req_reg (requests (sys m) ! i))) sys m
    else own_steps i ev m = 0"
proof (induction m)
  case 0
  then show ?case by (simp add: executionD(3) [OF x] wake_init_def own_steps_def)
next
  case (Suc m)
  show ?case
  proof (cases "ev m")
    case None
    with Suc executionD(2) [OF x None] show ?thesis by auto
  next
    case (Some e)
    note st = executionD(1) [OF x Some]
    note ok = reachable_addr_ok [OF execution_reachable [OF x]]
    show ?thesis
    proof (cases "i < length (requests (sys m))")
      case True
      note kept = request_kept [OF st True]
      show ?thesis
      proof (cases "e = ReqStep i")
        case own: True
        with own_step_budget [of i "sys m" "sys (Suc m)"] st True have "Suc (budget i (sys (Suc m))) \<le> budget i (sys m)" by simp
        with Suc kept True Some own show ?thesis by auto
      next
        case other: False
        from other_step_budget [OF ok st other True] Suc kept True Some other show ?thesis by auto
      qed
    next
      case False
      with Suc new_request [OF st False] Some st show ?thesis by (auto split: if_splits)
    qed
  qed
qed

subsection \<open>Progress\<close>

text \<open>No request is ever stuck.\<close>

lemma can_move:
  assumes "i < length (requests s)" and "\<not> finished (req_pc (requests s ! i))"
  shows "\<exists>e. moves_on i e \<and> wake_step e s \<noteq> None"
proof (cases "req_pc (requests s ! i)")
  case (AtFetch a)
  with assms show ?thesis by (intro exI [of _ "FetchAnswer i (Inr None)"]) simp
next
  case (AtRecv a ms)
  with assms show ?thesis
    by (cases ms) (auto simp: receive_def intro: exI [of _ "TimeOut i"] exI [of _ "Receive i"])
next
  case AtFastPath
  with assms show ?thesis by (intro exI [of _ "ReqStep i"]) (auto split: option.splits)
qed (use assms in \<open>auto intro!: exI [of _ "ReqStep i"] simp: Let_def split: prod.splits\<close>)

lemma answer_finishes:
  assumes "moves_on i e" and "e \<noteq> ReqStep i" and "wake_step e s = Some t"
  shows "finished (req_pc (requests t ! i))"
  using assms
  by (cases e) (auto simp: fetch_answer_def receive_def set_req_same
      split: if_splits request_pc.splits sum.splits option.splits list.splits)

lemma raises_bounded: "finite {u. raised k (sys u) (sys (Suc u))} \<Longrightarrow> raises k sys m \<le> card {u. raised k (sys u) (sys (Suc u))}"
proof -
  assume f: "finite {u. raised k (sys u) (sys (Suc u))}"
  have "raises k sys m = card (set (filter (\<lambda>u. raised k (sys u) (sys (Suc u))) [0..<m]))"
    unfolding raises_def by (rule distinct_card [symmetric]) simp
  also have "\<dots> \<le> card {u. raised k (sys u) (sys (Suc u))}" by (rule card_mono [OF f]) auto
  finally show ?thesis .
qed

lemma own_steps_mono: "m \<le> u \<Longrightarrow> own_steps i ev m \<le> own_steps i ev u"
  by (induction rule: dec_induct) auto

lemma own_steps_unbounded: "\<forall>m. \<exists>u \<ge> m. ev u = Some (ReqStep i) \<Longrightarrow> \<exists>m. b \<le> own_steps i ev m"
proof (induction b)
  case (Suc b)
  then obtain m where "b \<le> own_steps i ev m" by blast
  moreover obtain u where u: "m \<le> u" "ev u = Some (ReqStep i)" using Suc.prems by blast
  moreover have "own_steps i ev m \<le> own_steps i ev u" by (rule own_steps_mono [OF u(1)])
  ultimately have "Suc b \<le> own_steps i ev (Suc u)" by simp
  then show ?case ..
qed simp

lemma still_there:
  assumes x: "execution n to sys ev" and "i < length (requests (sys m))" and "m \<le> u"
  shows "i < length (requests (sys u)) \<and> req_reg (requests (sys u) ! i) = req_reg (requests (sys m) ! i)"
  using assms(3)
proof (induction rule: dec_induct)
  case (step u)
  show ?case
  proof (cases "ev u")
    case None
    then show ?thesis using step.IH executionD(2) [OF x] by simp
  next
    case (Some e)
    from request_kept [OF executionD(1) [OF x Some], of i] step.IH show ?thesis by auto
  qed
qed (use assms(2) in simp)

text \<open>
  The loop of a request is lock-free. In every execution, the number of steps that a request has
  taken on its own is at most five, and three more for every time that somebody moved the status of
  the same job away from dormant: a request goes round the loop again only because a wake or a
  refresh of its own job has got ahead of it.
\<close>

theorem request_steps_bounded:
  assumes "execution n to sys ev" and "i < length (requests (sys m))"
  shows "own_steps i ev m \<le> 5 + 3 * raises (reg_key (req_reg (requests (sys m) ! i))) sys m"
  using budget_bound [OF assms(1), of i m] assms(2) by simp

text \<open>
  C5: Every request returns. In every execution in which the request is treated fairly and the status
  of its job leaves dormant only finitely often, a request that has been made returns at some moment,
  with an endpoint or an error, or its client has disconnected: it neither waits for ever nor
  goes round the loop for ever.
\<close>

theorem request_returns:
  assumes "execution n to sys ev" and "i < length (requests (sys m))" and "fair_to i sys ev"
    and "finite {u. raised (reg_key (req_reg (requests (sys m) ! i))) (sys u) (sys (Suc u))}"
  shows "\<exists>u \<ge> m. finished (req_pc (requests (sys u) ! i))"
proof (rule ccontr)
  assume "\<not> ?thesis"
  then have never: "\<not> finished (req_pc (requests (sys u) ! i))" if "m \<le> u" for u using that by blast
  let ?k = "reg_key (req_reg (requests (sys m) ! i))"
  note there = still_there [OF assms(1,2)]
  have own: "\<exists>u \<ge> v. ev u = Some (ReqStep i)" for v
  proof -
    have "\<forall>u \<ge> max m v. \<exists>e. moves_on i e \<and> wake_step e (sys u) \<noteq> None"
      using can_move there never by simp
    then obtain u e where u: "max m v \<le> u" "ev u = Some e" "moves_on i e" using assms(3) unfolding fair_to_def by blast
    have "e = ReqStep i"
      using answer_finishes [OF u(3) _ executionD(1) [OF assms(1) u(2)]] never [of "Suc u"] u(1) by auto
    with u show ?thesis by auto
  qed
  then obtain u where u: "6 + 3 * card {u. raised ?k (sys u) (sys (Suc u))} \<le> own_steps i ev u"
    using own_steps_unbounded by blast
  have "own_steps i ev u \<le> own_steps i ev (max m u)" by (rule own_steps_mono) simp
  also have "\<dots> \<le> 5 + 3 * raises ?k sys (max m u)"
    using budget_bound [OF assms(1), of i "max m u"] there [of "max m u"] by simp
  also have "\<dots> \<le> 5 + 3 * card {u. raised ?k (sys u) (sys (Suc u))}" using raises_bounded [OF assms(4)] by simp
  finally show False using u by simp
qed

subsection \<open>An execution\<close>

text \<open>A finite run, after which nothing happens any more.\<close>

definition run_states :: "wake_event list \<Rightarrow> wake_sys \<Rightarrow> nat \<Rightarrow> wake_sys" where
  "run_states es s u = the (wake_run (take u es) s)"

definition run_events :: "wake_event list \<Rightarrow> nat \<Rightarrow> wake_event option" where
  "run_events es u = (if u < length es then Some (es ! u) else None)"

lemma wake_run_snoc: "wake_run (es @ [e]) s = Option.bind (wake_run es s) (wake_step e)"
  by (induction es arbitrary: s) (auto split: option.splits)

lemma wake_run_prefix: "wake_run es s \<noteq> None \<Longrightarrow> wake_run (take u es) s \<noteq> None"
  by (induction es arbitrary: s u) (auto simp: take_Cons' split: option.splits if_splits)

lemma run_execution:
  assumes "wake_run es (wake_init n to) = Some t"
  shows "execution n to (run_states es (wake_init n to)) (run_events es)"
proof -
  let ?s = "wake_init n to"
  have "wake_step (es ! u) (run_states es ?s u) = Some (run_states es ?s (Suc u))" if "u < length es" for u
  proof -
    have "wake_run (take (Suc u) es) ?s \<noteq> None" using wake_run_prefix assms by (metis option.distinct(1))
    then show ?thesis
      using that by (auto simp: run_states_def take_Suc_conv_app_nth wake_run_snoc split: bind_splits)
  qed
  then show ?thesis by (auto simp: execution_def run_events_def run_states_def)
qed

lemma run_over: "length es \<le> u \<Longrightarrow> wake_run es s = Some t \<Longrightarrow> run_states es s u = t"
  by (simp add: run_states_def)

lemma run_raises_finite:
  assumes "wake_run es s = Some t"
  shows "finite {u. raised k (run_states es s u) (run_states es s (Suc u))}"
proof (rule finite_subset)
  have "\<not> raised k (run_states es s u) (run_states es s (Suc u))" if "length es \<le> u" for u
    using run_over [OF that assms] run_over [OF le_SucI [OF that] assms] by (simp add: raised_def)
  then show "{u. raised k (run_states es s u) (run_states es s (Suc u))} \<subseteq> {..< length es}"
    by (auto simp: not_less [symmetric])
qed simp

lemma run_fair:
  assumes "wake_run es s = Some t" and "i < length (requests t)" and "finished (req_pc (requests t ! i))"
  shows "fair_to i (run_states es s) (run_events es)"
proof -
  have "wake_step e t = None" if "moves_on i e" for e
    using that assms(2,3) by (cases e; cases "req_pc (requests t ! i)") auto
  then show ?thesis using run_over [OF _ assms(1)] unfolding fair_to_def by (metis max.cobounded1 max.cobounded2)
qed

lemma demo_race:
  "\<exists>s. wake_run demo_two_requests (wake_init 1 60) = Some s \<and> length (requests s) = 2 \<and>
     map req_pc (requests s) = [Returned (Inr demo_ep), Returned (Inr demo_ep)]"
  by (simp add: demo_two_requests_def run_simps)

lemma demo_length: "length demo_two_requests = 22"
  by (simp add: demo_two_requests_def)

theorem request_steps_bounded_witness:
  "\<exists>sys ev m. execution 1 60 sys ev \<and> own_steps 1 ev m = 7 \<and> 1 < length (requests (sys m)) \<and>
     7 \<le> 5 + 3 * raises (reg_key (req_reg (requests (sys m) ! 1))) sys m"
proof -
  let ?es = demo_two_requests and ?i = "wake_init 1 60"
  obtain s where s: "wake_run ?es ?i = Some s" "length (requests s) = 2" using demo_race by blast
  have o: "own_steps 1 (run_events ?es) 22 = 7"
    by (simp add: own_steps_def run_events_def demo_two_requests_def upt_rec)
  have "run_states ?es ?i 22 = s" by (rule run_over [OF _ s(1)]) (simp add: demo_length)
  with s(2) have l: "1 < length (requests (run_states ?es ?i 22))" by simp
  note x = run_execution [OF s(1)]
  from request_steps_bounded [OF x l] o have "7 \<le> 5 + 3 * raises (reg_key (req_reg (requests (run_states ?es ?i 22) ! 1))) (run_states ?es ?i) 22"
    by (simp only:)
  with x o l show ?thesis by blast
qed

theorem request_returns_witness:
  "\<exists>sys ev. execution 1 60 sys ev \<and> fair_to 1 sys ev \<and> (\<exists>u. finished (req_pc (requests (sys u) ! 1)))"
proof -
  let ?es = demo_two_requests and ?i = "wake_init 1 60"
  from demo_race obtain s where s: "wake_run ?es ?i = Some s" "length (requests s) = 2"
    "map req_pc (requests s) = [Returned (Inr demo_ep), Returned (Inr demo_ep)]" by (elim exE conjE)
  have r: "1 < length (requests s)" using s(2) by simp
  have "req_pc (requests s ! 1) = Returned (Inr demo_ep)"
    using nth_map [OF r, of req_pc] s(3) by simp
  then have f: "fair_to 1 (run_states ?es ?i) (run_events ?es)" using run_fair [OF s(1) r] by simp
  have l: "1 < length (requests (run_states ?es ?i 22))"
    using run_over [OF _ s(1), of 22] r by (simp add: demo_length)
  note x = run_execution [OF s(1)]
  from request_returns [OF x l f run_raises_finite [OF s(1)]] x f show ?thesis by blast
qed

end
