(* ===== verification/Inflight.thy ===== *)
theory Inflight
  imports Core
begin

text \<open>
  The in-flight request tracker of \<^verbatim>\<open>crates/nscale-core/src/inflight.rs\<close>.

  The tracker maps a job to a shared counter (\<^verbatim>\<open>Arc<AtomicUsize>\<close>): the counters are the
  cells of a list and the map holds their indices, so the map entry and the guards of a job
  alias the same cell. A guard is the index of the cell it will decrement. Counters are
  64-bit and wrap.

  The first part has the operations as the code composes them and an interface locale for
  them. The second part splits \<^verbatim>\<open>track\<close> at its synchronisation points (the read lock, the
  write lock, the atomic increment) and lets any number of requests interleave.
\<close>

record tracker =
  counts :: "string \<rightharpoonup> nat"
  counters :: "usize list"

datatype in_flight_guard = InFlightGuard (guard_counter: nat)

definition tracker_new :: tracker where
  "tracker_new = \<lparr>counts = Map.empty, counters = []\<rparr>"

text \<open>The write-locked part of \<^verbatim>\<open>track\<close>: \<^verbatim>\<open>entry(job_id).or_insert_with(...).clone()\<close>.\<close>

definition entry_or_insert :: "string \<Rightarrow> tracker \<Rightarrow> nat \<times> tracker" where
  "entry_or_insert j t =
     (case counts t j of
        Some a \<Rightarrow> (a, t)
      | None \<Rightarrow> (length (counters t),
          t\<lparr>counts := (counts t)(j \<mapsto> length (counters t)), counters := counters t @ [0]\<rparr>))"

definition fetch_add :: "nat \<Rightarrow> tracker \<Rightarrow> tracker" where
  "fetch_add a t = t\<lparr>counters := (counters t)[a := counters t ! a + 1]\<rparr>"

definition track :: "string \<Rightarrow> tracker \<Rightarrow> in_flight_guard \<times> tracker" where
  "track j t =
     (let (a, t') = (case counts t j of Some c \<Rightarrow> (c, t) | None \<Rightarrow> entry_or_insert j t)
      in (InFlightGuard a, fetch_add a t'))"

definition has_in_flight :: "string \<Rightarrow> tracker \<Rightarrow> bool" where
  "has_in_flight j t = (case counts t j of None \<Rightarrow> False | Some a \<Rightarrow> 0 < counters t ! a)"

definition count :: "string \<Rightarrow> tracker \<Rightarrow> usize" where
  "count j t = (case counts t j of None \<Rightarrow> 0 | Some a \<Rightarrow> counters t ! a)"

definition drop_guard :: "in_flight_guard \<Rightarrow> tracker \<Rightarrow> tracker" where
  "drop_guard g t =
     t\<lparr>counters := (counters t)[guard_counter g := counters t ! guard_counter g - 1]\<rparr>"

text \<open>The map points into the list of counters and no two jobs share a counter.\<close>

definition tracker_wf :: "tracker \<Rightarrow> bool" where
  "tracker_wf t \<longleftrightarrow>
     (\<forall>j a. counts t j = Some a \<longrightarrow> a < length (counters t)) \<and>
     (\<forall>i j a. counts t i = Some a \<longrightarrow> counts t j = Some a \<longrightarrow> i = j)"

definition guards_job :: "tracker \<Rightarrow> in_flight_guard \<Rightarrow> string \<Rightarrow> bool" where
  "guards_job t g j \<longleftrightarrow> counts t j = Some (guard_counter g)"

subsection \<open>Interleaved requests\<close>

text \<open>
  Where a request's thread is: about to take the read lock, about to take the write lock
  after the read lock found no counter, about to increment, holding its guard, or done.
\<close>

datatype flight =
    Reading string
  | Inserting string
  | Adding string nat
  | Holding string nat
  | Released

datatype flight_event = Begin string | Advance nat | DropGuard nat

record flight_state =
  tracker :: tracker
  flights :: "flight list"

definition flight_init :: flight_state where
  "flight_init = \<lparr>tracker = tracker_new, flights = []\<rparr>"

fun flight_advance :: "flight \<Rightarrow> tracker \<Rightarrow> flight \<times> tracker" where
  "flight_advance (Reading j) t =
     (case counts t j of Some a \<Rightarrow> (Adding j a, t) | None \<Rightarrow> (Inserting j, t))"
| "flight_advance (Inserting j) t = (let (a, t') = entry_or_insert j t in (Adding j a, t'))"
| "flight_advance (Adding j a) t = (Holding j a, fetch_add a t)"
| "flight_advance f t = (f, t)"

fun flight_drop :: "flight \<Rightarrow> tracker \<Rightarrow> flight \<times> tracker" where
  "flight_drop (Holding j a) t = (Released, drop_guard (InFlightGuard a) t)"
| "flight_drop f t = (f, t)"

fun flight_step :: "flight_event \<Rightarrow> flight_state \<Rightarrow> flight_state" where
  "flight_step (Begin j) s = s\<lparr>flights := flights s @ [Reading j]\<rparr>"
| "flight_step (Advance i) s =
     (if i < length (flights s)
      then let (f, t) = flight_advance (flights s ! i) (tracker s)
           in s\<lparr>tracker := t, flights := (flights s)[i := f]\<rparr>
      else s)"
| "flight_step (DropGuard i) s =
     (if i < length (flights s)
      then let (f, t) = flight_drop (flights s ! i) (tracker s)
           in s\<lparr>tracker := t, flights := (flights s)[i := f]\<rparr>
      else s)"

definition flight_run :: "flight_event list \<Rightarrow> flight_state" where
  "flight_run es = fold flight_step es flight_init"

fun holds_job :: "string \<Rightarrow> flight \<Rightarrow> bool" where
  "holds_job j (Holding k a) = (k = j)"
| "holds_job j _ = False"

text \<open>The specification: how many guards for the job are alive.\<close>

definition live_guards :: "string \<Rightarrow> flight_state \<Rightarrow> nat" where
  "live_guards j s = length (filter (holds_job j) (flights s))"

subsection \<open>The interface and its laws\<close>

text \<open>
  A client (the proxy takes and drops guards, the scale-down controller and the purge
  handler read the count) relies on these laws only.
\<close>

locale guard_counter_laws =
  fixes new :: 't
    and take_guard :: "string \<Rightarrow> 't \<Rightarrow> 'g \<times> 't"
    and release :: "'g \<Rightarrow> 't \<Rightarrow> 't"
    and counted :: "string \<Rightarrow> 't \<Rightarrow> usize"
    and owns :: "'t \<Rightarrow> 'g \<Rightarrow> string \<Rightarrow> bool"
    and wf :: "'t \<Rightarrow> bool"
  assumes new_wf: "wf new" and new_counted: "counted j new = 0"
    and take_wf: "wf t \<Longrightarrow> take_guard j t = (g, t') \<Longrightarrow> wf t'"
    and take_owns: "wf t \<Longrightarrow> take_guard j t = (g, t') \<Longrightarrow> owns t' g j"
    and take_frame: "wf t \<Longrightarrow> take_guard j t = (g, t') \<Longrightarrow> owns t h k \<Longrightarrow> owns t' h k"
    and take_counted: "wf t \<Longrightarrow> take_guard j t = (g, t') \<Longrightarrow>
           counted k t' = counted k t + (if k = j then 1 else 0)"
    and release_wf: "wf t \<Longrightarrow> wf (release g t)"
    and release_frame: "wf t \<Longrightarrow> owns (release g t) h k = owns t h k"
    and release_counted: "wf t \<Longrightarrow> owns t g j \<Longrightarrow>
           counted k (release g t) = counted k t - (if k = j then 1 else 0)"
begin

text \<open>
  A client's history: it takes guards, and gives back the \<open>i\<close>-th of the guards it holds.
\<close>

fun use :: "(string + nat) list \<Rightarrow> 't \<times> ('g \<times> string) list \<Rightarrow> 't \<times> ('g \<times> string) list" where
  "use [] s = s"
| "use (Inl j # es) (t, hs) = (let (g, t') = take_guard j t in use es (t', hs @ [(g, j)]))"
| "use (Inr i # es) (t, hs) =
     (if i < length hs
      then use es (release (fst (hs ! i)) t, take i hs @ drop (Suc i) hs)
      else use es (t, hs))"

definition consistent :: "'t \<times> ('g \<times> string) list \<Rightarrow> bool" where
  "consistent s \<longleftrightarrow> wf (fst s) \<and> (\<forall>(g, j) \<in> set (snd s). owns (fst s) g j) \<and>
     (\<forall>k. counted k (fst s) = of_nat (length (filter (\<lambda>h. snd h = k) (snd s))))"

lemma consistent_take:
  assumes "consistent (t, hs)" and "take_guard j t = (g, t')"
  shows "consistent (t', hs @ [(g, j)])"
  using assms take_wf take_owns take_counted
  by (auto simp: consistent_def intro: take_frame [OF _ assms(2)])

lemma consistent_release:
  assumes "consistent (t, hs)" and "i < length hs"
  shows "consistent (release (fst (hs ! i)) t, take i hs @ drop (Suc i) hs)"
proof -
  obtain g j where gj: "hs ! i = (g, j)" by force
  have "(g, j) \<in> set hs" using nth_mem [OF assms(2)] gj by simp
  then have own: "owns t g j" and wf: "wf t" using assms(1) by (auto simp: consistent_def)
  have cnt: "counted k t = of_nat (length (filter (\<lambda>h. snd h = k) hs))" for k
    using assms by (simp add: consistent_def)
  have "counted k (release g t) =
      of_nat (length (filter (\<lambda>h. snd h = k) (take i hs @ drop (Suc i) hs)))" for k
    using release_counted [OF wf own, of k] cnt [of k] gj
      length_filter_remove_nth [OF assms(2), of "\<lambda>h. snd h = k"] by auto
  moreover have "set (take i hs @ drop (Suc i) hs) \<subseteq> set hs"
    using set_take_subset [of i hs] set_drop_subset [of "Suc i" hs] by auto
  ultimately show ?thesis
    using assms gj wf release_frame release_wf by (auto simp: consistent_def)
qed

lemma use_consistent: "consistent s \<Longrightarrow> consistent (use es s)"
proof (induction es s rule: use.induct)
  case (1 s)
  then show ?case by simp
next
  case (2 j es t hs)
  obtain g t' where g: "take_guard j t = (g, t')" by force
  with 2 consistent_take [OF _ g] show ?case by simp
next
  case (3 i es t hs)
  then show ?case using consistent_release by simp
qed

theorem counted_is_held:
  "counted k (fst (use es (new, []))) =
     of_nat (length (filter (\<lambda>h. snd h = k) (snd (use es (new, [])))))"
  using use_consistent [of "(new, [])" es] new_wf new_counted by (simp add: consistent_def)

end

lemmas tracker_defs = track_def entry_or_insert_def fetch_add_def drop_guard_def count_def
  has_in_flight_def tracker_wf_def guards_job_def

interpretation fl: guard_counter_laws tracker_new track drop_guard count guards_job tracker_wf
proof (unfold_locales, goal_cases)
  case 1 then show ?case by (simp add: tracker_defs tracker_new_def)
next
  case 2 then show ?case by (simp add: tracker_defs tracker_new_def)
next
  case (3 t j g t')
  then show ?case by (fastforce simp: tracker_defs split: option.splits if_splits)
next
  case (4 t j g t')
  then show ?case by (auto simp: tracker_defs split: option.splits if_splits)
next
  case (5 t j g t' h k)
  then show ?case by (auto simp: tracker_defs split: option.splits if_splits)
next
  case (6 t j g t' k)
  then show ?case
    by (auto simp: tracker_defs nth_append nth_list_update split: option.splits if_splits)
next
  case (7 t g) then show ?case by (simp add: tracker_defs)
next
  case (8 t g h k) then show ?case by (simp add: tracker_defs)
next
  case (9 t g j k)
  then show ?case by (auto simp: tracker_defs nth_list_update split: option.splits)
qed

subsection \<open>Every interleaving keeps the counters exact\<close>

fun flight_cell :: "flight \<Rightarrow> (string \<times> nat) option" where
  "flight_cell (Adding j a) = Some (j, a)"
| "flight_cell (Holding j a) = Some (j, a)"
| "flight_cell _ = None"

text \<open>
  A counter, once a request has it, stays the counter of its job, and its value is the
  number of guards held on it.
\<close>

definition flight_inv :: "flight_state \<Rightarrow> bool" where
  "flight_inv s \<longleftrightarrow> tracker_wf (tracker s) \<and>
     (\<forall>f \<in> set (flights s). \<forall>j a. flight_cell f = Some (j, a) \<longrightarrow> counts (tracker s) j = Some a) \<and>
     (\<forall>j. count j (tracker s) = of_nat (live_guards j s))"

lemma flight_inv_init: "flight_inv flight_init"
  by (simp add: flight_inv_def flight_init_def tracker_new_def tracker_defs live_guards_def)

lemma entry_or_insert_wf:
  assumes wf: "tracker_wf t" and e: "entry_or_insert j t = (a, t')"
  shows "tracker_wf t'"
proof (cases "counts t j")
  case None
  have fresh: "counts t i \<noteq> Some (length (counters t))" for i
    using wf unfolding tracker_wf_def by (metis less_irrefl)
  have "tracker_wf (t\<lparr>counts := (counts t)(j \<mapsto> length (counters t)), counters := counters t @ [0]\<rparr>)"
    using wf fresh unfolding tracker_wf_def by (auto simp: less_SucI)
  with None e show ?thesis by (auto simp: entry_or_insert_def)
qed (use assms in \<open>simp add: entry_or_insert_def\<close>)

lemma entry_or_insert_mono:
  "entry_or_insert j t = (a, t') \<Longrightarrow> counts t k = Some b \<Longrightarrow> counts t' k = Some b"
  by (auto simp: entry_or_insert_def split: option.splits)

lemma entry_or_insert_self: "entry_or_insert j t = (a, t') \<Longrightarrow> counts t' j = Some a"
  by (auto simp: entry_or_insert_def split: option.splits)

lemma entry_or_insert_count:
  assumes "tracker_wf t" and "entry_or_insert j t = (a, t')"
  shows "count k t' = count k t"
proof (cases "counts t j")
  case None
  have "counts t k = Some b \<Longrightarrow> b < length (counters t)" for b
    using assms(1) by (simp add: tracker_wf_def)
  with None assms(2) show ?thesis
    by (auto simp: entry_or_insert_def count_def nth_append split: option.splits if_splits)
qed (use assms in \<open>simp add: entry_or_insert_def\<close>)

lemmas entry_or_insert_props =
  entry_or_insert_wf entry_or_insert_self entry_or_insert_count entry_or_insert_mono

lemma fetch_add_props:
  assumes "tracker_wf t" and "counts t j = Some a"
  shows "tracker_wf (fetch_add a t)" "counts (fetch_add a t) = counts t"
    "count k (fetch_add a t) = count k t + (if k = j then 1 else 0)"
  using assms by (auto simp: tracker_defs nth_list_update split: option.splits)

lemma drop_guard_props:
  assumes "tracker_wf t" and "counts t j = Some a"
  shows "tracker_wf (drop_guard (InFlightGuard a) t)"
    "counts (drop_guard (InFlightGuard a) t) = counts t"
    "count k (drop_guard (InFlightGuard a) t) = count k t - (if k = j then 1 else 0)"
  using assms by (auto simp: tracker_defs nth_list_update split: option.splits)

text \<open>Replacing the \<open>i\<close>-th request, as far as the invariant is concerned.\<close>

lemma flight_inv_update:
  assumes inv: "flight_inv s" and i: "i < length (flights s)" and wf: "tracker_wf t"
    and mono: "\<And>k b. counts (tracker s) k = Some b \<Longrightarrow> counts t k = Some b"
    and cell: "\<And>j a. flight_cell f = Some (j, a) \<Longrightarrow> counts t j = Some a"
    and cnt: "\<And>k. count k t + of_bool (holds_job k (flights s ! i)) =
                    count k (tracker s) + of_bool (holds_job k f)"
  shows "flight_inv (s\<lparr>tracker := t, flights := (flights s)[i := f]\<rparr>)"
proof -
  have "count k t = of_nat (length (filter (holds_job k) ((flights s)[i := f])))" for k
  proof -
    let ?n = "length (filter (holds_job k) (flights s))"
    let ?m = "length (filter (holds_job k) ((flights s)[i := f]))"
    have "?m + of_bool (holds_job k (flights s ! i)) = ?n + of_bool (holds_job k f)"
      using length_filter_list_update [OF i, of "holds_job k" f] by (auto simp: of_bool_def)
    then have "(of_nat ?m :: usize) + of_bool (holds_job k (flights s ! i)) =
        of_nat ?n + of_bool (holds_job k f)"
      by (metis of_nat_add of_nat_of_bool)
    moreover have "count k (tracker s) = of_nat ?n"
      using inv by (simp add: flight_inv_def live_guards_def)
    ultimately show ?thesis using cnt [of k] by (metis add_right_cancel)
  qed
  moreover have "counts t j = Some a"
    if "g \<in> set ((flights s)[i := f])" and "flight_cell g = Some (j, a)" for g j a
    using that set_update_subset_insert [of "flights s" i f] cell mono inv
    unfolding flight_inv_def by blast
  ultimately show ?thesis using wf by (simp add: flight_inv_def live_guards_def)
qed

lemma flight_advance_inv:
  assumes inv: "flight_inv s" and i: "i < length (flights s)"
    and adv: "flight_advance (flights s ! i) (tracker s) = (f, t)"
  shows "flight_inv (s\<lparr>tracker := t, flights := (flights s)[i := f]\<rparr>)"
proof (rule flight_inv_update [OF inv i])
  have wf: "tracker_wf (tracker s)" using inv by (simp add: flight_inv_def)
  have own: "flight_cell (flights s ! i) = Some (j, a) \<Longrightarrow> counts (tracker s) j = Some a" for j a
    using inv i unfolding flight_inv_def by (meson nth_mem)
  show "tracker_wf t"
    using adv wf own
    by (cases "flights s ! i")
       (auto simp: fetch_add_props entry_or_insert_props split: option.splits prod.splits)
  show "counts (tracker s) k = Some b \<Longrightarrow> counts t k = Some b" for k b
    using adv wf own
    by (cases "flights s ! i")
       (auto simp: fetch_add_props entry_or_insert_props split: option.splits prod.splits)
  show "flight_cell f = Some (j, a) \<Longrightarrow> counts t j = Some a" for j a
    using adv wf own
    by (cases "flights s ! i")
       (auto simp: fetch_add_props entry_or_insert_props split: option.splits prod.splits)
  show "count k t + of_bool (holds_job k (flights s ! i)) =
        count k (tracker s) + of_bool (holds_job k f)" for k
    using adv wf own
    by (cases "flights s ! i")
       (auto simp: fetch_add_props entry_or_insert_props split: option.splits prod.splits)
qed

lemma flight_drop_inv:
  assumes inv: "flight_inv s" and i: "i < length (flights s)"
    and drp: "flight_drop (flights s ! i) (tracker s) = (f, t)"
  shows "flight_inv (s\<lparr>tracker := t, flights := (flights s)[i := f]\<rparr>)"
proof (rule flight_inv_update [OF inv i])
  have wf: "tracker_wf (tracker s)" using inv by (simp add: flight_inv_def)
  have own: "flight_cell (flights s ! i) = Some (j, a) \<Longrightarrow> counts (tracker s) j = Some a" for j a
    using inv i unfolding flight_inv_def by (meson nth_mem)
  show "tracker_wf t"
    using drp wf own by (cases "flights s ! i") (auto simp: drop_guard_props)
  show "counts (tracker s) k = Some b \<Longrightarrow> counts t k = Some b" for k b
    using drp wf own by (cases "flights s ! i") (auto simp: drop_guard_props)
  show "flight_cell f = Some (j, a) \<Longrightarrow> counts t j = Some a" for j a
    using drp wf own by (cases "flights s ! i") auto
  show "count k t + of_bool (holds_job k (flights s ! i)) =
        count k (tracker s) + of_bool (holds_job k f)" for k
    using drp wf own by (cases "flights s ! i") (auto simp: drop_guard_props)
qed

lemma flight_begin_inv: "flight_inv s \<Longrightarrow> flight_inv (s\<lparr>flights := flights s @ [Reading j]\<rparr>)"
  by (auto simp: flight_inv_def live_guards_def)

lemma flight_step_inv: "flight_inv s \<Longrightarrow> flight_inv (flight_step e s)"
  by (cases e) (simp_all add: flight_begin_inv flight_advance_inv flight_drop_inv split: prod.splits)

lemma flight_run_inv: "flight_inv (flight_run es)"
proof -
  have "flight_inv s \<Longrightarrow> flight_inv (fold flight_step es s)" for s
    by (induction es arbitrary: s) (auto simp: flight_step_inv)
  then show ?thesis using flight_inv_init by (simp add: flight_run_def)
qed

lemma has_in_flight_count: "has_in_flight j t \<longleftrightarrow> count j t \<noteq> 0"
  by (auto simp: tracker_defs word_neq_0_conv split: option.splits)

subsection \<open>Properties\<close>

text \<open>
  C8: The in-flight count is exact. However the requests interleave, at every moment the count
  of a job is the number of guards for it that are alive, and \<^verbatim>\<open>has_in_flight\<close> holds exactly
  when there is one. The bound is the width of the counter: fewer than \<open>2 ^ 64\<close> requests
  have been started.
\<close>

theorem in_flight_exact:
  assumes "length (flights (flight_run es)) < 2 ^ 64"
  shows "unat (count j (tracker (flight_run es))) = live_guards j (flight_run es) \<and>
         has_in_flight j (tracker (flight_run es)) = (0 < live_guards j (flight_run es))"
proof -
  have "live_guards j (flight_run es) \<le> length (flights (flight_run es))"
    by (simp add: live_guards_def)
  then have "unat (of_nat (live_guards j (flight_run es)) :: usize) = live_guards j (flight_run es)"
    using assms by (simp add: unsigned_of_nat take_bit_nat_eq_self)
  moreover have "count j (tracker (flight_run es)) = of_nat (live_guards j (flight_run es))"
    using flight_run_inv [of es] by (simp add: flight_inv_def)
  ultimately show ?thesis by (metis has_in_flight_count unat_gt_0)
qed

text \<open>Two requests race to insert the same counter; one of them is then dropped.\<close>

definition racing_flights :: "flight_event list" where
  "racing_flights = [Begin ''a'', Begin ''a'', Advance 0, Advance 1, Advance 1, Advance 0,
     Advance 0, Advance 1, DropGuard 0]"

theorem in_flight_exact_witness:
  "length (flights (flight_run racing_flights)) < 2 ^ 64 \<and>
   unat (count ''a'' (tracker (flight_run racing_flights))) = 1 \<and>
   has_in_flight ''a'' (tracker (flight_run racing_flights))"
proof -
  have l: "length (flights (flight_run racing_flights)) < 2 ^ 64"
    and g: "live_guards ''a'' (flight_run racing_flights) = 1"
    by (simp_all add: flight_run_def racing_flights_def flight_init_def tracker_new_def
        entry_or_insert_def fetch_add_def drop_guard_def live_guards_def)
  then show ?thesis using in_flight_exact [OF l, of "''a''"] by simp
qed

text \<open>
  A request that has come and gone leaves no trace in the counts. Tracking a job adds one
  to its count and to no other, even when guards of the same or other jobs are held, and
  dropping the guard restores every count.
\<close>

theorem track_then_drop:
  assumes "tracker_wf t" and "track j t = (g, t')"
  shows "count k t' = count k t + (if k = j then 1 else 0) \<and>
         count k (drop_guard g t') = count k t \<and> tracker_wf (drop_guard g t')"
  using fl.take_counted [OF assms] fl.release_wf fl.take_wf [OF assms]
    fl.release_counted [OF fl.take_wf [OF assms] fl.take_owns [OF assms]]
  by simp

theorem track_then_drop_witness:
  "\<exists>g t. tracker_wf tracker_new \<and> track ''a'' tracker_new = (g, t) \<and> count ''a'' t = 1 \<and>
     count ''a'' (drop_guard g t) = 0"
proof -
  obtain g t where gt: "track ''a'' tracker_new = (g, t)" by force
  show ?thesis
    using track_then_drop [OF fl.new_wf gt, of "''a''"] fl.new_wf gt fl.new_counted by auto
qed

end
