(* ===== verification/Config.thy ===== *)
theory Config
  imports Core
begin

text \<open>
  The configuration of \<^verbatim>\<open>crates/nscale-core/src/config.rs\<close>: its records, the serde
  defaults and the built-in configuration, with the durations the process derives from it
  in \<^verbatim>\<open>main.rs\<close>. Loading from a TOML file and the environment is Figment's and is not
  modelled.
\<close>

record nomad_config =
  nomad_addr :: string
  nomad_token :: "string option"
  concurrency :: usize

record consul_config =
  consul_addr :: string
  consul_token :: "string option"

record redis_config =
  redis_url :: string

record registry_config =
  durable_enabled :: bool
  etcd_endpoints :: string
  etcd_key_prefix :: string
  etcd_watch_backoff_secs :: u64

record auto_deregister_config =
  auto_enabled :: bool
  not_found_threshold :: u32

record scaling_config =
  idle_timeout_secs :: u64
  wake_timeout_secs :: u64
  scale_down_interval_secs :: u64
  min_scale_down_age_secs :: u64
  auto_deregister :: auto_deregister_config

record traefik_config =
  metrics_url :: string
  provider :: string

record proxy_config =
  request_timeout_secs :: u64
  request_buffer_size :: usize

record routing_config =
  file_provider_service :: string

text \<open>A socket address as the host part and the port part of its literal.\<close>

record config =
  listen_addr :: "string \<times> u16"
  admin_addr :: "string \<times> u16"
  nomad_cfg :: nomad_config
  consul_cfg :: consul_config
  redis_cfg :: redis_config
  scaling_cfg :: scaling_config
  proxy_cfg :: proxy_config
  registry_cfg :: registry_config
  routing_cfg :: routing_config
  traefik_cfg :: "traefik_config option"

definition idle_timeout :: "scaling_config \<Rightarrow> duration" where
  "idle_timeout c = from_secs (idle_timeout_secs c)"

definition wake_timeout_of :: "scaling_config \<Rightarrow> duration" where
  "wake_timeout_of c = from_secs (wake_timeout_secs c)"

definition scale_down_interval :: "scaling_config \<Rightarrow> duration" where
  "scale_down_interval c = from_secs (scale_down_interval_secs c)"

definition min_scale_down_age :: "scaling_config \<Rightarrow> duration" where
  "min_scale_down_age c = from_secs (min_scale_down_age_secs c)"

definition request_timeout :: "proxy_config \<Rightarrow> duration" where
  "request_timeout c = from_secs (request_timeout_secs c)"

definition default_auto_deregister :: auto_deregister_config where
  "default_auto_deregister = \<lparr>auto_enabled = True, not_found_threshold = 5\<rparr>"

definition default_routing :: routing_config where
  "default_routing = \<lparr>file_provider_service = ''s2z-nscale@file''\<rparr>"

definition default_registry :: registry_config where
  "default_registry =
     \<lparr>durable_enabled = False,
      etcd_endpoints = ''http://localhost:2379'',
      etcd_key_prefix = ''/nscale/registrations'',
      etcd_watch_backoff_secs = 5\<rparr>"

definition default_scaling :: scaling_config where
  "default_scaling =
     \<lparr>idle_timeout_secs = 300, wake_timeout_secs = 60, scale_down_interval_secs = 30,
      min_scale_down_age_secs = 120, auto_deregister = default_auto_deregister\<rparr>"

definition default_config :: config where
  "default_config =
     \<lparr>listen_addr = (''0.0.0.0'', 8080),
      admin_addr = (''0.0.0.0'', 9090),
      nomad_cfg = \<lparr>nomad_addr = ''http://localhost:4646'', nomad_token = None, concurrency = 50\<rparr>,
      consul_cfg = \<lparr>consul_addr = ''http://localhost:8500'', consul_token = None\<rparr>,
      redis_cfg = \<lparr>redis_url = ''redis://localhost:6379''\<rparr>,
      scaling_cfg = default_scaling,
      proxy_cfg = \<lparr>request_timeout_secs = 30, request_buffer_size = 1000\<rparr>,
      registry_cfg = default_registry,
      routing_cfg = default_routing,
      traefik_cfg = None\<rparr>"

text \<open>
  \<^verbatim>\<open>main.rs\<close>: the proxy refreshes activity every third of the idle timeout while a
  request is being served.
\<close>

definition heartbeat_interval_of :: "scaling_config \<Rightarrow> duration" where
  "heartbeat_interval_of c = idle_timeout c div 3"

text \<open>\<^verbatim>\<open>main.rs\<close>: the etcd endpoint list is split at commas, trimmed, without empty entries.\<close>

definition etcd_endpoint_list :: "registry_config \<Rightarrow> string list" where
  "etcd_endpoint_list c = filter (\<lambda>e. e \<noteq> []) (map trim (split_on CHR '','' (etcd_endpoints c)))"

end
