(* ===== verification/Store.thy ===== *)
theory Store
  imports Core
begin

text \<open>
  The Redis-backed stores of \<^verbatim>\<open>crates/nscale-store\<close>: the activity store with its
  distributed lock (\<^verbatim>\<open>activity.rs\<close>) and the missing-job tracker (\<^verbatim>\<open>auto_deregister.rs\<close>).

  The Redis client is a parameter: a record of the commands the code sends, each a
  computation over the outside world \<open>'w\<close>. What the code relies on is \<open>redis_laws\<close>, which
  describes the commands by their effect on what the server holds: a command that answers has
  taken effect, one that reports an error may or may not have. Locks are seen through a view
  of their own, because they expire on their own.

  Scores are nanoseconds as integers: the rounding of \<^verbatim>\<open>f64\<close> is not modelled.
\<close>

subsection \<open>The client\<close>

record 'w redis =
  r_zadd :: "string \<Rightarrow> int \<Rightarrow> string \<Rightarrow> ('w, string, unit) io"
  r_zrange_upto :: "string \<Rightarrow> int \<Rightarrow> ('w, string, string list) io"
  r_zscore :: "string \<Rightarrow> string \<Rightarrow> ('w, string, int option) io"
  r_zrem :: "string \<Rightarrow> string \<Rightarrow> ('w, string, int) io"
  r_set_nx_px :: "string \<Rightarrow> string \<Rightarrow> int \<Rightarrow> ('w, string, string option) io"
  r_eval :: "string \<Rightarrow> string list \<Rightarrow> string list \<Rightarrow> ('w, string, int) io"
  r_hset :: "string \<Rightarrow> string \<Rightarrow> string \<Rightarrow> ('w, string, unit) io"
  r_hget :: "string \<Rightarrow> string \<Rightarrow> ('w, string, string option) io"
  r_hgetall :: "string \<Rightarrow> ('w, string, (string \<times> string) list) io"
  r_hdel :: "string \<Rightarrow> string \<Rightarrow> ('w, string, int) io"

text \<open>The Lua scripts the code sends, up to the white space between their tokens.\<close>

definition release_script :: string where
  "release_script =
     ''if redis.call(\"get\", KEYS[1]) == ARGV[1] then return redis.call(\"del\", KEYS[1]) else return 0 end''"

definition incr_script :: string where
  "incr_script = ''return redis.call('' @ [CHR 39] @ ''INCR'' @ [CHR 39] @ '', KEYS[1])''"

definition del_script :: string where
  "del_script = ''return redis.call('' @ [CHR 39] @ ''DEL'' @ [CHR 39] @ '', KEYS[1])''"

subsection \<open>What the code relies on\<close>

record redis_view =
  zset :: "string \<Rightarrow> string \<rightharpoonup> int"
  hash :: "string \<Rightarrow> string \<rightharpoonup> string"
  ctr :: "string \<Rightarrow> int"

definition wrote :: "('w \<Rightarrow> 'v) \<Rightarrow> ('v \<Rightarrow> 'v) \<Rightarrow> 'w \<Rightarrow> (string + 'a) \<times> 'w \<Rightarrow> bool" where
  "wrote V u w out \<longleftrightarrow>
     (case out of
        (Inr _, w') \<Rightarrow> V w' = u (V w)
      | (Inl _, w') \<Rightarrow> V w' = V w \<or> V w' = u (V w))"

definition zset_put :: "string \<Rightarrow> string \<Rightarrow> int option \<Rightarrow> redis_view \<Rightarrow> redis_view" where
  "zset_put k m sc v = v\<lparr>zset := (zset v)(k := (zset v k)(m := sc))\<rparr>"

definition hash_put :: "string \<Rightarrow> string \<Rightarrow> string option \<Rightarrow> redis_view \<Rightarrow> redis_view" where
  "hash_put k f x v = v\<lparr>hash := (hash v)(k := (hash v k)(f := x))\<rparr>"

definition ctr_put :: "string \<Rightarrow> int \<Rightarrow> redis_view \<Rightarrow> redis_view" where
  "ctr_put k n v = v\<lparr>ctr := (ctr v)(k := n)\<rparr>"

definition zset_laws :: "'w redis \<Rightarrow> ('w \<Rightarrow> redis_view) \<Rightarrow> bool" where
  "zset_laws R V \<longleftrightarrow>
     (\<forall>k sc m w. wrote V (zset_put k m (Some sc)) w (r_zadd R k sc m w)) \<and>
     (\<forall>k m w. wrote V (zset_put k m None) w (r_zrem R k m w)) \<and>
     (\<forall>k mx w ms w'. r_zrange_upto R k mx w = (Inr ms, w') \<longrightarrow>
        distinct ms \<and> set ms = {m. \<exists>sc. zset (V w) k m = Some sc \<and> sc \<le> mx}) \<and>
     (\<forall>k mx w. V (snd (r_zrange_upto R k mx w)) = V w) \<and>
     (\<forall>k m w sc w'. r_zscore R k m w = (Inr sc, w') \<longrightarrow> sc = zset (V w) k m) \<and>
     (\<forall>k m w. V (snd (r_zscore R k m w)) = V w)"

definition hash_laws :: "'w redis \<Rightarrow> ('w \<Rightarrow> redis_view) \<Rightarrow> bool" where
  "hash_laws R V \<longleftrightarrow>
     (\<forall>k f x w. wrote V (hash_put k f (Some x)) w (r_hset R k f x w)) \<and>
     (\<forall>k f w. wrote V (hash_put k f None) w (r_hdel R k f w)) \<and>
     (\<forall>k f w x w'. r_hget R k f w = (Inr x, w') \<longrightarrow> x = hash (V w) k f) \<and>
     (\<forall>k f w. V (snd (r_hget R k f w)) = V w) \<and>
     (\<forall>k w xs w'. r_hgetall R k w = (Inr xs, w') \<longrightarrow> distinct (map fst xs) \<and> map_of xs = hash (V w) k) \<and>
     (\<forall>k w. V (snd (r_hgetall R k w)) = V w)"

definition counter_laws :: "'w redis \<Rightarrow> ('w \<Rightarrow> redis_view) \<Rightarrow> bool" where
  "counter_laws R V \<longleftrightarrow>
     (\<forall>k w. wrote V (\<lambda>v. ctr_put k (ctr v k + 1) v) w (r_eval R incr_script [k] [] w)) \<and>
     (\<forall>k w n w'. r_eval R incr_script [k] [] w = (Inr n, w') \<longrightarrow> n = ctr (V w) k + 1) \<and>
     (\<forall>k w. wrote V (ctr_put k 0) w (r_eval R del_script [k] [] w))"

text \<open>
  \<open>L\<close> gives the unexpired lock values. \<^verbatim>\<open>SET NX\<close> succeeds only on a key without one, and
  the script deletes a lock only for the value it is given.
\<close>

definition lock_laws :: "'w redis \<Rightarrow> ('w \<Rightarrow> redis_view) \<Rightarrow> ('w \<Rightarrow> string \<rightharpoonup> string) \<Rightarrow> bool" where
  "lock_laws R V L \<longleftrightarrow>
     (\<forall>k x ttl w r w'. r_set_nx_px R k x ttl w = (Inr (Some r), w') \<longrightarrow>
        L w k = None \<and> L w' k = Some x) \<and>
     (\<forall>k x ttl w w'. r_set_nx_px R k x ttl w = (Inr None, w') \<longrightarrow> L w k \<noteq> None) \<and>
     (\<forall>k x ttl w. V (snd (r_set_nx_px R k x ttl w)) = V w) \<and>
     (\<forall>k x w n w'. r_eval R release_script [k] [x] w = (Inr n, w') \<longrightarrow>
        L w' k = (if L w k = Some x then None else L w k)) \<and>
     (\<forall>k x w. V (snd (r_eval R release_script [k] [x] w)) = V w)"

definition redis_laws ::
  "'w redis \<Rightarrow> ('w \<Rightarrow> redis_view) \<Rightarrow> ('w \<Rightarrow> string \<rightharpoonup> string) \<Rightarrow> bool" where
  "redis_laws R V L \<longleftrightarrow> zset_laws R V \<and> hash_laws R V \<and> counter_laws R V \<and> lock_laws R V L"

subsection \<open>The activity store\<close>

definition ACTIVITY_KEY :: string where
  "ACTIVITY_KEY = ''nscale:activity''"

definition lock_key :: "string \<Rightarrow> string" where
  "lock_key key = ''nscale:lock:'' @ key"

record 'w redis_activity_store =
  act_client :: "'w redis"
  instance_id :: string
  system_now :: "'w \<Rightarrow> nat"

text \<open>The time since the epoch; a clock before the epoch reads as zero.\<close>

definition now_epoch :: "'w redis_activity_store \<Rightarrow> 'w \<Rightarrow> int" where
  "now_epoch st w = int (system_now st w)"

definition redis_record_activity :: "'w redis_activity_store \<Rightarrow> job_id \<Rightarrow> ('w, unit) call" where
  "redis_record_activity st j w =
     io_map_err Store (r_zadd (act_client st) ACTIVITY_KEY (now_epoch st w) (job_str j)) w"

definition redis_get_idle_jobs :: "'w redis_activity_store \<Rightarrow> duration \<Rightarrow> ('w, job_id list) call" where
  "redis_get_idle_jobs st idle_threshold w =
     (let cutoff = now_epoch st w - int idle_threshold in
      io_bind (io_map_err Store (r_zrange_upto (act_client st) ACTIVITY_KEY cutoff))
        (\<lambda>members. io_return (map JobId members)) w)"

definition redis_has_activity :: "'w redis_activity_store \<Rightarrow> job_id \<Rightarrow> ('w, bool) call" where
  "redis_has_activity st j =
     io_bind (io_map_err Store (r_zscore (act_client st) ACTIVITY_KEY (job_str j)))
       (\<lambda>score. io_return (score \<noteq> None))"

text \<open>\<^verbatim>\<open>ttl.as_millis() as i64\<close> keeps the low 64 bits as a signed number.\<close>

definition ttl_ms :: "duration \<Rightarrow> int" where
  "ttl_ms ttl = sint (of_nat (ttl div 1000000) :: 64 word)"

definition redis_try_acquire_lock ::
  "'w redis_activity_store \<Rightarrow> string \<Rightarrow> duration \<Rightarrow> ('w, bool) call" where
  "redis_try_acquire_lock st key ttl =
     io_bind (io_map_err Store
         (r_set_nx_px (act_client st) (lock_key key) (instance_id st) (ttl_ms ttl)))
       (\<lambda>res. io_return (res \<noteq> None))"

definition redis_release_lock :: "'w redis_activity_store \<Rightarrow> string \<Rightarrow> ('w, unit) call" where
  "redis_release_lock st key =
     io_bind (io_map_err Store
         (r_eval (act_client st) release_script [lock_key key] [instance_id st]))
       (\<lambda>_. io_return ())"

definition redis_remove_activity :: "'w redis_activity_store \<Rightarrow> job_id \<Rightarrow> ('w, unit) call" where
  "redis_remove_activity st j =
     io_bind (io_map_err Store (r_zrem (act_client st) ACTIVITY_KEY (job_str j)))
       (\<lambda>_. io_return ())"

definition redis_activity_impl :: "'w redis_activity_store \<Rightarrow> 'w activity_store" where
  "redis_activity_impl st =
     \<lparr>record_activity = redis_record_activity st,
      get_idle_jobs = redis_get_idle_jobs st,
      has_activity = redis_has_activity st,
      try_acquire_lock = redis_try_acquire_lock st,
      release_lock = redis_release_lock st,
      remove_activity = redis_remove_activity st\<rparr>"

subsection \<open>The missing-job tracker\<close>

definition AUTO_DEREGISTER_NOT_FOUND_PREFIX :: string where
  "AUTO_DEREGISTER_NOT_FOUND_PREFIX = ''nscale:auto-deregister:not-found:''"

definition missing_key :: "job_id \<Rightarrow> string" where
  "missing_key j = AUTO_DEREGISTER_NOT_FOUND_PREFIX @ job_str j"

text \<open>\<^verbatim>\<open>u32::try_from\<close> on an \<^verbatim>\<open>i64\<close>.\<close>

definition u32_try_from :: "int \<Rightarrow> u32 option" where
  "u32_try_from n = (if 0 \<le> n \<and> n < 2 ^ 32 then Some (word_of_int n) else None)"

definition show_int :: "int \<Rightarrow> string" where
  "show_int n = (if n < 0 then CHR ''-'' # show_nat (nat (- n)) else show_nat (nat n))"

definition redis_increment_not_found :: "'w redis \<Rightarrow> job_id \<Rightarrow> ('w, u32) call" where
  "redis_increment_not_found R j =
     io_bind (io_map_err Store (r_eval R incr_script [missing_key j] []))
       (\<lambda>n. case u32_try_from n of
          Some c \<Rightarrow> io_return c
        | None \<Rightarrow> io_fail (Store (''missing-job counter for '' @ job_str j @
                    '' exceeded u32 range: '' @ show_int n)))"

definition redis_clear_not_found :: "'w redis \<Rightarrow> job_id \<Rightarrow> ('w, unit) call" where
  "redis_clear_not_found R j =
     io_bind (io_map_err Store (r_eval R del_script [missing_key j] [])) (\<lambda>_. io_return ())"

definition redis_missing_impl :: "'w redis \<Rightarrow> 'w missing_job_tracker" where
  "redis_missing_impl R =
     \<lparr>increment_not_found = redis_increment_not_found R,
      clear_not_found = redis_clear_not_found R\<rparr>"

subsection \<open>The activity contract\<close>

text \<open>
  What the users of an activity store rely on: a store \<open>st\<close> that is \<open>good\<close> with respect to a
  view \<open>V\<close> of the world keeps, per job, the time of its last recorded activity.
\<close>

locale activity_contract =
  fixes good :: "'st \<Rightarrow> 'v \<Rightarrow> bool"
    and seen :: "'v \<Rightarrow> 'w \<Rightarrow> string \<rightharpoonup> int"
    and clock :: "'st \<Rightarrow> 'w \<Rightarrow> int"
    and rec_act :: "'st \<Rightarrow> job_id \<Rightarrow> ('w, unit) call"
    and idle :: "'st \<Rightarrow> duration \<Rightarrow> ('w, job_id list) call"
    and has :: "'st \<Rightarrow> job_id \<Rightarrow> ('w, bool) call"
    and forget :: "'st \<Rightarrow> job_id \<Rightarrow> ('w, unit) call"
  assumes rec_ok: "good st V \<Longrightarrow> rec_act st j w = (Inr u, w') \<Longrightarrow>
             seen V w' = (seen V w)(job_str j \<mapsto> clock st w)"
    and rec_err: "good st V \<Longrightarrow> rec_act st j w = (Inl e, w') \<Longrightarrow>
             seen V w' \<in> {seen V w, (seen V w)(job_str j \<mapsto> clock st w)}"
    and idle_ok: "good st V \<Longrightarrow> idle st d w = (Inr js, w') \<Longrightarrow>
             distinct js \<and> (\<forall>j. j \<in> set js \<longleftrightarrow>
               (\<exists>t. seen V w (job_str j) = Some t \<and> t + int d \<le> clock st w))"
    and idle_frame: "good st V \<Longrightarrow> seen V (snd (idle st d w)) = seen V w"
    and has_ok: "good st V \<Longrightarrow> has st j w = (Inr b, w') \<Longrightarrow> b = (seen V w (job_str j) \<noteq> None)"
    and has_frame: "good st V \<Longrightarrow> seen V (snd (has st j w)) = seen V w"
    and forget_ok: "good st V \<Longrightarrow> forget st j w = (Inr u, w') \<Longrightarrow>
             seen V w' = (seen V w)(job_str j := None)"
begin

lemma idle_after_record:
  assumes "good st V" and "rec_act st j w = (Inr u, w1)" and "seen V w2 = seen V w1"
    and "idle st d w2 = (Inr js, w3)"
  shows "j \<in> set js \<longleftrightarrow> clock st w + int d \<le> clock st w2"
  using rec_ok [OF assms(1,2)] idle_ok [OF assms(1,4)] assms(3) by simp

lemma not_idle_after_forget:
  assumes "good st V" and "forget st j w = (Inr u, w1)" and "seen V w2 = seen V w1"
    and "idle st d w2 = (Inr js, w3)"
  shows "j \<notin> set js"
  using forget_ok [OF assms(1,2)] idle_ok [OF assms(1,4)] assms(3) by simp

text \<open>A failed write never makes a job look less recently used.\<close>

lemma record_error_keeps_fresh:
  assumes "good st V" and "rec_act st j w = (Inl e, w1)" and "seen V w (job_str k) = Some t"
    and "t \<le> clock st w"
  shows "\<exists>t'. seen V w1 (job_str k) = Some t' \<and> t \<le> t'"
  using rec_err [OF assms(1,2)] assms(3,4) by (auto split: if_splits)

lemma has_after_record:
  assumes "good st V" and "rec_act st j w = (Inr u, w1)" and "has st k w1 = (Inr b, w2)"
  shows "b \<longleftrightarrow> k = j \<or> seen V w (job_str k) \<noteq> None"
  using rec_ok [OF assms(1,2)] has_ok [OF assms(1,3)]
  by (cases j; cases k) auto

end

lemma wrote_Inr: "wrote V u w (Inr x, w') \<Longrightarrow> V w' = u (V w)"
  by (simp add: wrote_def)

lemma wrote_Inl: "wrote V u w (Inl e, w') \<Longrightarrow> V w' \<in> {V w, u (V w)}"
  by (auto simp: wrote_def)

lemma zset_lawsD:
  assumes "zset_laws R V"
  shows "wrote V (zset_put k m (Some sc)) w (r_zadd R k sc m w)"
    and "wrote V (zset_put k m None) w (r_zrem R k m w)"
    and "r_zrange_upto R k mx w = (Inr ms, w') \<Longrightarrow>
           distinct ms \<and> set ms = {m. \<exists>sc. zset (V w) k m = Some sc \<and> sc \<le> mx}"
    and "V (snd (r_zrange_upto R k mx w)) = V w"
    and "r_zscore R k m w = (Inr s, w') \<Longrightarrow> s = zset (V w) k m"
    and "V (snd (r_zscore R k m w)) = V w"
  using assms unfolding zset_laws_def by (simp_all only: simp_thms)+

lemma io_bind_return_state: "snd (io_bind m (\<lambda>x. io_return (f x)) w) = snd (m w)"
  by (auto simp: io_bind_def io_return_def split: prod.splits sum.splits)

lemma io_map_err_state: "snd (io_map_err f m w) = snd (m w)"
  by (auto simp: io_map_err_def split: prod.splits sum.splits)

definition activity_seen :: "('w \<Rightarrow> redis_view) \<Rightarrow> 'w \<Rightarrow> string \<rightharpoonup> int" where
  "activity_seen V w = zset (V w) ACTIVITY_KEY"

definition activity_good :: "'w redis_activity_store \<Rightarrow> ('w \<Rightarrow> redis_view) \<Rightarrow> bool" where
  "activity_good st V = zset_laws (act_client st) V"

lemma activity_seen_zset_put:
  "V w' = zset_put ACTIVITY_KEY m x (V w) \<Longrightarrow> activity_seen V w' = (activity_seen V w)(m := x)"
  by (simp add: activity_seen_def zset_put_def)

lemma activity_seen_cong: "V w' = V w \<Longrightarrow> activity_seen V w' = activity_seen V w"
  by (simp add: activity_seen_def)

interpretation act: activity_contract activity_good activity_seen now_epoch
  redis_record_activity redis_get_idle_jobs redis_has_activity redis_remove_activity
proof (unfold_locales, goal_cases)
  case (1 st V j w u w')
  then show ?case
    using zset_lawsD(1) [of "act_client st" V ACTIVITY_KEY "job_str j" "now_epoch st w" w]
    by (auto simp: redis_record_activity_def io_iff activity_good_def
        intro!: activity_seen_zset_put dest: wrote_Inr)
next
  case (2 st V j w e w')
  then show ?case
    using zset_lawsD(1) [of "act_client st" V ACTIVITY_KEY "job_str j" "now_epoch st w" w]
    by (auto simp: redis_record_activity_def io_iff activity_good_def
        zset_put_def activity_seen_def dest!: wrote_Inl)
next
  case (3 st V d w js w')
  then obtain ms w1 where
    ms: "r_zrange_upto (act_client st) ACTIVITY_KEY (now_epoch st w - int d) w = (Inr ms, w1)"
    and js: "js = map JobId ms"
    by (auto simp: redis_get_idle_jobs_def io_iff Let_def)
  have "distinct js" and "j \<in> set js \<longleftrightarrow> job_str j \<in> set ms" for j
    using zset_lawsD(3) [OF _ ms] 3(1) js by (cases j, auto simp: activity_good_def distinct_map inj_on_def)+
  then show ?case
    using zset_lawsD(3) [OF _ ms] 3(1)
    by (auto simp: activity_good_def activity_seen_def algebra_simps)
next
  case (4 st V d w)
  then show ?case
    using zset_lawsD(4) by (fastforce simp: redis_get_idle_jobs_def activity_good_def Let_def
        io_bind_return_state io_map_err_state intro: activity_seen_cong)
next
  case (5 st V j w b w')
  then show ?case
    using zset_lawsD(5) by (fastforce simp: redis_has_activity_def activity_good_def io_iff activity_seen_def)
next
  case (6 st V j w)
  then show ?case
    using zset_lawsD(6) by (fastforce simp: redis_has_activity_def activity_good_def
        io_bind_return_state io_map_err_state intro: activity_seen_cong)
next
  case (7 st V j w u w')
  then show ?case
    using zset_lawsD(2) [of "act_client st" V ACTIVITY_KEY "job_str j" w]
    by (auto simp: redis_remove_activity_def io_iff activity_good_def
        intro!: activity_seen_zset_put dest: wrote_Inr)
qed

subsection \<open>The missing-job contract\<close>

text \<open>
  The controller compares the answer of \<^verbatim>\<open>increment_not_found\<close> with a threshold, so it relies
  on the answer being the number of increments since the last clear.
\<close>

locale missing_contract =
  fixes good :: "'st \<Rightarrow> 'v \<Rightarrow> bool"
    and misses :: "'v \<Rightarrow> 'w \<Rightarrow> string \<Rightarrow> int"
    and incr :: "'st \<Rightarrow> job_id \<Rightarrow> ('w, u32) call"
    and clear :: "'st \<Rightarrow> job_id \<Rightarrow> ('w, unit) call"
  assumes incr_ok: "good st V \<Longrightarrow> incr st j w = (Inr c, w') \<Longrightarrow>
             uint c = misses V w (job_str j) + 1 \<and>
             misses V w' = (misses V w)(job_str j := misses V w (job_str j) + 1)"
    and clear_ok: "good st V \<Longrightarrow> clear st j w = (Inr u, w') \<Longrightarrow>
             misses V w' = (misses V w)(job_str j := 0)"
begin

lemma increments_from:
  assumes "good st V" and "io_repeat n (incr st j) w = (Inr cs, w')" and "misses V w (job_str j) = int m"
  shows "map unat cs = [Suc m ..< Suc (m + n)]"
  using assms(2,3)
proof (induction n arbitrary: w cs m)
  case 0
  then show ?case by (simp add: io_iff)
next
  case (Suc n)
  then obtain c w1 ds where c: "incr st j w = (Inr c, w1)" and
    ds: "io_repeat n (incr st j) w1 = (Inr ds, w')" and cs: "cs = c # ds" by (auto simp: io_iff)
  have m: "misses V w1 (job_str j) = int (Suc m)" and u: "unat c = Suc m"
    using incr_ok [OF assms(1) c] Suc.prems(2) by (simp_all add: unat_eq_nat_uint)
  have "map unat cs = Suc m # [Suc (Suc m) ..< Suc (Suc m + n)]"
    using Suc.IH [OF ds m] u by (simp only: cs list.map)
  then show ?case by (simp only: add_Suc_right add_Suc upt_conv_Cons [of "Suc m"] less_Suc_eq_le le_add1 Suc_le_mono)
qed

lemma increments_after_clear:
  assumes "good st V" and "clear st j w = (Inr u, w1)" and "io_repeat n (incr st j) w1 = (Inr cs, w2)"
  shows "map unat cs = [1 ..< Suc n]"
  using increments_from [OF assms(1,3), of 0] clear_ok [OF assms(1,2)] by simp

end

definition missing_view :: "('w \<Rightarrow> redis_view) \<Rightarrow> 'w \<Rightarrow> string \<Rightarrow> int" where
  "missing_view V w j = ctr (V w) (missing_key (JobId j))"

lemma counter_lawsD:
  assumes "counter_laws R V"
  shows "wrote V (\<lambda>v. ctr_put k (ctr v k + 1) v) w (r_eval R incr_script [k] [] w)"
    and "r_eval R incr_script [k] [] w = (Inr n, w') \<Longrightarrow> n = ctr (V w) k + 1"
    and "wrote V (ctr_put k 0) w (r_eval R del_script [k] [] w)"
  using assms unfolding counter_laws_def by (simp_all only: simp_thms)+

lemma missing_view_ctr_put:
  "V w' = ctr_put (missing_key j) n (V w) \<Longrightarrow> missing_view V w' = (missing_view V w)(job_str j := n)"
  by (cases j) (auto simp: missing_view_def ctr_put_def missing_key_def)

lemma u32_try_from_Some: "u32_try_from n = Some c \<Longrightarrow> uint c = n"
  by (auto simp: u32_try_from_def unsigned_of_int take_bit_int_eq_self split: if_splits)

interpretation mis: missing_contract counter_laws missing_view redis_increment_not_found redis_clear_not_found
proof (unfold_locales, goal_cases)
  case (1 R V j w c w')
  then obtain n where n: "r_eval R incr_script [missing_key j] [] w = (Inr n, w')" "u32_try_from n = Some c"
    by (auto simp: redis_increment_not_found_def io_iff split: option.splits)
  have "V w' = ctr_put (missing_key j) (ctr (V w) (missing_key j) + 1) (V w)"
    using counter_lawsD(1) [OF 1(1), of "missing_key j" w] n(1) by (simp add: wrote_def)
  moreover have "ctr (V w) (missing_key j) = missing_view V w (job_str j)"
    by (simp add: missing_view_def)
  ultimately show ?case
    using counter_lawsD(2) [OF 1(1) n(1)] u32_try_from_Some [OF n(2)] missing_view_ctr_put by metis
next
  case (2 R V j w u w')
  then show ?case
    using counter_lawsD(3) [of R V "missing_key j" w]
    by (auto simp: redis_clear_not_found_def io_iff intro!: missing_view_ctr_put dest: wrote_Inr)
qed

subsection \<open>The lock\<close>

lemma lock_lawsD:
  assumes "lock_laws R V L"
  shows "r_set_nx_px R k x ttl w = (Inr (Some r), w') \<Longrightarrow> L w k = None \<and> L w' k = Some x"
    and "r_set_nx_px R k x ttl w = (Inr None, w') \<Longrightarrow> L w k \<noteq> None"
    and "V (snd (r_set_nx_px R k x ttl w)) = V w"
    and "r_eval R release_script [k] [x] w = (Inr n, w') \<Longrightarrow>
           L w' k = (if L w k = Some x then None else L w k)"
    and "V (snd (r_eval R release_script [k] [x] w)) = V w"
  using assms unfolding lock_laws_def by (simp_all only: simp_thms)+

lemma redis_acquire_True:
  assumes "lock_laws (act_client st) V L" and "redis_try_acquire_lock st key ttl w = (Inr True, w')"
  shows "L w (lock_key key) = None" and "L w' (lock_key key) = Some (instance_id st)"
  using lock_lawsD(1) [OF assms(1)] assms(2)
  by (auto simp: redis_try_acquire_lock_def io_iff)

lemma redis_release_effect:
  assumes "lock_laws (act_client st) V L" and "redis_release_lock st key w = (Inr u, w')"
  shows "L w' (lock_key key) =
           (if L w (lock_key key) = Some (instance_id st) then None else L w (lock_key key))"
  using lock_lawsD(4) [OF assms(1)] assms(2)
  by (auto simp: redis_release_lock_def io_iff)

end
