(* ===== verification/Mem_Redis.thy ===== *)
theory Mem_Redis
  imports Store "HOL-Library.AList"
begin

text \<open>
  A concrete in-memory server with a clock. It satisfies \<open>redis_laws\<close>, so those laws can hold,
  and it is what the witnesses of the store properties run on.
\<close>

record mem_world =
  m_zset :: "((string \<times> string) \<times> int) list"
  m_hash :: "((string \<times> string) \<times> string) list"
  m_ctr :: "(string \<times> int) list"
  m_lock :: "(string \<times> string) list"
  m_now :: nat

definition mem_empty :: mem_world where
  "mem_empty = \<lparr>m_zset = [], m_hash = [], m_ctr = [], m_lock = [], m_now = 0\<rparr>"

definition counter_of :: "(string \<times> int) list \<Rightarrow> string \<Rightarrow> int" where
  "counter_of xs k = (case map_of xs k of None \<Rightarrow> 0 | Some n \<Rightarrow> n)"

definition mem_view :: "'a mem_world_scheme \<Rightarrow> redis_view" where
  "mem_view w = \<lparr>zset = (\<lambda>k m. map_of (m_zset w) (k, m)), hash = (\<lambda>k f. map_of (m_hash w) (k, f)),
                 ctr = counter_of (m_ctr w)\<rparr>"

definition mem_locks :: "'a mem_world_scheme \<Rightarrow> string \<rightharpoonup> string" where
  "mem_locks w = map_of (m_lock w)"

text \<open>The second components of the keys that start with \<open>k\<close>, each once.\<close>

definition subkeys :: "string \<Rightarrow> ((string \<times> string) \<times> 'v) list \<Rightarrow> string list" where
  "subkeys k xs = remdups (map (snd \<circ> fst) (filter (\<lambda>p. fst (fst p) = k) xs))"

definition mem_eval :: "string \<Rightarrow> string list \<Rightarrow> string list \<Rightarrow> ('a mem_world_scheme, string, int) io" where
  "mem_eval script keys args w =
     (case (keys, args) of
        ([k], [x]) \<Rightarrow>
          if script = release_script \<and> mem_locks w k = Some x
          then (Inr 1, w\<lparr>m_lock := AList.delete k (m_lock w)\<rparr>) else (Inr 0, w)
      | ([k], []) \<Rightarrow>
          if script = incr_script
          then (Inr (counter_of (m_ctr w) k + 1),
                w\<lparr>m_ctr := (k, counter_of (m_ctr w) k + 1) # m_ctr w\<rparr>)
          else (Inr 1, w\<lparr>m_ctr := (k, 0) # m_ctr w\<rparr>)
      | _ \<Rightarrow> (Inl ''wrong number of keys'', w))"

definition mem_redis :: "'a mem_world_scheme redis" where
  "mem_redis =
     \<lparr>r_zadd = (\<lambda>k sc m w. (Inr (), w\<lparr>m_zset := ((k, m), sc) # m_zset w\<rparr>)),
      r_zrange_upto = (\<lambda>k mx w. (Inr (filter (\<lambda>m. the (map_of (m_zset w) (k, m)) \<le> mx)
                                           (subkeys k (m_zset w))), w)),
      r_zscore = (\<lambda>k m w. (Inr (map_of (m_zset w) (k, m)), w)),
      r_zrem = (\<lambda>k m w. (Inr 1, w\<lparr>m_zset := AList.delete (k, m) (m_zset w)\<rparr>)),
      r_set_nx_px = (\<lambda>k x ttl w. if mem_locks w k = None
         then (Inr (Some ''OK''), w\<lparr>m_lock := (k, x) # m_lock w\<rparr>) else (Inr None, w)),
      r_eval = mem_eval,
      r_hset = (\<lambda>k f x w. (Inr (), w\<lparr>m_hash := ((k, f), x) # m_hash w\<rparr>)),
      r_hget = (\<lambda>k f w. (Inr (map_of (m_hash w) (k, f)), w)),
      r_hgetall = (\<lambda>k w. (Inr (map (\<lambda>f. (f, the (map_of (m_hash w) (k, f)))) (subkeys k (m_hash w))), w)),
      r_hdel = (\<lambda>k f w. (Inr 1, w\<lparr>m_hash := AList.delete (k, f) (m_hash w)\<rparr>))\<rparr>"

lemmas mem_simps = mem_redis_def mem_view_def mem_locks_def mem_eval_def wrote_def zset_put_def
  hash_put_def ctr_put_def counter_of_def delete_conv'

lemma set_subkeys: "m \<in> set (subkeys k xs) \<longleftrightarrow> map_of xs (k, m) \<noteq> None"
  by (force simp: subkeys_def map_of_eq_None_iff)

lemma distinct_subkeys [simp]: "distinct (subkeys k xs)"
  by (simp add: subkeys_def)

lemma map_of_subkeys:
  "map_of (map (\<lambda>f. (f, the (map_of xs (k, f)))) (subkeys k xs)) = (\<lambda>f. map_of xs (k, f))"
proof
  fix f
  show "map_of (map (\<lambda>f. (f, the (map_of xs (k, f)))) (subkeys k xs)) f = map_of xs (k, f)"
    using set_subkeys [of f k xs] by (auto simp: map_of_map_restrict restrict_map_def)
qed

lemma mem_zset_laws: "zset_laws mem_redis mem_view"
  by (auto simp: zset_laws_def mem_simps set_subkeys fun_upd_def fun_eq_iff)

lemma mem_hash_laws: "hash_laws mem_redis mem_view"
  by (auto simp: hash_laws_def mem_simps map_of_subkeys fun_upd_def fun_eq_iff comp_def)

lemma scripts_distinct [simp]: "del_script \<noteq> incr_script"
  by (simp add: del_script_def incr_script_def)

lemma mem_counter_laws: "counter_laws mem_redis mem_view"
  by (auto simp: counter_laws_def mem_simps fun_eq_iff)

lemma mem_lock_laws: "lock_laws mem_redis mem_view mem_locks"
  by (auto simp: lock_laws_def mem_simps split: if_splits)

lemma mem_redis_laws: "redis_laws mem_redis mem_view mem_locks"
  by (simp add: redis_laws_def mem_zset_laws mem_hash_laws mem_counter_laws mem_lock_laws)

definition mem_store :: "string \<Rightarrow> 'a mem_world_scheme redis_activity_store" where
  "mem_store me = \<lparr>act_client = mem_redis, instance_id = me, system_now = m_now\<rparr>"

end
