(* ===== verification/Store_Properties.thy ===== *)
theory Store_Properties
  imports Mem_Redis
begin

text \<open>
  The properties of the activity store, the distributed lock and the missing-job tracker,
  obtained from the contracts of \<^verbatim>\<open>Store\<close>, with witnesses on the in-memory server.
\<close>


lemmas mem_run = mem_redis_def mem_store_def mem_empty_def mem_eval_def subkeys_def mem_locks_def
  counter_of_def redis_record_activity_def redis_get_idle_jobs_def now_epoch_def
  redis_remove_activity_def redis_try_acquire_lock_def redis_release_lock_def lock_key_def
  redis_clear_not_found_def redis_increment_not_found_def io_bind_def io_return_def
  io_map_err_def


text \<open>
  A job whose activity was removed after a scale-down is not reported idle again until it is
  used again.
\<close>

theorem removed_not_idle:
  assumes "zset_laws (act_client st) V" and "redis_remove_activity st j w = (Inr (), w1)"
    and "V w2 = V w1" and "redis_get_idle_jobs st threshold w2 = (Inr js, w3)"
  shows "j \<notin> set js"
  using act.not_idle_after_forget [of st V j w "()" w1 w2 threshold js w3] assms
  by (simp add: activity_good_def activity_seen_def)

theorem removed_not_idle_witness:
  "\<exists>w1 w3. zset_laws (act_client (mem_store ''n1'' :: mem_world redis_activity_store)) mem_view \<and>
     redis_remove_activity (mem_store ''n1'') (JobId ''j'')
       (mem_empty\<lparr>m_zset := [((ACTIVITY_KEY, ''j''), 7), ((ACTIVITY_KEY, ''k''), 1)]\<rparr>) = (Inr (), w1) \<and>
     redis_get_idle_jobs (mem_store ''n1'') 3 (w1\<lparr>m_now := 10\<rparr>) = (Inr [JobId ''k''], w3) \<and>
     JobId ''j'' \<notin> set [JobId ''k'']"
proof -
  let ?st = "mem_store ''n1'' :: mem_world redis_activity_store"
  let ?w1 = "mem_empty\<lparr>m_zset := [((ACTIVITY_KEY, ''k''), 1)]\<rparr>"
  have l: "zset_laws (act_client ?st) mem_view" by (simp add: mem_store_def mem_zset_laws)
  have r: "redis_remove_activity ?st (JobId ''j'')
      (mem_empty\<lparr>m_zset := [((ACTIVITY_KEY, ''j''), 7), ((ACTIVITY_KEY, ''k''), 1)]\<rparr>) = (Inr (), ?w1)"
    by (simp add: mem_run)
  have v: "mem_view (?w1\<lparr>m_now := 10\<rparr>) = mem_view ?w1" by (simp add: mem_view_def)
  have g: "redis_get_idle_jobs ?st 3 (?w1\<lparr>m_now := 10\<rparr>) = (Inr [JobId ''k''], ?w1\<lparr>m_now := 10\<rparr>)"
    by (simp add: mem_run)
  show ?thesis using l r g removed_not_idle [OF l r v g] by blast
qed

text \<open>
  The lock is exclusive and owned. While one instance holds the lock, another instance can
  neither acquire it nor free it by releasing it; once the holder releases it, it is free.
\<close>

theorem lock_exclusive:
  assumes "lock_laws (act_client a) V L" and "lock_laws (act_client b) V L"
    and "instance_id a \<noteq> instance_id b"
    and "redis_try_acquire_lock a key ttl w = (Inr True, w1)"
    and "redis_release_lock b key w1 = (Inr (), w2)"
    and "redis_release_lock a key w2 = (Inr (), w3)"
  shows "fst (redis_try_acquire_lock b key ttl' w1) \<noteq> Inr True \<and>
         fst (redis_try_acquire_lock b key ttl' w2) \<noteq> Inr True \<and>
         L w2 (lock_key key) = Some (instance_id a) \<and> L w3 (lock_key key) = None"
proof -
  have held: "L w1 (lock_key key) = Some (instance_id a)"
    by (rule redis_acquire_True [OF assms(1,4)])
  then have kept: "L w2 (lock_key key) = Some (instance_id a)"
    using redis_release_effect [OF assms(2,5)] assms(3) by auto
  have no: "fst (redis_try_acquire_lock b key ttl' x) \<noteq> Inr True"
    if "L x (lock_key key) = Some (instance_id a)" for x
    using redis_acquire_True(1) [OF assms(2), of key ttl' x "snd (redis_try_acquire_lock b key ttl' x)"]
      that by (metis option.distinct(1) prod.collapse)
  show ?thesis using no [OF held] no [OF kept] kept redis_release_effect [OF assms(1,6)] by simp
qed

theorem lock_exclusive_witness:
  "\<exists>w1 w2 w3. instance_id (mem_store ''n1'' :: mem_world redis_activity_store) \<noteq>
       instance_id (mem_store ''n2'' :: mem_world redis_activity_store) \<and>
     redis_try_acquire_lock (mem_store ''n1'') ''scale-down'' 5 mem_empty = (Inr True, w1) \<and>
     redis_release_lock (mem_store ''n2'') ''scale-down'' w1 = (Inr (), w2) \<and>
     redis_release_lock (mem_store ''n1'') ''scale-down'' w2 = (Inr (), w3) \<and>
     fst (redis_try_acquire_lock (mem_store ''n2'') ''scale-down'' 5 w2) \<noteq> Inr True \<and>
     mem_locks w3 (lock_key ''scale-down'') = None"
proof -
  let ?a = "mem_store ''n1'' :: mem_world redis_activity_store"
  let ?b = "mem_store ''n2'' :: mem_world redis_activity_store"
  let ?w1 = "mem_empty\<lparr>m_lock := [(lock_key ''scale-down'', ''n1'')]\<rparr>"
  have l: "lock_laws (act_client ?a) mem_view mem_locks" "lock_laws (act_client ?b) mem_view mem_locks"
    by (simp_all add: mem_store_def mem_lock_laws)
  have i: "instance_id ?a \<noteq> instance_id ?b" by (simp add: mem_store_def)
  have w1: "redis_try_acquire_lock ?a ''scale-down'' 5 mem_empty = (Inr True, ?w1)"
    and w2: "redis_release_lock ?b ''scale-down'' ?w1 = (Inr (), ?w1)"
    and w3: "redis_release_lock ?a ''scale-down'' ?w1 = (Inr (), mem_empty\<lparr>m_lock := []\<rparr>)"
    by (simp_all add: mem_run)
  show ?thesis using i w1 w2 w3 lock_exclusive [OF l i w1 w2 w3, of 5] by blast
qed

text \<open>
  The missing-job counter counts. After a clear, the answers of consecutive increments are
  one, two, three and so on: the threshold comparison sees exactly the number of consecutive
  misses.
\<close>

theorem misses_counted:
  assumes "counter_laws R V" and "redis_clear_not_found R j w = (Inr (), w1)"
    and "io_repeat n (redis_increment_not_found R j) w1 = (Inr cs, w2)"
  shows "map unat cs = [1 ..< Suc n]"
  by (rule mis.increments_after_clear [OF assms])

theorem misses_counted_witness:
  "\<exists>cs w1 w2. counter_laws (mem_redis :: mem_world redis) mem_view \<and>
     redis_clear_not_found mem_redis (JobId ''j'') mem_empty = (Inr (), w1) \<and>
     io_repeat 3 (redis_increment_not_found mem_redis (JobId ''j'')) w1 = (Inr cs, w2) \<and> map unat cs = [1 ..< Suc 3]"
proof -
  let ?k = "missing_key (JobId ''j'')"
  let ?w1 = "mem_empty\<lparr>m_ctr := [(?k, 0)]\<rparr>"
  have c: "redis_clear_not_found mem_redis (JobId ''j'') mem_empty = (Inr (), ?w1)"
    by (simp add: mem_run)
  have g: "io_repeat 3 (redis_increment_not_found mem_redis (JobId ''j'')) ?w1 =
      (Inr [1, 2, 3], mem_empty\<lparr>m_ctr := [(?k, 3), (?k, 2), (?k, 1), (?k, 0)]\<rparr>)"
    by (simp add: numeral_3_eq_3 mem_run u32_try_from_def)
  show ?thesis using c g mem_counter_laws misses_counted [OF mem_counter_laws c g] by blast
qed

text \<open>
  A count that does not fit 32 bits is an error, not a small number. When the server's
  counter is at \<open>2 ^ 32 - 1\<close> or more, the increment never answers with a count.
\<close>

theorem misses_overflow:
  assumes "counter_laws R V" and "2 ^ 32 - 1 \<le> ctr (V w) (missing_key j)"
  shows "\<exists>m w'. redis_increment_not_found R j w = (Inl (Store m), w')"
proof (cases "r_eval R incr_script [missing_key j] [] w")
  case (Pair r w')
  show ?thesis
  proof (cases r)
    case (Inl e)
    with Pair show ?thesis by (simp add: redis_increment_not_found_def io_bind_def io_map_err_def)
  next
    case (Inr n)
    then have "u32_try_from n = None"
      using counter_lawsD(2) [OF assms(1), of "missing_key j" w n w'] Pair assms(2)
      by (simp add: u32_try_from_def)
    with Pair Inr show ?thesis
      by (simp add: redis_increment_not_found_def io_bind_def io_map_err_def io_fail_def)
  qed
qed

theorem misses_overflow_witness:
  "2 ^ 32 - 1 \<le> ctr (mem_view (mem_empty\<lparr>m_ctr := [(missing_key (JobId ''j''), 2 ^ 32 - 1)]\<rparr>))
                 (missing_key (JobId ''j'')) \<and>
   (\<exists>m w'. redis_increment_not_found mem_redis (JobId ''j'')
             (mem_empty\<lparr>m_ctr := [(missing_key (JobId ''j''), 2 ^ 32 - 1)]\<rparr>) = (Inl (Store m), w'))"
proof -
  let ?w = "mem_empty\<lparr>m_ctr := [(missing_key (JobId ''j''), 2 ^ 32 - 1)]\<rparr>"
  have b: "2 ^ 32 - 1 \<le> ctr (mem_view ?w) (missing_key (JobId ''j''))"
    by (simp add: mem_view_def counter_of_def)
  show ?thesis using b misses_overflow [OF mem_counter_laws b] by blast
qed

end
