(* ===== verification/Registry.thy ===== *)
theory Registry
  imports Store
begin

text \<open>
  The job registry of \<^verbatim>\<open>crates/nscale-store/src/registry.rs\<close>: two Redis hashes, by job and by
  service, in front of an optional durable registry.

  The JSON codec (serde) and the durable registry are parameters. The contract of the durable
  registry is the locale \<open>durable_contract\<close>, and the lemmas on the registry that need it are
  proved inside. The order in which \<^verbatim>\<open>hgetall\<close> lists the entries is whatever the server's
  answer has.
\<close>

definition REGISTRY_BY_JOB_KEY :: string where
  "REGISTRY_BY_JOB_KEY = ''nscale:jobs''"

definition REGISTRY_BY_SERVICE_KEY :: string where
  "REGISTRY_BY_SERVICE_KEY = ''nscale:jobs:services''"

lemma registry_keys_distinct [simp]:
  "REGISTRY_BY_JOB_KEY \<noteq> REGISTRY_BY_SERVICE_KEY" "REGISTRY_BY_SERVICE_KEY \<noteq> REGISTRY_BY_JOB_KEY"
  by (simp_all add: REGISTRY_BY_JOB_KEY_def REGISTRY_BY_SERVICE_KEY_def)

record reg_codec =
  enc :: "job_registration \<Rightarrow> string + string"
  dec :: "string \<Rightarrow> string + job_registration"

text \<open>What the code relies on: encoding succeeds and can be decoded again.\<close>

definition codec_ok :: "reg_codec \<Rightarrow> bool" where
  "codec_ok C \<longleftrightarrow> (\<forall>r. \<exists>x. enc C r = Inr x \<and> dec C x = Inr r)"

record 'w job_registry =
  reg_client :: "'w redis"
  reg_codec :: reg_codec
  durable :: "'w durable_registry option"

definition registry_new :: "'w redis \<Rightarrow> reg_codec \<Rightarrow> 'w job_registry" where
  "registry_new c k = \<lparr>reg_client = c, reg_codec = k, durable = None\<rparr>"

definition with_durable :: "'w redis \<Rightarrow> reg_codec \<Rightarrow> 'w durable_registry \<Rightarrow> 'w job_registry" where
  "with_durable c k d = \<lparr>reg_client = c, reg_codec = k, durable = Some d\<rparr>"

definition encode_registration :: "reg_codec \<Rightarrow> job_registration \<Rightarrow> string result" where
  "encode_registration C reg = (case enc C reg of Inl e \<Rightarrow> Inl (Store e) | Inr x \<Rightarrow> Inr x)"

text \<open>\<^verbatim>\<open>serde_json::from_str(...)?\<close>, whose error converts to \<open>Json\<close>.\<close>

definition from_str :: "reg_codec \<Rightarrow> string \<Rightarrow> job_registration result" where
  "from_str C x = (case dec C x of Inl e \<Rightarrow> Inl (Json e) | Inr r \<Rightarrow> Inr r)"

definition cache_registration :: "'w job_registry \<Rightarrow> job_registration \<Rightarrow> ('w, unit) call" where
  "cache_registration R reg =
     io_bind (io_lift (encode_registration (reg_codec R) reg)) (\<lambda>v.
     io_bind (io_map_err Store (r_hset (reg_client R) REGISTRY_BY_JOB_KEY (job_str (job_id reg)) v)) (\<lambda>_.
     io_map_err Store
       (r_hset (reg_client R) REGISTRY_BY_SERVICE_KEY (service_str (service_name reg)) v)))"

text \<open>The body of the loop over the service entries.\<close>

definition evict_service_entry :: "'w job_registry \<Rightarrow> job_id \<Rightarrow> string \<times> string \<Rightarrow> ('w, unit) call" where
  "evict_service_entry R j entry =
     io_bind (io_lift (from_str (reg_codec R) (snd entry))) (\<lambda>reg.
       if job_id reg = j
       then io_bind (io_map_err Store (r_hdel (reg_client R) REGISTRY_BY_SERVICE_KEY (fst entry)))
              (\<lambda>_. io_return ())
       else io_return ())"

definition remove_cached_registration :: "'w job_registry \<Rightarrow> job_id \<Rightarrow> ('w, unit) call" where
  "remove_cached_registration R j =
     io_bind (io_map_err Store (r_hgetall (reg_client R) REGISTRY_BY_SERVICE_KEY)) (\<lambda>service_entries.
     io_bind (io_each (evict_service_entry R j) service_entries) (\<lambda>_.
     io_bind (io_map_err Store (r_hdel (reg_client R) REGISTRY_BY_JOB_KEY (job_str j)))
       (\<lambda>_. io_return ())))"

definition sync_from_durable :: "'w job_registry \<Rightarrow> ('w, nat) call" where
  "sync_from_durable R =
     (case durable R of
        None \<Rightarrow> io_return 0
      | Some d \<Rightarrow> io_bind (durable_list_all d) (\<lambda>regs.
          io_bind (io_each (cache_registration R) regs) (\<lambda>_. io_return (length regs))))"

definition register :: "'w job_registry \<Rightarrow> job_registration \<Rightarrow> ('w, unit) call" where
  "register R reg =
     io_bind (case durable R of None \<Rightarrow> io_return () | Some d \<Rightarrow> store_registration d reg)
       (\<lambda>_. cache_registration R reg)"

definition get_from_hash :: "'w job_registry \<Rightarrow> string \<Rightarrow> string \<Rightarrow> ('w, job_registration option) call" where
  "get_from_hash R hash_key field =
     io_bind (io_map_err Store (r_hget (reg_client R) hash_key field)) (\<lambda>value.
       case value of
         Some v \<Rightarrow> io_bind (io_lift (from_str (reg_codec R) v)) (\<lambda>reg. io_return (Some reg))
       | None \<Rightarrow> io_return None)"

text \<open>The part of \<^verbatim>\<open>get\<close> below the two cache lookups.\<close>

definition durable_hit :: "'w durable_registry \<Rightarrow> job_id \<Rightarrow> ('w, job_registration option) call" where
  "durable_hit d lookup =
     io_bind (get_by_job_id d lookup) (\<lambda>r. case r of
       Some reg \<Rightarrow> io_return (Some reg)
     | None \<Rightarrow> get_by_service_name d (ServiceName (job_str lookup)))"

definition get_durable :: "'w job_registry \<Rightarrow> job_id \<Rightarrow> ('w, job_registration option) call" where
  "get_durable R lookup =
     (case durable R of
        None \<Rightarrow> io_return None
      | Some d \<Rightarrow>
          io_bind (durable_hit d lookup) (\<lambda>hit.
          case hit of
            Some reg \<Rightarrow> io_bind (cache_registration R reg) (\<lambda>_. io_return (Some reg))
          | None \<Rightarrow> io_return None))"

definition get :: "'w job_registry \<Rightarrow> job_id \<Rightarrow> ('w, job_registration option) call" where
  "get R lookup =
     io_bind (get_from_hash R REGISTRY_BY_JOB_KEY (job_str lookup)) (\<lambda>r. case r of
       Some reg \<Rightarrow> io_return (Some reg)
     | None \<Rightarrow> io_bind (get_from_hash R REGISTRY_BY_SERVICE_KEY (job_str lookup)) (\<lambda>r. case r of
         Some reg \<Rightarrow> io_return (Some reg)
       | None \<Rightarrow> get_durable R lookup))"

text \<open>
  Removing the durable registration first; when the cache eviction then fails, the registration
  found at the start is stored again, and an error of that is only logged.
\<close>

definition deregister :: "'w job_registry \<Rightarrow> job_id \<Rightarrow> ('w, unit) call" where
  "deregister R j =
     io_bind (get R j) (\<lambda>existing.
       case durable R of
         Some d \<Rightarrow> io_bind (remove_registration d j) (\<lambda>_ w.
           case remove_cached_registration R j w of
             (Inr _, w') \<Rightarrow> (Inr (), w')
           | (Inl err, w') \<Rightarrow>
               (Inl err, case existing of
                           Some reg \<Rightarrow> snd (store_registration d reg w')
                         | None \<Rightarrow> w'))
       | None \<Rightarrow> remove_cached_registration R j)"

fun decode_all :: "reg_codec \<Rightarrow> (string \<times> string) list \<Rightarrow> job_registration list result" where
  "decode_all C [] = Inr []"
| "decode_all C (e # es) =
     (case from_str C (snd e) of
        Inl err \<Rightarrow> Inl err
      | Inr reg \<Rightarrow> (case decode_all C es of Inl err \<Rightarrow> Inl err | Inr regs \<Rightarrow> Inr (reg # regs)))"

definition list_all_registrations :: "'w job_registry \<Rightarrow> ('w, job_registration list) call" where
  "list_all_registrations R =
     io_bind (io_map_err Store (r_hgetall (reg_client R) REGISTRY_BY_SERVICE_KEY)) (\<lambda>es.
     io_bind (if es = [] then io_map_err Store (r_hgetall (reg_client R) REGISTRY_BY_JOB_KEY)
              else io_return es) (\<lambda>entries.
       if entries = [] then
         (case durable R of
            None \<Rightarrow> io_return []
          | Some d \<Rightarrow> io_bind (durable_list_all d) (\<lambda>regs.
              io_bind (io_each (cache_registration R) regs) (\<lambda>_. io_return regs)))
       else io_lift (decode_all (reg_codec R) entries)))"

subsection \<open>The cache as two maps\<close>

definition decoded :: "reg_codec \<Rightarrow> string option \<Rightarrow> job_registration option" where
  "decoded C x = (case x of None \<Rightarrow> None | Some v \<Rightarrow> (case dec C v of Inl _ \<Rightarrow> None | Inr r \<Rightarrow> Some r))"

lemma decoded_None [simp]: "decoded C None = None"
  by (simp add: decoded_def)

definition cached_jobs :: "reg_codec \<Rightarrow> redis_view \<Rightarrow> string \<rightharpoonup> job_registration" where
  "cached_jobs C v k = decoded C (hash v REGISTRY_BY_JOB_KEY k)"

definition cached_services :: "reg_codec \<Rightarrow> redis_view \<Rightarrow> string \<rightharpoonup> job_registration" where
  "cached_services C v k = decoded C (hash v REGISTRY_BY_SERVICE_KEY k)"

text \<open>The entries of other jobs.\<close>

definition without_job :: "job_id \<Rightarrow> (string \<rightharpoonup> job_registration) \<Rightarrow> string \<rightharpoonup> job_registration" where
  "without_job j S s = (case S s of None \<Rightarrow> None | Some r \<Rightarrow> if job_id r = j then None else Some r)"

lemma without_job_other: "without_job j S s = Some r \<Longrightarrow> S s = Some r \<and> job_id r \<noteq> j"
  by (auto simp: without_job_def split: option.splits if_splits)

lemma hash_lawsD:
  assumes "hash_laws R V"
  shows "wrote V (hash_put k f (Some x)) w (r_hset R k f x w)"
    and "wrote V (hash_put k f None) w (r_hdel R k f w)"
    and "r_hget R k f w = (Inr y, w') \<Longrightarrow> y = hash (V w) k f"
    and "V (snd (r_hget R k f w)) = V w"
    and "r_hgetall R k w = (Inr xs, w') \<Longrightarrow> distinct (map fst xs) \<and> map_of xs = hash (V w) k"
    and "V (snd (r_hgetall R k w)) = V w"
  using assms unfolding hash_laws_def by (simp_all only: simp_thms)+

lemma hset_ok: "hash_laws R V \<Longrightarrow> r_hset R k f x w = (Inr u, w') \<Longrightarrow> V w' = hash_put k f (Some x) (V w)"
  using hash_lawsD(1) [of R V k f x w] by (auto dest: wrote_Inr)

lemma hdel_ok: "hash_laws R V \<Longrightarrow> r_hdel R k f w = (Inr u, w') \<Longrightarrow> V w' = hash_put k f None (V w)"
  using hash_lawsD(2) [of R V k f w] by (auto dest: wrote_Inr)

lemma hget_ok:
  assumes "hash_laws R V" and "r_hget R k f w = (Inr y, w')"
  shows "y = hash (V w) k f \<and> V w' = V w"
  using hash_lawsD(3) [OF assms] hash_lawsD(4) [OF assms(1), of k f w] assms(2) by simp_all

lemma hgetall_ok:
  assumes "hash_laws R V" and "r_hgetall R k w = (Inr xs, w')"
  shows "distinct (map fst xs)" and "map_of xs = hash (V w) k" and "V w' = V w"
  using hash_lawsD(5) [OF assms] hash_lawsD(6) [OF assms(1), of k w] assms(2) by simp_all

lemma cache_registration_ok:
  assumes "hash_laws (reg_client R) V" and "codec_ok (reg_codec R)"
    and "cache_registration R reg w = (Inr u, w')"
  shows "cached_jobs (reg_codec R) (V w') = (cached_jobs (reg_codec R) (V w))(job_str (job_id reg) \<mapsto> reg)"
    and "cached_services (reg_codec R) (V w') =
           (cached_services (reg_codec R) (V w))(service_str (service_name reg) \<mapsto> reg)"
proof -
  obtain x w1 where x: "enc (reg_codec R) reg = Inr x" "dec (reg_codec R) x = Inr reg"
    and w1: "r_hset (reg_client R) REGISTRY_BY_JOB_KEY (job_str (job_id reg)) x w = (Inr (), w1)"
    and w': "r_hset (reg_client R) REGISTRY_BY_SERVICE_KEY (service_str (service_name reg)) x w1 = (Inr u, w')"
    using assms(2,3) unfolding codec_ok_def cache_registration_def encode_registration_def
    by (auto simp: io_iff split: sum.splits) (metis sum.inject(2))
  show "cached_jobs (reg_codec R) (V w') = (cached_jobs (reg_codec R) (V w))(job_str (job_id reg) \<mapsto> reg)"
    and "cached_services (reg_codec R) (V w') =
           (cached_services (reg_codec R) (V w))(service_str (service_name reg) \<mapsto> reg)"
    using hset_ok [OF assms(1) w1] hset_ok [OF assms(1) w'] x(2)
    by (auto simp: cached_jobs_def cached_services_def hash_put_def decoded_def fun_eq_iff)
qed

lemma from_str_Inr: "from_str C x = Inr r \<longleftrightarrow> dec C x = Inr r"
  by (auto simp: from_str_def split: sum.splits)

text \<open>The effect of the eviction loop on the server's data.\<close>

definition evict_entry_view :: "reg_codec \<Rightarrow> job_id \<Rightarrow> string \<times> string \<Rightarrow> redis_view \<Rightarrow> redis_view" where
  "evict_entry_view C j e v =
     (case dec C (snd e) of
        Inl _ \<Rightarrow> v
      | Inr r \<Rightarrow> if job_id r = j then hash_put REGISTRY_BY_SERVICE_KEY (fst e) None v else v)"

lemma evict_one:
  assumes "hash_laws (reg_client R) V" and "evict_service_entry R j e w = (Inr u, w1)"
  shows "V w1 = evict_entry_view (reg_codec R) j e (V w)"
  using assms(2)
  by (auto simp: io_iff evict_service_entry_def from_str_Inr evict_entry_view_def
      dest!: hdel_ok [OF assms(1)] split: if_splits)

lemma evict_loop:
  assumes "hash_laws (reg_client R) V"
  shows "io_each (evict_service_entry R j) es w = (Inr u, w') \<Longrightarrow>
         V w' = fold (evict_entry_view (reg_codec R) j) es (V w)"
  by (induction es arbitrary: w) (auto simp: io_iff dest!: evict_one [OF assms])

lemma hash_evict_entry_view:
  "hash (evict_entry_view C j e v) k f =
     (if k = REGISTRY_BY_SERVICE_KEY \<and> f = fst e \<and> (\<exists>r. dec C (snd e) = Inr r \<and> job_id r = j)
      then None else hash v k f)"
  by (auto simp: evict_entry_view_def hash_put_def split: sum.splits)

lemma hash_evict_loop:
  "hash (fold (evict_entry_view C j) es v) k f =
     (if k = REGISTRY_BY_SERVICE_KEY \<and> (\<exists>x r. (f, x) \<in> set es \<and> dec C x = Inr r \<and> job_id r = j)
      then None else hash v k f)"
  by (induction es arbitrary: v) (auto simp: hash_evict_entry_view)

lemma remove_cached_ok:
  assumes "hash_laws (reg_client R) V" and "remove_cached_registration R j w = (Inr u, w')"
  shows "cached_jobs (reg_codec R) (V w') = (cached_jobs (reg_codec R) (V w))(job_str j := None)"
    and "cached_services (reg_codec R) (V w') = without_job j (cached_services (reg_codec R) (V w))"
proof -
  obtain es w1 w2 n where es: "r_hgetall (reg_client R) REGISTRY_BY_SERVICE_KEY w = (Inr es, w1)"
    and l: "io_each (evict_service_entry R j) es w1 = (Inr (), w2)"
    and d: "r_hdel (reg_client R) REGISTRY_BY_JOB_KEY (job_str j) w2 = (Inr n, w')"
    using assms(2) by (auto simp: remove_cached_registration_def io_iff)
  note es' = hgetall_ok [OF assms(1) es]
  have mem: "(f, v) \<in> set es \<longleftrightarrow> hash (V w) REGISTRY_BY_SERVICE_KEY f = Some v" for f v
    using es'(1,2) by (metis map_of_eq_Some_iff)
  have w': "V w' = hash_put REGISTRY_BY_JOB_KEY (job_str j) None (V w2)" by (rule hdel_ok [OF assms(1) d])
  have w2: "hash (V w2) k f =
     (if k = REGISTRY_BY_SERVICE_KEY \<and> (\<exists>x r. hash (V w) k f = Some x \<and> dec (reg_codec R) x = Inr r \<and> job_id r = j)
      then None else hash (V w) k f)" for k f
    using evict_loop [OF assms(1) l] es'(3) by (auto simp: hash_evict_loop mem)
  show "cached_jobs (reg_codec R) (V w') = (cached_jobs (reg_codec R) (V w))(job_str j := None)"
    by (simp add: w' w2 cached_jobs_def hash_put_def fun_eq_iff)
  show "cached_services (reg_codec R) (V w') = without_job j (cached_services (reg_codec R) (V w))"
  proof
    fix f
    show "cached_services (reg_codec R) (V w') f = without_job j (cached_services (reg_codec R) (V w)) f"
      by (cases "hash (V w) REGISTRY_BY_SERVICE_KEY f")
         (simp_all add: w' w2 cached_services_def without_job_def hash_put_def decoded_def
           split: sum.splits)
  qed
qed

lemma get_from_hash_ok:
  assumes "hash_laws (reg_client R) V" and "get_from_hash R k f w = (Inr y, w')"
  shows "y = decoded (reg_codec R) (hash (V w) k f)" and "V w' = V w"
  using assms(2)
  by (auto simp: get_from_hash_def decoded_def io_iff from_str_Inr dest!: hget_ok [OF assms(1)]
      split: option.splits)

lemma get_ok_cases:
  assumes "hash_laws (reg_client R) V" and "get R l w = (Inr y, w')"
  obtains (job) "y \<noteq> None" "y = cached_jobs (reg_codec R) (V w) (job_str l)" "V w' = V w"
    | (service) "y \<noteq> None" "cached_jobs (reg_codec R) (V w) (job_str l) = None"
        "y = cached_services (reg_codec R) (V w) (job_str l)" "V w' = V w"
    | (miss) w1 w2 where "cached_jobs (reg_codec R) (V w) (job_str l) = None"
        "cached_services (reg_codec R) (V w) (job_str l) = None" "V w2 = V w"
        "get_from_hash R REGISTRY_BY_JOB_KEY (job_str l) w = (Inr None, w1)"
        "get_from_hash R REGISTRY_BY_SERVICE_KEY (job_str l) w1 = (Inr None, w2)"
        "get_durable R l w2 = (Inr y, w')"
proof -
  obtain a w1 where a: "get_from_hash R REGISTRY_BY_JOB_KEY (job_str l) w = (Inr a, w1)"
    using assms(2) by (auto simp: get_def io_iff)
  note a' = get_from_hash_ok [OF assms(1) a, folded cached_jobs_def]
  show thesis
  proof (cases a)
    case (Some r)
    then have "y = a" "w' = w1" using a assms(2) by (simp_all add: get_def io_bind_def io_return_def)
    then show thesis using a' Some by (intro job) (simp_all, metis)
  next
    case None
    then obtain b w2 where b: "get_from_hash R REGISTRY_BY_SERVICE_KEY (job_str l) w1 = (Inr b, w2)"
      using assms(2) a by (auto simp: get_def io_iff)
    note b' = get_from_hash_ok [OF assms(1) b, unfolded a'(2), folded cached_services_def]
    show thesis
    proof (cases b)
      case (Some r)
      then have "y = b" "w' = w2"
        using a b None assms(2) by (simp_all add: get_def io_bind_def io_return_def)
      then show thesis using a' b' None Some by (intro service) (simp_all, metis)
    next
      case n: None
      then have "get_durable R l w2 = (Inr y, w')"
        using a b None assms(2) by (simp add: get_def io_bind_def)
      then show thesis using a b a' b' None n by (intro miss [of w2 w1]) auto
    qed
  qed
qed

text \<open>No entry, by job or by service, leads to the job.\<close>

definition job_absent ::
  "job_id \<Rightarrow> (string \<rightharpoonup> job_registration) \<Rightarrow> (string \<rightharpoonup> job_registration) \<Rightarrow> bool" where
  "job_absent j A B \<longleftrightarrow> A (job_str j) = None \<and> (\<forall>s r. B s = Some r \<longrightarrow> job_id r \<noteq> j)"

lemma job_absent_removed: "job_absent j (A(job_str j := None)) (without_job j B)"
  by (auto simp: job_absent_def dest: without_job_other)

text \<open>Caching a list of registrations; a later one with the same key wins.\<close>

lemma cache_each_ok:
  assumes "hash_laws (reg_client R) V" and "codec_ok (reg_codec R)"
  shows "io_each (cache_registration R) rs w = (Inr u, w') \<Longrightarrow>
    cached_jobs (reg_codec R) (V w') =
      fold (\<lambda>r m. m(job_str (job_id r) \<mapsto> r)) rs (cached_jobs (reg_codec R) (V w)) \<and>
    cached_services (reg_codec R) (V w') =
      fold (\<lambda>r m. m(service_str (service_name r) \<mapsto> r)) rs (cached_services (reg_codec R) (V w))"
  by (induction rs arbitrary: w) (auto simp: io_iff cache_registration_ok [OF assms])

lemma fold_upd_in:
  assumes "r \<in> set rs" and "\<And>q. q \<in> set rs \<Longrightarrow> key q = key r \<Longrightarrow> q = r"
  shows "fold (\<lambda>r m. m(key r \<mapsto> r)) rs m (key r) = Some r"
  using assms
proof (induction rs rule: rev_induct)
  case Nil
  then show ?case by simp
next
  case (snoc q rs)
  then show ?case by (cases "key q = key r") auto
qed

lemma fold_upd_dom: "r \<in> set rs \<Longrightarrow> fold (\<lambda>r m. m(key r \<mapsto> r)) rs m (key r) \<noteq> None"
  by (induction rs arbitrary: m rule: rev_induct) auto

subsection \<open>Frames\<close>

text \<open>What the hash commands do not touch, such as the data of another server.\<close>

definition redis_keeps :: "'w redis \<Rightarrow> ('w \<Rightarrow> 'p) \<Rightarrow> bool" where
  "redis_keeps R P \<longleftrightarrow>
     (\<forall>k f x. keeps P (r_hset R k f x)) \<and> (\<forall>k f. keeps P (r_hdel R k f)) \<and>
     (\<forall>k f. keeps P (r_hget R k f)) \<and> (\<forall>k. keeps P (r_hgetall R k))"

lemma redis_keepsD [keeps_rules]:
  assumes "redis_keeps R P"
  shows "keeps P (r_hset R k f x)" "keeps P (r_hdel R k f)" "keeps P (r_hget R k f)" "keeps P (r_hgetall R k)"
  using assms by (simp_all add: redis_keeps_def)

lemma registry_keeps:
  assumes "redis_keeps (reg_client R) P"
  shows "keeps P (cache_registration R reg)" "keeps P (remove_cached_registration R j)"
    "keeps P (get_from_hash R k f)"
  unfolding cache_registration_def remove_cached_registration_def evict_service_entry_def get_from_hash_def
  using assms by (auto intro!: keeps_rules)

subsection \<open>The contract of the durable registry\<close>

text \<open>
  A durable registry \<open>D p\<close> holds the registrations by job (\<open>J p\<close>) and by service (\<open>S p\<close>). Its
  writes are atomic: one that fails has changed both maps or none. It does not touch Redis.
\<close>

locale durable_contract =
  fixes D :: "'p \<Rightarrow> 'w durable_registry"
    and good :: "'p \<Rightarrow> ('w \<Rightarrow> redis_view) \<Rightarrow> bool"
    and J :: "'p \<Rightarrow> 'w \<Rightarrow> string \<rightharpoonup> job_registration"
    and S :: "'p \<Rightarrow> 'w \<Rightarrow> string \<rightharpoonup> job_registration"
  assumes store_ok: "good p V \<Longrightarrow> store_registration (D p) r w = (Inr u, w') \<Longrightarrow>
             J p w' = (J p w)(job_str (job_id r) \<mapsto> r) \<and> S p w' = (S p w)(service_str (service_name r) \<mapsto> r)"
    and store_err: "good p V \<Longrightarrow> store_registration (D p) r w = (Inl e, w') \<Longrightarrow>
             J p w' = J p w \<and> S p w' = S p w \<or>
             J p w' = (J p w)(job_str (job_id r) \<mapsto> r) \<and> S p w' = (S p w)(service_str (service_name r) \<mapsto> r)"
    and remove_ok: "good p V \<Longrightarrow> remove_registration (D p) j w = (Inr u, w') \<Longrightarrow>
             J p w' = (J p w)(job_str j := None) \<and> S p w' = without_job j (S p w)"
    and remove_err: "good p V \<Longrightarrow> remove_registration (D p) j w = (Inl e, w') \<Longrightarrow>
             J p w' = J p w \<and> S p w' = S p w \<or>
             J p w' = (J p w)(job_str j := None) \<and> S p w' = without_job j (S p w)"
    and by_job_ok: "good p V \<Longrightarrow> get_by_job_id (D p) j w = (Inr y, w') \<Longrightarrow>
             y = J p w (job_str j) \<and> J p w' = J p w \<and> S p w' = S p w"
    and by_service_ok: "good p V \<Longrightarrow> get_by_service_name (D p) s w = (Inr y, w') \<Longrightarrow>
             y = S p w (service_str s) \<and> J p w' = J p w \<and> S p w' = S p w"
    and list_ok: "good p V \<Longrightarrow> durable_list_all (D p) w = (Inr rs, w') \<Longrightarrow>
             set rs = (if S p w = Map.empty then ran (J p w) else ran (S p w)) \<and>
             J p w' = J p w \<and> S p w' = S p w"
    and keeps_redis: "good p V \<Longrightarrow> keeps V (store_registration (D p) r)"
             "good p V \<Longrightarrow> keeps V (remove_registration (D p) j)"
             "good p V \<Longrightarrow> keeps V (get_by_job_id (D p) j)"
             "good p V \<Longrightarrow> keeps V (get_by_service_name (D p) s)"
             "good p V \<Longrightarrow> keeps V (durable_list_all (D p))"
begin

text \<open>A registry on such a durable registry, and the assumptions on its Redis side.\<close>

definition fits :: "'w job_registry \<Rightarrow> 'p \<Rightarrow> ('w \<Rightarrow> redis_view) \<Rightarrow> bool" where
  "fits R p V \<longleftrightarrow> durable R = Some (D p) \<and> good p V \<and> hash_laws (reg_client R) V \<and>
     codec_ok (reg_codec R) \<and> redis_keeps (reg_client R) (\<lambda>w. (J p w, S p w))"

lemma fitsD:
  assumes "fits R p V"
  shows "durable R = Some (D p)" "good p V" "hash_laws (reg_client R) V" "codec_ok (reg_codec R)"
    "redis_keeps (reg_client R) (\<lambda>w. (J p w, S p w))"
  using assms by (simp_all add: fits_def)

lemma cache_keeps_durable:
  "fits R p V \<Longrightarrow> cache_registration R reg w = (x, w') \<Longrightarrow> J p w' = J p w \<and> S p w' = S p w"
  using keepsD [OF registry_keeps(1) [OF fitsD(5)]] by fastforce

lemma evict_keeps_durable:
  "fits R p V \<Longrightarrow> remove_cached_registration R j w = (x, w') \<Longrightarrow> J p w' = J p w \<and> S p w' = S p w"
  using keepsD [OF registry_keeps(2) [OF fitsD(5)]] by fastforce

lemma lookup_keeps_durable:
  "fits R p V \<Longrightarrow> get_from_hash R k f w = (x, w') \<Longrightarrow> J p w' = J p w \<and> S p w' = S p w"
  using keepsD [OF registry_keeps(3) [OF fitsD(5)]] by fastforce

lemma register_both:
  assumes "fits R p V" and "register R reg w = (Inr u, w')"
  shows "J p w' (job_str (job_id reg)) = Some reg"
    and "S p w' (service_str (service_name reg)) = Some reg"
proof -
  obtain w1 where w1: "store_registration (D p) reg w = (Inr (), w1)"
    and c: "cache_registration R reg w1 = (Inr u, w')"
    using assms(2) fitsD(1) [OF assms(1)] by (auto simp: register_def io_iff)
  show "J p w' (job_str (job_id reg)) = Some reg" "S p w' (service_str (service_name reg)) = Some reg"
    using store_ok [OF fitsD(2) [OF assms(1)] w1] cache_keeps_durable [OF assms(1) c] by simp_all
qed

text \<open>The durable write comes first: when it fails, the cache is not touched.\<close>

lemma durable_first:
  assumes "fits R p V" and "store_registration (D p) reg w = (Inl e, w1)"
  shows "register R reg w = (Inl e, w1)" and "V w1 = V w"
  using assms(2) fitsD(1) [OF assms(1)] keepsD [OF keeps_redis(1) [OF fitsD(2) [OF assms(1)]] assms(2)]
  by (simp_all add: register_def io_bind_def)

lemma durable_hit_ok:
  assumes "good p V" and "durable_hit (D p) l w = (Inr h, w')"
  shows "h = (case J p w (job_str l) of Some r \<Rightarrow> Some r | None \<Rightarrow> S p w (job_str l)) \<and>
         J p w' = J p w \<and> S p w' = S p w"
proof -
  obtain a w1 where a: "get_by_job_id (D p) l w = (Inr a, w1)"
    and h: "(case a of Some reg \<Rightarrow> io_return (Some reg)
             | None \<Rightarrow> get_by_service_name (D p) (ServiceName (job_str l))) w1 = (Inr h, w')"
    using assms(2) by (auto simp: durable_hit_def io_iff)
  show ?thesis
  proof (cases a)
    case None
    with h by_job_ok [OF assms(1) a] show ?thesis
      using by_service_ok [OF assms(1), of "ServiceName (job_str l)" w1 h w'] by simp
  next
    case (Some r)
    with h have "h = Some r" "w' = w1" by (simp_all add: io_iff)
    with by_job_ok [OF assms(1) a] Some show ?thesis by (auto split: option.splits)
  qed
qed

lemma get_durable_ok:
  assumes "fits R p V" and "get_durable R l w = (Inr y, w')"
  shows "y = (case J p w (job_str l) of Some r \<Rightarrow> Some r | None \<Rightarrow> S p w (job_str l))"
    and "J p w' = J p w" "S p w' = S p w"
    and "\<forall>r. y = Some r \<longrightarrow> cached_jobs (reg_codec R) (V w') (job_str (job_id r)) = Some r \<and>
             cached_services (reg_codec R) (V w') (service_str (service_name r)) = Some r"
proof -
  obtain h w2 where hit: "durable_hit (D p) l w = (Inr h, w2)"
    and r: "(case h of Some reg \<Rightarrow> io_bind (cache_registration R reg) (\<lambda>_. io_return (Some reg))
             | None \<Rightarrow> io_return None) w2 = (Inr y, w')"
    using assms(2) fitsD(1) [OF assms(1)] by (auto simp: get_durable_def io_iff)
  note h = durable_hit_ok [OF fitsD(2) [OF assms(1)] hit]
  have "y = h \<and> J p w' = J p w \<and> S p w' = S p w \<and>
    (\<forall>r. y = Some r \<longrightarrow> cached_jobs (reg_codec R) (V w') (job_str (job_id r)) = Some r \<and>
             cached_services (reg_codec R) (V w') (service_str (service_name r)) = Some r)"
  proof (cases h)
    case None
    with r h show ?thesis by (simp add: io_iff)
  next
    case (Some reg)
    with r obtain u where c: "cache_registration R reg w2 = (Inr u, w')" "y = Some reg"
      by (auto simp: io_iff)
    show ?thesis
      using Some c(2) h cache_keeps_durable [OF assms(1) c(1)]
        cache_registration_ok [OF fitsD(3,4) [OF assms(1)] c(1)] by simp
  qed
  with h show "y = (case J p w (job_str l) of Some r \<Rightarrow> Some r | None \<Rightarrow> S p w (job_str l))"
    and "J p w' = J p w" "S p w' = S p w"
    and "\<forall>r. y = Some r \<longrightarrow> cached_jobs (reg_codec R) (V w') (job_str (job_id r)) = Some r \<and>
             cached_services (reg_codec R) (V w') (service_str (service_name r)) = Some r"
    by simp_all
qed

lemma get_absent:
  assumes "fits R p V" and "get R j w = (Inr y, w')"
    and "job_absent j (cached_jobs (reg_codec R) (V w)) (cached_services (reg_codec R) (V w))"
    and "job_absent j (J p w) (S p w)"
  shows "y = Some r \<Longrightarrow> job_id r \<noteq> j"
  using fitsD(3) [OF assms(1)] assms(2)
proof (cases rule: get_ok_cases)
  case job
  with assms(3) show ?thesis by (simp add: job_absent_def)
next
  case service
  with assms(3) show "y = Some r \<Longrightarrow> job_id r \<noteq> j" by (metis job_absent_def)
next
  case (miss w1 w2)
  have "J p w2 = J p w" "S p w2 = S p w"
    using lookup_keeps_durable [OF assms(1)] miss(4,5) by metis+
  then show "y = Some r \<Longrightarrow> job_id r \<noteq> j"
    using get_durable_ok(1) [OF assms(1) miss(6)] assms(4) by (auto simp: job_absent_def)
qed

lemma deregister_absent:
  assumes "fits R p V" and "deregister R j w = (Inr u, w')"
  shows "job_absent j (cached_jobs (reg_codec R) (V w')) (cached_services (reg_codec R) (V w'))"
    and "job_absent j (J p w') (S p w')"
proof -
  obtain x w1 where g: "get R j w = (Inr x, w1)" using assms(2) by (auto simp: deregister_def io_iff)
  obtain w2 where r: "remove_registration (D p) j w1 = (Inr (), w2)"
    using assms(2) g fitsD(1) [OF assms(1)] by (auto simp: deregister_def io_iff)
  have e: "remove_cached_registration R j w2 = (Inr (), w')"
    using assms(2) g r fitsD(1) [OF assms(1)]
    by (cases "remove_cached_registration R j w2") (auto simp: deregister_def io_bind_def split: sum.splits)
  show "job_absent j (cached_jobs (reg_codec R) (V w')) (cached_services (reg_codec R) (V w'))"
    using remove_cached_ok [OF fitsD(3) [OF assms(1)] e] by (simp add: job_absent_removed)
  show "job_absent j (J p w') (S p w')"
    using remove_ok [OF fitsD(2) [OF assms(1)] r] evict_keeps_durable [OF assms(1) e]
    by (simp add: job_absent_removed)
qed

text \<open>
  When Redis cannot evict the job, the durable registration is put back: the durable maps are
  exactly what they were, provided the job had no other service entry.
\<close>

lemma deregister_rollback:
  assumes "fits R p V" and "get R j w = (Inr (Some reg), w1)"
    and "remove_registration (D p) j w1 = (Inr u, w2)"
    and "remove_cached_registration R j w2 = (Inl e, w3)"
    and "store_registration (D p) reg w3 = (Inr u', w4)"
    and "job_id reg = j" and "J p w1 (job_str j) = Some reg"
    and "\<And>s r. S p w1 s = Some r \<Longrightarrow> job_id r = j \<Longrightarrow> s = service_str (service_name reg) \<and> r = reg"
    and "S p w1 (service_str (service_name reg)) = Some reg"
  shows "deregister R j w = (Inl e, w4)" and "J p w4 = J p w1" and "S p w4 = S p w1"
proof -
  note g = fitsD(2) [OF assms(1)]
  show "deregister R j w = (Inl e, w4)"
    using assms(2-5) fitsD(1) [OF assms(1)] by (simp add: deregister_def io_bind_def)
  show "J p w4 = J p w1"
    using remove_ok [OF g assms(3)] evict_keeps_durable [OF assms(1,4)] store_ok [OF g assms(5)] assms(6,7)
    by auto
  have "(without_job j (S p w1))(service_str (service_name reg) \<mapsto> reg) = S p w1"
    using assms(8,9) by (auto simp: without_job_def fun_eq_iff split: option.splits)
  then show "S p w4 = S p w1"
    using remove_ok [OF g assms(3)] evict_keeps_durable [OF assms(1,4)] store_ok [OF g assms(5)] by simp
qed

lemma sync_ok:
  assumes "fits R p V" and "sync_from_durable R w = (Inr n, w')"
    and "\<And>s r. S p w s = Some r \<Longrightarrow> service_str (service_name r) = s" and "S p w s = Some r"
  shows "cached_services (reg_codec R) (V w') s = Some r"
    and "cached_jobs (reg_codec R) (V w') (job_str (job_id r)) \<noteq> None"
proof -
  obtain rs w1 where rs: "durable_list_all (D p) w = (Inr rs, w1)"
    and c: "io_each (cache_registration R) rs w1 = (Inr (), w')"
    using assms(2) fitsD(1) [OF assms(1)] by (auto simp: sync_from_durable_def io_iff)
  have set_rs: "set rs = ran (S p w)"
    using list_ok [OF fitsD(2) [OF assms(1)] rs] assms(4) by auto
  then have r: "r \<in> set rs" using assms(4) by (auto intro: ranI)
  note cached = cache_each_ok [OF fitsD(3,4) [OF assms(1)] c]
  have "q = r" if q: "q \<in> set rs" "service_str (service_name q) = service_str (service_name r)" for q
  proof -
    obtain t where "S p w t = Some q" using q(1) set_rs by (auto simp: ran_def)
    with assms(3) [OF this] assms(3) [OF assms(4)] q(2) assms(4) show ?thesis by simp
  qed
  then show "cached_services (reg_codec R) (V w') s = Some r"
    using cached fold_upd_in [OF r, of "\<lambda>q. service_str (service_name q)"] assms(3) [OF assms(4)] by auto
  show "cached_jobs (reg_codec R) (V w') (job_str (job_id r)) \<noteq> None"
    using cached fold_upd_dom [OF r, of "\<lambda>q. job_str (job_id q)"] by auto
qed

text \<open>A miss in the cache that the durable registry answers is cached.\<close>

lemma get_cache_aside:
  assumes "fits R p V" and "get R l w = (Inr y, w')"
    and "cached_jobs (reg_codec R) (V w) (job_str l) = None"
    and "cached_services (reg_codec R) (V w) (job_str l) = None"
  shows "y = (case J p w (job_str l) of Some r \<Rightarrow> Some r | None \<Rightarrow> S p w (job_str l))"
    and "y = Some r \<Longrightarrow> cached_jobs (reg_codec R) (V w') (job_str (job_id r)) = Some r \<and>
           cached_services (reg_codec R) (V w') (service_str (service_name r)) = Some r"
proof -
  obtain w1 w2 where k: "get_from_hash R REGISTRY_BY_JOB_KEY (job_str l) w = (Inr None, w1)"
      "get_from_hash R REGISTRY_BY_SERVICE_KEY (job_str l) w1 = (Inr None, w2)"
    and d: "get_durable R l w2 = (Inr y, w')"
    using assms(3,4) by (cases rule: get_ok_cases [OF fitsD(3) [OF assms(1)] assms(2)]) auto
  have "J p w2 = J p w" "S p w2 = S p w" using lookup_keeps_durable [OF assms(1)] k by metis+
  then show "y = (case J p w (job_str l) of Some r \<Rightarrow> Some r | None \<Rightarrow> S p w (job_str l))"
    and "y = Some r \<Longrightarrow> cached_jobs (reg_codec R) (V w') (job_str (job_id r)) = Some r \<and>
           cached_services (reg_codec R) (V w') (service_str (service_name r)) = Some r"
    using get_durable_ok [OF assms(1) d] by (simp_all split: option.splits)
qed

end

end
