(* ===== verification/Etcd.thy ===== *)
theory Etcd
  imports Registry
begin

text \<open>
  The durable registry of \<^verbatim>\<open>crates/nscale-etcd/src/client.rs\<close>: registrations under two key
  prefixes, written together in one transaction.

  The etcd client is a parameter with its documented behaviour in \<open>etcd_laws\<close>: a transaction
  on distinct keys takes effect as a whole or not at all, a get answers the key's value, and a
  get with a prefix answers every key below it. \<open>etcd\<close> interprets \<open>durable_contract\<close> on the
  code's operations. The client mutex only serialises the calls. Keys and values are strings:
  the code writes keys that are valid UTF-8.
\<close>

datatype txn_op = TxnPut (op_target: string) string | TxnDelete (op_target: string)

record 'w etcd_kv =
  e_txn :: "txn_op list \<Rightarrow> ('w, string, unit) io"
  e_get :: "string \<Rightarrow> ('w, string, (string \<times> string) list) io"
  e_get_prefix :: "string \<Rightarrow> ('w, string, (string \<times> string) list) io"

record 'w etcd_client =
  kv :: "'w etcd_kv"
  key_prefix :: string
  etcd_codec :: reg_codec

definition normalize_prefix :: "string \<Rightarrow> string" where
  "normalize_prefix p =
     (let trimmed = trim_end_matches CHR ''/'' (trim p) in
      if trimmed = [] then ''/nscale/registrations''
      else if prefix ''/'' trimmed then trimmed
      else ''/'' @ trimmed)"

definition etcd_client_new :: "'w etcd_kv \<Rightarrow> reg_codec \<Rightarrow> string \<Rightarrow> 'w etcd_client" where
  "etcd_client_new c k p = \<lparr>kv = c, key_prefix = normalize_prefix p, etcd_codec = k\<rparr>"

definition jobs_prefix :: "'w etcd_client \<Rightarrow> string" where
  "jobs_prefix st = key_prefix st @ ''/jobs/''"

definition services_prefix :: "'w etcd_client \<Rightarrow> string" where
  "services_prefix st = key_prefix st @ ''/services/''"

definition job_key :: "'w etcd_client \<Rightarrow> job_id \<Rightarrow> string" where
  "job_key st j = jobs_prefix st @ job_str j"

definition service_key :: "'w etcd_client \<Rightarrow> service_name \<Rightarrow> string" where
  "service_key st s = services_prefix st @ service_str s"

definition etcd_encode_registration :: "'w etcd_client \<Rightarrow> job_registration \<Rightarrow> string result" where
  "etcd_encode_registration st reg =
     (case enc (etcd_codec st) reg of Inl e \<Rightarrow> Inl (Store e) | Inr x \<Rightarrow> Inr x)"

definition decode_registration :: "'w etcd_client \<Rightarrow> string \<Rightarrow> job_registration result" where
  "decode_registration st x =
     (case dec (etcd_codec st) x of Inl e \<Rightarrow> Inl (Store e) | Inr r \<Rightarrow> Inr r)"

definition apply_txn :: "'w etcd_client \<Rightarrow> txn_op list \<Rightarrow> ('w, unit) call" where
  "apply_txn st operations = io_map_err Store (e_txn (kv st) operations)"

definition get_by_key :: "'w etcd_client \<Rightarrow> string \<Rightarrow> ('w, job_registration option) call" where
  "get_by_key st key =
     io_bind (io_map_err Store (e_get (kv st) key)) (\<lambda>kvs. case kvs of
       [] \<Rightarrow> io_return None
     | (k, v) # _ \<Rightarrow> io_bind (io_lift (decode_registration st v)) (\<lambda>reg. io_return (Some reg)))"

fun decode_values :: "'w etcd_client \<Rightarrow> (string \<times> string) list \<Rightarrow> job_registration list result" where
  "decode_values st [] = Inr []"
| "decode_values st ((k, v) # kvs) =
     (case decode_registration st v of
        Inl e \<Rightarrow> Inl e
      | Inr reg \<Rightarrow> (case decode_values st kvs of Inl e \<Rightarrow> Inl e | Inr regs \<Rightarrow> Inr (reg # regs)))"

definition list_by_prefix :: "'w etcd_client \<Rightarrow> string \<Rightarrow> ('w, job_registration list) call" where
  "list_by_prefix st p =
     io_bind (io_map_err Store (e_get_prefix (kv st) p)) (\<lambda>kvs. io_lift (decode_values st kvs))"

fun keys_of_job :: "'w etcd_client \<Rightarrow> job_id \<Rightarrow> (string \<times> string) list \<Rightarrow> string list result" where
  "keys_of_job st j [] = Inr []"
| "keys_of_job st j ((k, v) # kvs) =
     (case decode_registration st v of
        Inl e \<Rightarrow> Inl e
      | Inr reg \<Rightarrow> (case keys_of_job st j kvs of
          Inl e \<Rightarrow> Inl e
        | Inr ks \<Rightarrow> Inr (if job_id reg = j then k # ks else ks)))"

definition service_keys_for_job :: "'w etcd_client \<Rightarrow> job_id \<Rightarrow> ('w, string list) call" where
  "service_keys_for_job st j =
     io_bind (io_map_err Store (e_get_prefix (kv st) (services_prefix st)))
       (\<lambda>kvs. io_lift (keys_of_job st j kvs))"

definition etcd_store_registration :: "'w etcd_client \<Rightarrow> job_registration \<Rightarrow> ('w, unit) call" where
  "etcd_store_registration st reg =
     io_bind (io_lift (etcd_encode_registration st reg)) (\<lambda>encoded.
       apply_txn st [TxnPut (job_key st (job_id reg)) encoded,
                     TxnPut (service_key st (service_name reg)) encoded])"

definition etcd_remove_registration :: "'w etcd_client \<Rightarrow> job_id \<Rightarrow> ('w, unit) call" where
  "etcd_remove_registration st j =
     io_bind (service_keys_for_job st j) (\<lambda>ks.
       apply_txn st (map TxnDelete ks @ [TxnDelete (job_key st j)]))"

definition etcd_get_by_job_id :: "'w etcd_client \<Rightarrow> job_id \<Rightarrow> ('w, job_registration option) call" where
  "etcd_get_by_job_id st j = get_by_key st (job_key st j)"

definition etcd_get_by_service_name ::
  "'w etcd_client \<Rightarrow> service_name \<Rightarrow> ('w, job_registration option) call" where
  "etcd_get_by_service_name st s = get_by_key st (service_key st s)"

definition etcd_list_all :: "'w etcd_client \<Rightarrow> ('w, job_registration list) call" where
  "etcd_list_all st =
     io_bind (list_by_prefix st (services_prefix st)) (\<lambda>service_regs.
       if service_regs \<noteq> [] then io_return service_regs else list_by_prefix st (jobs_prefix st))"

text \<open>The stream of changes is always empty.\<close>

definition etcd_watch_registrations :: "'w etcd_client \<Rightarrow> ('w, registration_event list) call" where
  "etcd_watch_registrations st = io_return []"

definition etcd_durable :: "'w etcd_client \<Rightarrow> 'w durable_registry" where
  "etcd_durable st =
     \<lparr>store_registration = etcd_store_registration st,
      remove_registration = etcd_remove_registration st,
      get_by_job_id = etcd_get_by_job_id st,
      get_by_service_name = etcd_get_by_service_name st,
      durable_list_all = etcd_list_all st,
      watch_registrations = etcd_watch_registrations st\<rparr>"

subsection \<open>What the code relies on\<close>

fun apply_op :: "txn_op \<Rightarrow> (string \<rightharpoonup> string) \<Rightarrow> string \<rightharpoonup> string" where
  "apply_op (TxnPut k v) m = m(k \<mapsto> v)"
| "apply_op (TxnDelete k) m = m(k := None)"

definition etcd_laws :: "'w etcd_kv \<Rightarrow> ('w \<Rightarrow> string \<rightharpoonup> string) \<Rightarrow> bool" where
  "etcd_laws E K \<longleftrightarrow>
     (\<forall>ops w. distinct (map op_target ops) \<longrightarrow> wrote K (fold apply_op ops) w (e_txn E ops w)) \<and>
     (\<forall>k w kvs w'. e_get E k w = (Inr kvs, w') \<longrightarrow>
        kvs = (case K w k of None \<Rightarrow> [] | Some v \<Rightarrow> [(k, v)])) \<and>
     (\<forall>p w kvs w'. e_get_prefix E p w = (Inr kvs, w') \<longrightarrow>
        distinct (map fst kvs) \<and> map_of kvs = K w |` {k. prefix p k}) \<and>
     (\<forall>k. keeps K (e_get E k)) \<and> (\<forall>p. keeps K (e_get_prefix E p))"

definition etcd_keeps :: "'w etcd_kv \<Rightarrow> ('w \<Rightarrow> 'p) \<Rightarrow> bool" where
  "etcd_keeps E P \<longleftrightarrow> (\<forall>ops. keeps P (e_txn E ops)) \<and> (\<forall>k. keeps P (e_get E k)) \<and>
     (\<forall>p. keeps P (e_get_prefix E p))"

lemma etcd_lawsD:
  assumes "etcd_laws E K"
  shows "distinct (map op_target ops) \<Longrightarrow> wrote K (fold apply_op ops) w (e_txn E ops w)"
    and "e_get E k w = (Inr kvs, w') \<Longrightarrow> kvs = (case K w k of None \<Rightarrow> [] | Some v \<Rightarrow> [(k, v)])"
    and "e_get_prefix E p w = (Inr kvs, w') \<Longrightarrow> distinct (map fst kvs) \<and> map_of kvs = K w |` {k. prefix p k}"
    and "keeps K (e_get E k)" and "keeps K (e_get_prefix E p)"
  using assms unfolding etcd_laws_def by (simp_all only: simp_thms)+

lemma etcd_keepsD [keeps_rules]:
  assumes "etcd_keeps E P"
  shows "keeps P (e_txn E ops)" "keeps P (e_get E k)" "keeps P (e_get_prefix E p)"
  using assms by (simp_all add: etcd_keeps_def)

subsection \<open>Keys\<close>

lemma keys_disjoint [simp]: "job_key st j \<noteq> service_key st s" "service_key st s \<noteq> job_key st j"
  by (simp_all add: job_key_def service_key_def jobs_prefix_def services_prefix_def)

lemma job_key_inj [simp]: "job_key st i = job_key st j \<longleftrightarrow> i = j"
  by (cases i; cases j) (simp add: job_key_def)

lemma service_key_inj [simp]: "service_key st s = service_key st t \<longleftrightarrow> s = t"
  by (cases s; cases t) (simp add: service_key_def)

lemma services_prefix_iff: "prefix (services_prefix st) k \<longleftrightarrow> (\<exists>s. k = service_key st (ServiceName s))"
  by (auto simp: prefix_def service_key_def)

lemma jobs_prefix_iff: "prefix (jobs_prefix st) k \<longleftrightarrow> (\<exists>s. k = job_key st (JobId s))"
  by (auto simp: prefix_def job_key_def)

subsection \<open>The two maps in etcd\<close>

type_synonym 'w etcd_inst = "'w etcd_client \<times> ('w \<Rightarrow> string \<rightharpoonup> string)"

definition etcd_jobs :: "'w etcd_inst \<Rightarrow> 'w \<Rightarrow> string \<rightharpoonup> job_registration" where
  "etcd_jobs p w k = decoded (etcd_codec (fst p)) (snd p w (job_key (fst p) (JobId k)))"

definition etcd_services :: "'w etcd_inst \<Rightarrow> 'w \<Rightarrow> string \<rightharpoonup> job_registration" where
  "etcd_services p w k = decoded (etcd_codec (fst p)) (snd p w (service_key (fst p) (ServiceName k)))"

definition etcd_good :: "'w etcd_inst \<Rightarrow> ('w \<Rightarrow> redis_view) \<Rightarrow> bool" where
  "etcd_good p V \<longleftrightarrow> etcd_laws (kv (fst p)) (snd p) \<and> codec_ok (etcd_codec (fst p)) \<and>
     etcd_keeps (kv (fst p)) V"

lemma etcd_maps_cong: "snd p w' = snd p w \<Longrightarrow> etcd_jobs p w' = etcd_jobs p w \<and> etcd_services p w' = etcd_services p w"
  by (simp add: etcd_jobs_def etcd_services_def fun_eq_iff)

lemma decode_registration_Inr: "decode_registration st x = Inr r \<longleftrightarrow> dec (etcd_codec st) x = Inr r"
  by (auto simp: decode_registration_def split: sum.splits)

lemma apply_txn_result:
  assumes "etcd_laws (kv st) K" and "distinct (map op_target ops)"
  shows "apply_txn st ops w = (Inr u, w') \<Longrightarrow> K w' = fold apply_op ops (K w)"
    and "apply_txn st ops w = (Inl e, w') \<Longrightarrow> K w' = K w \<or> K w' = fold apply_op ops (K w)"
  using etcd_lawsD(1) [OF assms, of w] by (auto simp: apply_txn_def io_iff wrote_def)

lemma etcd_store_maps:
  assumes "dec (etcd_codec st) x = Inr r"
    and "K w' = (K w)(job_key st (job_id r) \<mapsto> x, service_key st (service_name r) \<mapsto> x)"
  shows "etcd_jobs (st, K) w' = (etcd_jobs (st, K) w)(job_str (job_id r) \<mapsto> r) \<and>
         etcd_services (st, K) w' = (etcd_services (st, K) w)(service_str (service_name r) \<mapsto> r)"
  using assms by (cases "job_id r"; cases "service_name r")
    (auto simp: etcd_jobs_def etcd_services_def decoded_def fun_eq_iff)

lemma etcd_store_result:
  assumes "etcd_good (st, K) V" and "etcd_store_registration st r w = (q, w')"
  shows "K w' = K w \<and> q \<noteq> Inr () \<or>
         etcd_jobs (st, K) w' = (etcd_jobs (st, K) w)(job_str (job_id r) \<mapsto> r) \<and>
         etcd_services (st, K) w' = (etcd_services (st, K) w)(service_str (service_name r) \<mapsto> r)"
proof -
  have laws: "etcd_laws (kv st) K" and "codec_ok (etcd_codec st)" using assms by (simp_all add: etcd_good_def)
  then obtain x where x: "enc (etcd_codec st) r = Inr x" "dec (etcd_codec st) x = Inr r"
    by (auto simp: codec_ok_def)
  let ?ops = "[TxnPut (job_key st (job_id r)) x, TxnPut (service_key st (service_name r)) x]"
  have t: "apply_txn st ?ops w = (q, w')"
    using assms(2)
    by (simp add: etcd_store_registration_def etcd_encode_registration_def x io_bind_def io_lift_def)
  have "distinct (map op_target ?ops)" by simp
  note res = apply_txn_result [OF laws this, of w]
  have "K w' = K w \<and> q \<noteq> Inr () \<or>
      K w' = (K w)(job_key st (job_id r) \<mapsto> x, service_key st (service_name r) \<mapsto> x)"
    using res t by (cases q) auto
  then show ?thesis using etcd_store_maps [OF x(2), of K w' w] by blast
qed

lemma keys_of_job_ok:
  "keys_of_job st j kvs = Inr ks \<Longrightarrow>
     (\<forall>(k, v) \<in> set kvs. \<exists>r. dec (etcd_codec st) v = Inr r) \<and> set ks \<subseteq> set (map fst kvs) \<and>
     (distinct (map fst kvs) \<longrightarrow> distinct ks) \<and>
     (\<forall>k. k \<in> set ks \<longleftrightarrow> (\<exists>v r. (k, v) \<in> set kvs \<and> dec (etcd_codec st) v = Inr r \<and> job_id r = j))"
proof (induction kvs arbitrary: ks)
  case Nil
  then show ?case by simp
next
  case (Cons a kvs)
  obtain k v where a: "a = (k, v)" by force
  obtain r ls where r: "dec (etcd_codec st) v = Inr r" and ls: "keys_of_job st j kvs = Inr ls"
    and ks: "ks = (if job_id r = j then k # ls else ls)"
    using Cons.prems by (auto simp: a decode_registration_Inr split: sum.splits)
  show ?case using Cons.IH [OF ls] r ks a by (auto simp: image_iff)
qed

lemma decode_values_ok:
  "decode_values st kvs = Inr rs \<Longrightarrow>
     (\<forall>(k, v) \<in> set kvs. \<exists>r. dec (etcd_codec st) v = Inr r) \<and>
     set rs = {r. \<exists>k v. (k, v) \<in> set kvs \<and> dec (etcd_codec st) v = Inr r} \<and> (rs = [] \<longleftrightarrow> kvs = [])"
proof (induction kvs arbitrary: rs)
  case Nil
  then show ?case by simp
next
  case (Cons a kvs)
  obtain k v where a: "a = (k, v)" by force
  obtain r qs where "dec (etcd_codec st) v = Inr r" "decode_values st kvs = Inr qs" "rs = r # qs"
    using Cons.prems by (auto simp: a decode_registration_Inr split: sum.splits)
  with Cons.IH [of qs] show ?case by (auto simp: a)
qed

lemma fold_delete: "fold apply_op (map TxnDelete ks) m = (\<lambda>k. if k \<in> set ks then None else m k)"
  by (induction ks arbitrary: m) (auto simp: fun_eq_iff)

lemma prefix_entries:
  assumes "etcd_laws (kv st) K" and "e_get_prefix (kv st) p w = (Inr kvs, w')"
  shows "distinct (map fst kvs)" and "(k, v) \<in> set kvs \<longleftrightarrow> prefix p k \<and> K w k = Some v" and "K w' = K w"
proof -
  show d: "distinct (map fst kvs)" using etcd_lawsD(3) [OF assms] by simp
  show "(k, v) \<in> set kvs \<longleftrightarrow> prefix p k \<and> K w k = Some v"
    using etcd_lawsD(3) [OF assms] map_of_eq_Some_iff [OF d, of k v]
    by (auto simp: restrict_map_def split: if_splits)
  show "K w' = K w" using keepsD [OF etcd_lawsD(5) [OF assms(1)] assms(2)] .
qed

lemma decoded_Some: "decoded C x = Some r \<longleftrightarrow> (\<exists>v. x = Some v \<and> dec C v = Inr r)"
  by (auto simp: decoded_def split: option.splits sum.splits)

text \<open>The transaction of a removal: its keys are distinct, and it takes the job out of both maps.\<close>

lemma remove_effect:
  assumes "etcd_laws (kv st) K" and "service_keys_for_job st j w = (Inr ks, w1)"
  defines "ops \<equiv> map TxnDelete ks @ [TxnDelete (job_key st j)]"
  shows "K w1 = K w" and "distinct (map op_target ops)"
    and "K w' = fold apply_op ops (K w) \<Longrightarrow>
         etcd_jobs (st, K) w' = (etcd_jobs (st, K) w)(job_str j := None) \<and>
         etcd_services (st, K) w' = without_job j (etcd_services (st, K) w)"
proof -
  obtain kvs where kvs: "e_get_prefix (kv st) (services_prefix st) w = (Inr kvs, w1)"
    and ks: "keys_of_job st j kvs = Inr ks"
    using assms(2) by (auto simp: service_keys_for_job_def io_iff)
  note e = prefix_entries [OF assms(1) kvs] and k = keys_of_job_ok [OF ks]
  show "K w1 = K w" by (rule e(3))
  have in_ks: "x \<in> set ks \<longleftrightarrow> (\<exists>s r. x = service_key st (ServiceName s) \<and>
      etcd_services (st, K) w s = Some r \<and> job_id r = j)" for x
    using k e(2) by (auto simp: services_prefix_iff etcd_services_def decoded_Some)
  have "job_key st j \<notin> set ks" by (simp only: in_ks) simp
  then show "distinct (map op_target ops)" using k e(1) by (simp add: ops_def comp_def)
  assume w': "K w' = fold apply_op ops (K w)"
  have K': "K w' x = (if x \<in> set ks \<or> x = job_key st j then None else K w x)" for x
    using w' by (auto simp: ops_def fold_delete)
  have "etcd_jobs (st, K) w' = (etcd_jobs (st, K) w)(job_str j := None)"
    by (cases j) (auto simp: etcd_jobs_def K' in_ks fun_eq_iff)
  moreover have "etcd_services (st, K) w' s = without_job j (etcd_services (st, K) w) s" for s
    using in_ks [of "service_key st (ServiceName s)"]
    by (auto simp: etcd_services_def [of _ w'] K' without_job_def split: option.splits)
       (auto simp: etcd_services_def)
  ultimately show "etcd_jobs (st, K) w' = (etcd_jobs (st, K) w)(job_str j := None) \<and>
      etcd_services (st, K) w' = without_job j (etcd_services (st, K) w)" by auto
qed

lemma get_by_key_ok:
  assumes "etcd_laws (kv st) K" and "get_by_key st k w = (Inr y, w')"
  shows "y = decoded (etcd_codec st) (K w k) \<and> K w' = K w"
proof -
  obtain kvs w1 where kvs: "e_get (kv st) k w = (Inr kvs, w1)"
    using assms(2) by (auto simp: get_by_key_def io_iff)
  have "kvs = (case K w k of None \<Rightarrow> [] | Some v \<Rightarrow> [(k, v)])" by (rule etcd_lawsD(2) [OF assms(1) kvs])
  moreover have "K w1 = K w" by (rule keepsD [OF etcd_lawsD(4) [OF assms(1)] kvs])
  ultimately show ?thesis
    using assms(2) kvs
    by (cases "K w k")
       (auto simp: get_by_key_def io_bind_def io_map_err_def io_return_def io_lift_def decoded_def
         decode_registration_def split: sum.splits)
qed

lemma list_by_prefix_ok:
  assumes "etcd_laws (kv st) K" and "list_by_prefix st p w = (Inr rs, w')"
  shows "set rs = {r. \<exists>k. prefix p k \<and> decoded (etcd_codec st) (K w k) = Some r}" and "K w' = K w"
    and "rs = [] \<Longrightarrow> prefix p k \<Longrightarrow> decoded (etcd_codec st) (K w k) = None"
proof -
  obtain kvs where kvs: "e_get_prefix (kv st) p w = (Inr kvs, w')" and rs: "decode_values st kvs = Inr rs"
    using assms(2) by (auto simp: list_by_prefix_def io_iff)
  note e = prefix_entries [OF assms(1) kvs] and d = decode_values_ok [OF rs]
  show s: "set rs = {r. \<exists>k. prefix p k \<and> decoded (etcd_codec st) (K w k) = Some r}"
    using d e(2) by (auto simp: decoded_Some)
  show "K w' = K w" by (rule e(3))
  show "rs = [] \<Longrightarrow> prefix p k \<Longrightarrow> decoded (etcd_codec st) (K w k) = None"
    using s by (cases "decoded (etcd_codec st) (K w k)") auto
qed

lemma etcd_list_ok:
  assumes "etcd_laws (kv st) K" and "etcd_list_all st w = (Inr rs, w')"
  shows "set rs = (if etcd_services (st, K) w = Map.empty then ran (etcd_jobs (st, K) w)
                   else ran (etcd_services (st, K) w)) \<and> K w' = K w"
proof -
  obtain ss w1 where ss: "list_by_prefix st (services_prefix st) w = (Inr ss, w1)"
    and r: "(if ss \<noteq> [] then io_return ss else list_by_prefix st (jobs_prefix st)) w1 = (Inr rs, w')"
    using assms(2) by (auto simp: etcd_list_all_def io_iff)
  note s = list_by_prefix_ok [OF assms(1) ss]
  have ran_s: "set ss = ran (etcd_services (st, K) w)"
    by (auto simp: s(1) services_prefix_iff ran_def etcd_services_def)
  have empty: "ss = [] \<longleftrightarrow> etcd_services (st, K) w = Map.empty"
    using ran_s by (auto simp: ran_def) (metis (no_types, lifting) empty_iff fun_eq_iff mem_Collect_eq not_None_eq)
  show ?thesis
  proof (cases "ss = []")
    case True
    then have j: "list_by_prefix st (jobs_prefix st) w1 = (Inr rs, w')" using r by simp
    have "set rs = ran (etcd_jobs (st, K) w)"
      using list_by_prefix_ok(1) [OF assms(1) j] s(2) by (auto simp: jobs_prefix_iff ran_def etcd_jobs_def)
    with True empty list_by_prefix_ok(2) [OF assms(1) j] s(2) show ?thesis by simp
  next
    case False
    with r have "rs = ss" "w' = w1" by (simp_all add: io_iff)
    with False empty ran_s s(2) show ?thesis by simp
  qed
qed

lemma etcd_remove_result:
  assumes "etcd_laws (kv st) K" and "etcd_remove_registration st j w = (x, w')"
  shows "K w' = K w \<and> x \<noteq> Inr () \<or>
         etcd_jobs (st, K) w' = (etcd_jobs (st, K) w)(job_str j := None) \<and>
         etcd_services (st, K) w' = without_job j (etcd_services (st, K) w)"
proof (cases "service_keys_for_job st j w")
  case (Pair q w1)
  show ?thesis
  proof (cases q)
    case (Inl e)
    have "keeps K (service_keys_for_job st j)"
      unfolding service_keys_for_job_def
      by (intro keeps_rules etcd_lawsD(5) [OF assms(1)])
    then have "K w1 = K w" using Pair by (rule keepsD)
    then show ?thesis
      using Inl Pair assms(2) by (auto simp: etcd_remove_registration_def io_bind_def)
  next
    case (Inr ks)
    note r = remove_effect [OF assms(1), of j w ks w1]
    have s: "service_keys_for_job st j w = (Inr ks, w1)" using Pair Inr by simp
    have "apply_txn st (map TxnDelete ks @ [TxnDelete (job_key st j)]) w1 = (x, w')"
      using assms(2) s by (simp add: etcd_remove_registration_def io_bind_def)
    then show ?thesis
      using apply_txn_result [OF assms(1) r(2) [OF s], of w1] r(1) [OF s] r(3) [OF s, of w']
      by (cases x) auto
  qed
qed

lemma etcd_durable_keeps:
  assumes "etcd_keeps (kv st) P"
  shows "keeps P (etcd_store_registration st r)" "keeps P (etcd_remove_registration st j)"
    "keeps P (etcd_get_by_job_id st j)" "keeps P (etcd_get_by_service_name st s)"
    "keeps P (etcd_list_all st)"
  unfolding etcd_store_registration_def etcd_remove_registration_def service_keys_for_job_def
    apply_txn_def etcd_get_by_job_id_def etcd_get_by_service_name_def get_by_key_def
    etcd_list_all_def list_by_prefix_def
  using assms by (auto intro!: keeps_rules split: list.splits)

interpretation etcd: durable_contract "\<lambda>p. etcd_durable (fst p)" etcd_good etcd_jobs etcd_services
proof (unfold_locales, goal_cases)
  case (1 p V r w u w')
  then show ?case
    using etcd_store_result [of "fst p" "snd p" V r w "Inr u" w'] by (simp add: etcd_durable_def)
next
  case (2 p V r w e w')
  then show ?case
    using etcd_store_result [of "fst p" "snd p" V r w "Inl e" w'] etcd_maps_cong [of p w' w]
    by (auto simp: etcd_durable_def)
next
  case (3 p V j w u w')
  then show ?case
    using etcd_remove_result [of "fst p" "snd p" j w "Inr u" w'] by (simp add: etcd_durable_def etcd_good_def)
next
  case (4 p V j w e w')
  then show ?case
    using etcd_remove_result [of "fst p" "snd p" j w "Inl e" w'] etcd_maps_cong [of p w' w]
    by (auto simp: etcd_durable_def etcd_good_def)
next
  case (5 p V j w y w')
  then show ?case
    using get_by_key_ok [of "fst p" "snd p" "job_key (fst p) j" w y w'] etcd_maps_cong [of p w' w]
    by (cases j) (auto simp: etcd_durable_def etcd_good_def etcd_get_by_job_id_def etcd_jobs_def)
next
  case (6 p V s w y w')
  then show ?case
    using get_by_key_ok [of "fst p" "snd p" "service_key (fst p) s" w y w'] etcd_maps_cong [of p w' w]
    by (cases s) (auto simp: etcd_durable_def etcd_good_def etcd_get_by_service_name_def etcd_services_def)
next
  case (7 p V w rs w')
  then show ?case
    using etcd_list_ok [of "fst p" "snd p" w rs w'] etcd_maps_cong [of p w' w]
    by (auto simp: etcd_durable_def etcd_good_def)
qed (simp_all add: etcd_durable_def etcd_good_def etcd_durable_keeps)

end
