(* ===== verification/Mem_Etcd.thy ===== *)
theory Mem_Etcd
  imports Etcd Mem_Redis
begin

text \<open>
  A concrete etcd beside the in-memory Redis, and a concrete codec: they satisfy the laws the
  registry relies on, and the witnesses of the registry properties run on them.
\<close>

record mem_node = mem_world +
  m_kv :: "(string \<times> string) list"

definition node_empty :: mem_node where
  "node_empty = \<lparr>m_zset = [], m_hash = [], m_ctr = [], m_lock = [], m_now = 0, m_kv = []\<rparr>"

definition mem_keys :: "'a mem_node_scheme \<Rightarrow> string \<rightharpoonup> string" where
  "mem_keys w = map_of (m_kv w)"

fun mem_txn :: "txn_op list \<Rightarrow> (string \<times> string) list \<Rightarrow> (string \<times> string) list" where
  "mem_txn [] kvs = kvs"
| "mem_txn (TxnPut k v # ops) kvs = mem_txn ops ((k, v) # kvs)"
| "mem_txn (TxnDelete k # ops) kvs = mem_txn ops (AList.delete k kvs)"

definition mem_etcd :: "'a mem_node_scheme etcd_kv" where
  "mem_etcd =
     \<lparr>e_txn = (\<lambda>ops w. (Inr (), w\<lparr>m_kv := mem_txn ops (m_kv w)\<rparr>)),
      e_get = (\<lambda>k w. (Inr (case map_of (m_kv w) k of None \<Rightarrow> [] | Some v \<Rightarrow> [(k, v)]), w)),
      e_get_prefix = (\<lambda>p w. (Inr (map (\<lambda>k. (k, the (map_of (m_kv w) k)))
                                   (filter (\<lambda>k. prefix p k) (remdups (map fst (m_kv w))))), w))\<rparr>"

lemma map_of_mem_txn: "map_of (mem_txn ops kvs) = fold apply_op ops (map_of kvs)"
  by (induction ops kvs rule: mem_txn.induct) (auto simp: delete_conv' fun_upd_def)

lemma mem_etcd_laws: "etcd_laws mem_etcd mem_keys"
  unfolding etcd_laws_def
  by (auto simp: mem_etcd_def mem_keys_def wrote_def map_of_mem_txn keeps_def comp_def
      map_of_map_restrict restrict_map_def fun_eq_iff map_of_eq_None_iff [symmetric] dest: weak_map_of_SomeI)

lemma mem_etcd_keeps: "etcd_keeps mem_etcd mem_view"
  by (simp add: etcd_keeps_def keeps_def mem_etcd_def mem_view_def)

lemma mem_redis_keeps: "redis_keeps mem_redis mem_keys"
  by (simp add: redis_keeps_def keeps_def mem_redis_def mem_keys_def)

subsection \<open>A codec\<close>

text \<open>Every character is marked, every string ends with a dot.\<close>

fun enc_str :: "string \<Rightarrow> string" where
  "enc_str [] = ''.''"
| "enc_str (c # cs) = CHR ''x'' # c # enc_str cs"

fun dec_str :: "string \<Rightarrow> (string \<times> string) option" where
  "dec_str [] = None"
| "dec_str [c] = (if c = CHR ''.'' then Some ([], []) else None)"
| "dec_str (c # d # cs) =
     (if c = CHR ''.'' then Some ([], d # cs)
      else map_option (\<lambda>(a, b). (d # a, b)) (dec_str cs))"

definition demo_enc :: "job_registration \<Rightarrow> string + string" where
  "demo_enc r = Inr (enc_str (job_str (job_id r)) @ enc_str (service_str (service_name r)) @
     enc_str (nomad_group r))"

definition demo_dec :: "string \<Rightarrow> string + job_registration" where
  "demo_dec x =
     (case dec_str x of None \<Rightarrow> Inl ''bad json'' | Some (j, y) \<Rightarrow>
     (case dec_str y of None \<Rightarrow> Inl ''bad json'' | Some (s, z) \<Rightarrow>
     (case dec_str z of None \<Rightarrow> Inl ''bad json'' | Some (g, _) \<Rightarrow>
        Inr \<lparr>job_id = JobId j, service_name = ServiceName s, nomad_group = g\<rparr>)))"

definition demo_codec :: reg_codec where
  "demo_codec = \<lparr>enc = demo_enc, dec = demo_dec\<rparr>"

lemma dec_enc_str [simp]: "dec_str (enc_str s @ t) = Some (s, t)"
proof (induction s)
  case Nil
  then show ?case by (cases t) auto
qed simp

lemma dec_enc_str_end [simp]: "dec_str (enc_str s) = Some (s, [])"
  using dec_enc_str [of s "[]"] by simp

lemma demo_codec_ok: "codec_ok demo_codec"
proof -
  have "demo_dec x = Inr r" if "demo_enc r = Inr x" for r x
    using that by (cases "job_id r"; cases "service_name r") (auto simp: demo_enc_def demo_dec_def)
  then show ?thesis by (auto simp: codec_ok_def demo_codec_def demo_enc_def)
qed

definition demo_etcd :: "mem_node etcd_client" where
  "demo_etcd = etcd_client_new mem_etcd demo_codec ''nscale/''"

definition demo_registry :: "mem_node job_registry" where
  "demo_registry = with_durable mem_redis demo_codec (etcd_durable demo_etcd)"

end
