(* ===== verification/Registry_Properties.thy ===== *)
theory Registry_Properties
  imports Mem_Etcd
begin

text \<open>
  The properties of the job registry in front of etcd. The lemmas come from the contract
  \<open>durable_contract\<close> through its interpretation on the etcd client; the witnesses run on the
  in-memory servers.
\<close>

text \<open>
  A registry whose durable store is the etcd client \<open>st\<close>, with the laws of both servers: \<open>V\<close> is
  what Redis holds, \<open>K\<close> what etcd holds, and neither touches the other's data.
\<close>

definition etcd_backed ::
  "'w job_registry \<Rightarrow> 'w etcd_client \<Rightarrow> ('w \<Rightarrow> redis_view) \<Rightarrow> ('w \<Rightarrow> string \<rightharpoonup> string) \<Rightarrow> bool" where
  "etcd_backed R st V K \<longleftrightarrow> durable R = Some (etcd_durable st) \<and>
     hash_laws (reg_client R) V \<and> codec_ok (reg_codec R) \<and> redis_keeps (reg_client R) K \<and>
     etcd_laws (kv st) K \<and> codec_ok (etcd_codec st) \<and> etcd_keeps (kv st) V"

lemma keeps_etcd_maps:
  assumes "keeps K m" shows "keeps (\<lambda>w. (etcd_jobs (st, K) w, etcd_services (st, K) w)) m"
  unfolding keeps_def
proof
  fix s
  have "K (snd (m s)) = K s" using assms by (simp add: keeps_def)
  then show "(etcd_jobs (st, K) (snd (m s)), etcd_services (st, K) (snd (m s))) =
      (etcd_jobs (st, K) s, etcd_services (st, K) s)"
    using etcd_maps_cong [of "(st, K)" "snd (m s)" s] by simp
qed

lemma etcd_backed_fits: "etcd_backed R st V K \<Longrightarrow> etcd.fits R (st, K) V"
  by (auto simp: etcd_backed_def etcd.fits_def etcd_good_def redis_keeps_def keeps_etcd_maps)


definition shop :: job_registration where
  "shop = \<lparr>job_id = JobId ''shop'', service_name = ServiceName ''web'', nomad_group = ''g''\<rparr>"

definition shop_code :: string where
  "shop_code = ''xsxhxoxp.xwxexb.xg.''"

definition node_shop :: mem_node where
  "node_shop = node_empty\<lparr>
     m_hash := [((REGISTRY_BY_SERVICE_KEY, ''web''), shop_code), ((REGISTRY_BY_JOB_KEY, ''shop''), shop_code)],
     m_kv := [(''/nscale/services/web'', shop_code), (''/nscale/jobs/shop'', shop_code)]\<rparr>"

lemma demo_prefix: "normalize_prefix ''nscale/'' = ''/nscale''"
  by (simp add: normalize_prefix_def trim_def trim_end_matches_def is_whitespace_def)

lemmas registry_run = register_def get_def get_from_hash_def get_durable_def durable_hit_def deregister_def
  cache_registration_def encode_registration_def from_str_def remove_cached_registration_def
  evict_service_entry_def sync_from_durable_def demo_registry_def with_durable_def demo_etcd_def
  etcd_client_new_def demo_prefix etcd_durable_def etcd_store_registration_def etcd_encode_registration_def
  etcd_remove_registration_def service_keys_for_job_def etcd_get_by_job_id_def
  etcd_get_by_service_name_def etcd_list_all_def list_by_prefix_def get_by_key_def apply_txn_def
  decode_registration_def job_key_def service_key_def jobs_prefix_def services_prefix_def
  mem_etcd_def mem_redis_def subkeys_def demo_codec_def demo_enc_def demo_dec_def shop_def shop_code_def
  node_shop_def node_empty_def io_bind_def io_return_def io_map_err_def io_lift_def

lemma demo_backed: "etcd_backed demo_registry demo_etcd mem_view mem_keys"
  by (simp add: etcd_backed_def demo_registry_def with_durable_def demo_etcd_def etcd_client_new_def
      mem_hash_laws demo_codec_ok mem_redis_keeps mem_etcd_laws mem_etcd_keeps)

lemma demo_register: "register demo_registry shop node_empty = (Inr (), node_shop)"
  by (simp add: registry_run)

lemma demo_get: "get demo_registry (JobId ''shop'') node_shop = (Inr (Some shop), node_shop)"
  "get demo_registry (JobId ''web'') node_shop = (Inr (Some shop), node_shop)"
  by (simp_all add: registry_run)

lemma demo_parts:
  "hash_laws (reg_client demo_registry) mem_view" "codec_ok (reg_codec demo_registry)"
  by (simp_all add: demo_registry_def with_durable_def mem_hash_laws demo_codec_ok)



lemma demo_deregister:
  "deregister demo_registry (JobId ''shop'') node_shop = (Inr (), node_empty)"
  by (simp add: registry_run)


text \<open>
  C30: The durable store is written first. When etcd does not accept a registration, \<^verbatim>\<open>register\<close>
  reports its error and the Redis cache has not changed; when \<^verbatim>\<open>register\<close> succeeds, etcd holds
  the registration under both keys.
\<close>

theorem register_durable_first:
  assumes "etcd_backed R st V K" and "register R reg w = (x, w1)"
  shows "(\<forall>e. fst (etcd_store_registration st reg w) = Inl e \<longrightarrow> x = Inl e \<and> V w1 = V w) \<and>
         (x = Inr () \<longrightarrow> etcd_jobs (st, K) w1 (job_str (job_id reg)) = Some reg \<and>
            etcd_services (st, K) w1 (service_str (service_name reg)) = Some reg)"
proof -
  note f = etcd_backed_fits [OF assms(1)]
  have "x = Inl e \<and> V w1 = V w" if "fst (etcd_store_registration st reg w) = Inl e" for e
    using etcd.durable_first [OF f, of reg w e "snd (etcd_store_registration st reg w)"]
      that assms(2) by (auto simp: etcd_durable_def prod_eq_iff)
  then show ?thesis using etcd.register_both [OF f] assms(2) by auto
qed

theorem register_durable_first_witness:
  "\<exists>x w1. register demo_registry shop node_empty = (x, w1) \<and> x = Inr () \<and>
     etcd_jobs (demo_etcd, mem_keys) w1 ''shop'' = Some shop"
proof -
  have "etcd_jobs (demo_etcd, mem_keys) node_shop (job_str (job_id shop)) = Some shop"
    using register_durable_first [OF demo_backed demo_register] by blast
  then show ?thesis using demo_register by (auto simp: shop_def)
qed


text \<open>A Redis that cannot delete.\<close>

definition broken_redis :: "mem_node redis" where
  "broken_redis = mem_redis\<lparr>r_hdel := (\<lambda>k f w. (Inl ''READONLY'', w))\<rparr>"

definition broken_registry :: "mem_node job_registry" where
  "broken_registry = with_durable broken_redis demo_codec (etcd_durable demo_etcd)"

lemma broken_backed: "etcd_backed broken_registry demo_etcd mem_view mem_keys"
proof -
  have "hash_laws broken_redis mem_view"
    by (auto simp: hash_laws_def broken_redis_def mem_simps map_of_subkeys fun_upd_def fun_eq_iff comp_def)
  moreover have "redis_keeps broken_redis mem_keys"
    using mem_redis_keeps by (auto simp: redis_keeps_def broken_redis_def keeps_def)
  ultimately show ?thesis
    by (simp add: etcd_backed_def broken_registry_def with_durable_def demo_etcd_def etcd_client_new_def
      demo_codec_ok mem_etcd_laws mem_etcd_keeps)
qed

lemma shop_maps:
  "etcd_jobs (demo_etcd, mem_keys) node_shop ''shop'' = Some shop"
  "etcd_services (demo_etcd, mem_keys) node_shop s = (if s = ''web'' then Some shop else None)"
  by (simp_all add: etcd_jobs_def etcd_services_def decoded_def mem_keys_def registry_run)


text \<open>
  A job with two services. The rollback stores the one registration that the lookup found; the durable
  entry of the other service, removed with it, is lost, although the deregistration is reported as failed.
\<close>

definition shop_api :: job_registration where
  "shop_api = \<lparr>job_id = JobId ''shop'', service_name = ServiceName ''api'', nomad_group = ''g''\<rparr>"

theorem rollback_loses_services:
  "\<exists>w e w'. register broken_registry shop_api node_shop = (Inr (), w) \<and>
     etcd_services (demo_etcd, mem_keys) w ''web'' = Some shop \<and>
     etcd_services (demo_etcd, mem_keys) w ''api'' = Some shop_api \<and>
     deregister broken_registry (JobId ''shop'') w = (Inl e, w') \<and>
     etcd_services (demo_etcd, mem_keys) w' ''web'' = None \<and>
     etcd_services (demo_etcd, mem_keys) w' ''api'' = Some shop_api"
proof -
  let ?w = "snd (register broken_registry shop_api node_shop)"
  have r: "register broken_registry shop_api node_shop = (Inr (), ?w)"
    by (simp add: registry_run broken_registry_def broken_redis_def)
  have a: "etcd_services (demo_etcd, mem_keys) ?w ''web'' = Some shop"
    "etcd_services (demo_etcd, mem_keys) ?w ''api'' = Some shop_api"
    by (simp_all add: etcd_services_def decoded_def mem_keys_def registry_run broken_registry_def broken_redis_def shop_api_def)
  obtain e w' where d: "deregister broken_registry (JobId ''shop'') ?w = (Inl e, w')"
    "etcd_services (demo_etcd, mem_keys) w' ''web'' = None"
    "etcd_services (demo_etcd, mem_keys) w' ''api'' = Some shop_api"
    by (simp add: etcd_services_def decoded_def mem_keys_def registry_run broken_registry_def broken_redis_def shop_api_def)
  from r a d show ?thesis by blast
qed

text \<open>
  Synchronisation at start-up. After a successful \<^verbatim>\<open>sync_from_durable\<close>, every registration
  etcd holds under a service is in the cache under that service, and its job is in the cache,
  provided etcd's entries are under their own service names.
\<close>

theorem sync_fills_cache:
  assumes "etcd_backed R st V K" and "sync_from_durable R w = (Inr n, w1)"
    and "\<forall>s r. etcd_services (st, K) w s = Some r \<longrightarrow> service_str (service_name r) = s"
    and "etcd_services (st, K) w s = Some r"
  shows "cached_services (reg_codec R) (V w1) s = Some r \<and>
         cached_jobs (reg_codec R) (V w1) (job_str (job_id r)) \<noteq> None"
  using etcd.sync_ok [OF etcd_backed_fits [OF assms(1)] assms(2) _ assms(4)] assms(3) by blast

theorem sync_fills_cache_witness:
  "\<exists>n w1. etcd_backed demo_registry demo_etcd mem_view mem_keys \<and>
     sync_from_durable demo_registry (node_shop\<lparr>m_hash := []\<rparr>) = (Inr n, w1) \<and> n = 1 \<and>
     cached_services (reg_codec demo_registry) (mem_view w1) ''web'' = Some shop"
proof -
  let ?w = "node_shop\<lparr>m_hash := []\<rparr>"
  have s: "sync_from_durable demo_registry ?w = (Inr 1, node_shop)" by (simp add: registry_run)
  have m: "etcd_services (demo_etcd, mem_keys) ?w t = (if t = ''web'' then Some shop else None)" for t
    using shop_maps(2) [of t] by (simp add: etcd_services_def mem_keys_def)
  have k: "\<forall>s r. etcd_services (demo_etcd, mem_keys) ?w s = Some r \<longrightarrow> service_str (service_name r) = s"
    and h: "etcd_services (demo_etcd, mem_keys) ?w ''web'' = Some shop"
    by (simp_all add: m shop_def)
  show ?thesis using sync_fills_cache [OF demo_backed s k h] s demo_backed by blast
qed

text \<open>
  Cache-aside. A lookup that misses both hashes returns what etcd holds, by job id first and
  by service name second, and a registration found this way is cached under both keys.
\<close>

theorem get_fills_cache:
  assumes "etcd_backed R st V K" and "get R l w = (Inr y, w1)"
    and "cached_jobs (reg_codec R) (V w) (job_str l) = None"
    and "cached_services (reg_codec R) (V w) (job_str l) = None"
  shows "y = (case etcd_jobs (st, K) w (job_str l) of
                Some r \<Rightarrow> Some r
              | None \<Rightarrow> etcd_services (st, K) w (job_str l)) \<and>
         (\<forall>r. y = Some r \<longrightarrow> cached_jobs (reg_codec R) (V w1) (job_str (job_id r)) = Some r \<and>
            cached_services (reg_codec R) (V w1) (service_str (service_name r)) = Some r)"
  using etcd.get_cache_aside [OF etcd_backed_fits [OF assms(1)] assms(2-4)] by simp

theorem get_fills_cache_witness:
  "\<exists>w1. get demo_registry (JobId ''web'') (node_shop\<lparr>m_hash := []\<rparr>) = (Inr (Some shop), w1) \<and>
     cached_jobs (reg_codec demo_registry) (mem_view w1) ''shop'' = Some shop"
proof -
  let ?w = "node_shop\<lparr>m_hash := []\<rparr>"
  have g: "get demo_registry (JobId ''web'') ?w = (Inr (Some shop), node_shop)" by (simp add: registry_run)
  have "cached_jobs (reg_codec demo_registry) (mem_view ?w) (job_str (JobId ''web'')) = None"
    "cached_services (reg_codec demo_registry) (mem_view ?w) (job_str (JobId ''web'')) = None"
    by (simp_all add: cached_jobs_def cached_services_def mem_view_def)
  from get_fills_cache [OF demo_backed g this]
  have "cached_jobs (reg_codec demo_registry) (mem_view node_shop) (job_str (job_id shop)) = Some shop" by blast
  then show ?thesis using g by (simp add: shop_def)
qed

text \<open>
  Keys in etcd. Whatever prefix is configured, the normalised prefix starts with a slash and
  does not end with one, and keys of different jobs and services, or of a job and a service,
  are different.
\<close>

theorem etcd_keys_well_formed:
  "hd (normalize_prefix p) = CHR ''/'' \<and> last (normalize_prefix p) \<noteq> CHR ''/'' \<and>
   (job_key st i = job_key st j) = (i = j) \<and> (service_key st s = service_key st t) = (s = t) \<and>
   job_key st i \<noteq> service_key st s"
proof -
  let ?t = "trim_end_matches CHR ''/'' (trim p)"
  have "?t \<noteq> [] \<Longrightarrow> last ?t \<noteq> CHR ''/''" by (rule trim_end_matches_last)
  moreover have "prefix ''/'' ?t \<Longrightarrow> hd ?t = CHR ''/''" by (auto simp: prefix_def)
  ultimately have "hd (normalize_prefix p) = CHR ''/'' \<and> last (normalize_prefix p) \<noteq> CHR ''/''"
    by (auto simp: normalize_prefix_def Let_def)
  then show ?thesis by simp
qed

end
