(* ===== verification/Json.thy ===== *)
theory Json
  imports Core
begin

text \<open>
  JSON values as \<^verbatim>\<open>serde_json::Value\<close> has them. An object is an association list in which the
  first entry of a key counts; a number is kept as it is written.
\<close>

datatype json =
    JNull
  | JBool bool
  | JNumber string
  | JString string
  | JArray "json list"
  | JObject "(string \<times> json) list"

fun as_str :: "json \<Rightarrow> string option" where
  "as_str (JString s) = Some s"
| "as_str _ = None"

fun as_array :: "json \<Rightarrow> json list option" where
  "as_array (JArray xs) = Some xs"
| "as_array _ = None"

fun as_object :: "json \<Rightarrow> (string \<times> json) list option" where
  "as_object (JObject kvs) = Some kvs"
| "as_object _ = None"

text \<open>\<^verbatim>\<open>Value::get\<close>: a member of an object, nothing on any other value.\<close>

fun json_get :: "string \<Rightarrow> json \<Rightarrow> json option" where
  "json_get k (JObject kvs) = map_of kvs k"
| "json_get k _ = None"

text \<open>Writing through \<^verbatim>\<open>get_mut\<close> or \<^verbatim>\<open>entry\<close>: the entry's value, or a new entry.\<close>

fun obj_set :: "string \<Rightarrow> json \<Rightarrow> (string \<times> json) list \<Rightarrow> (string \<times> json) list" where
  "obj_set k v [] = [(k, v)]"
| "obj_set k v ((l, x) # kvs) = (if l = k then (l, v) # kvs else (l, x) # obj_set k v kvs)"

lemma map_of_obj_set [simp]: "map_of (obj_set k v kvs) = (map_of kvs)(k \<mapsto> v)"
  by (induction k v kvs rule: obj_set.induct) (auto simp: fun_eq_iff)

lemma as_str_Some_iff [simp]: "as_str v = Some s \<longleftrightarrow> v = JString s"
  by (cases v) auto

lemma as_array_Some_iff [simp]: "as_array v = Some xs \<longleftrightarrow> v = JArray xs"
  by (cases v) auto

lemma as_object_Some_iff [simp]: "as_object v = Some kvs \<longleftrightarrow> v = JObject kvs"
  by (cases v) auto

lemma obj_set_same: "map_of kvs k = Some v \<Longrightarrow> obj_set k v kvs = kvs"
  by (induction k v kvs rule: obj_set.induct) (auto split: if_splits)

lemma obj_set_twice [simp]: "obj_set k v (obj_set k u kvs) = obj_set k v kvs"
  by (induction k u kvs rule: obj_set.induct) auto

end
