(* ===== verification/Job_Mutator.thy ===== *)
theory Job_Mutator
  imports Json "HOL-Library.Char_ord" "HOL-Library.List_Lexorder"
begin

text \<open>
  The job mutator of \<^verbatim>\<open>crates/nscale-nomad/src/job_mutator.rs\<close>: it routes every Traefik-enabled
  service of a parsed job through nscale and collects the registrations.

  The code mutates the job in place; here the functions return the new value. On an error the
  caller answers the request and drops the value, so the partly changed job is not returned.
  A \<^verbatim>\<open>BTreeSet\<close> of strings is walked in the order of its elements, which is \<open>sort\<close> here.
\<close>

definition TRAEFIK_ENABLE_TAG :: string where
  "TRAEFIK_ENABLE_TAG = ''traefik.enable=true''"

definition ROUTER_PREFIX :: string where
  "ROUTER_PREFIX = ''traefik.http.routers.''"

definition router_name_of :: "json \<Rightarrow> string option" where
  "router_name_of v =
     Option.bind (as_str v) (\<lambda>tag. Option.bind (strip_prefix ROUTER_PREFIX tag)
       (\<lambda>rest. map_option fst (split_once CHR ''.'' rest)))"

definition collect_router_names :: "json list \<Rightarrow> string list" where
  "collect_router_names tags = sort (remdups (List.map_filter router_name_of tags))"

definition service_tag_prefix :: "string \<Rightarrow> string" where
  "service_tag_prefix router_name = ROUTER_PREFIX @ router_name @ ''.service=''"

definition tag_matches :: "string \<Rightarrow> json \<Rightarrow> bool" where
  "tag_matches p v = (case as_str v of Some tag \<Rightarrow> prefix p tag | None \<Rightarrow> False)"

definition remove_at :: "nat \<Rightarrow> 'a list \<Rightarrow> 'a list" where
  "remove_at i xs = take i xs @ drop (Suc i) xs"

definition upsert_router_service_tag :: "json list \<Rightarrow> string \<Rightarrow> string \<Rightarrow> json list" where
  "upsert_router_service_tag tags router_name file_provider_service =
     (let p = service_tag_prefix router_name;
          desired = JString (p @ file_provider_service)
      in case filter (\<lambda>i. tag_matches p (tags ! i)) [0 ..< length tags] of
           first_index # rest \<Rightarrow> foldr remove_at rest (tags[first_index := desired])
         | [] \<Rightarrow> tags @ [desired])"

text \<open>The state the loops thread through: the triples seen and the registrations so far.\<close>

type_synonym seen_triple = "string \<times> string \<times> string"
type_synonym inject_state = "seen_triple set \<times> job_registration list"

definition note_registration :: "string \<Rightarrow> string \<Rightarrow> string \<Rightarrow> inject_state \<Rightarrow> inject_state" where
  "note_registration job svc grp s =
     (if (job, svc, grp) \<in> fst s then s
      else (insert (job, svc, grp) (fst s),
            snd s @ [\<lparr>job_id = JobId job, service_name = ServiceName svc, nomad_group = grp\<rparr>]))"

definition quoted :: "string \<Rightarrow> string" where
  "quoted x = [CHR 39] @ x @ [CHR 39]"

definition has_traefik_enabled :: "json list \<Rightarrow> bool" where
  "has_traefik_enabled tags = list_ex (\<lambda>v. as_str v = Some TRAEFIK_ENABLE_TAG) tags"

text \<open>One iteration of the loop in \<^verbatim>\<open>inject_service_tags\<close>.\<close>

definition inject_service ::
  "string \<Rightarrow> string \<Rightarrow> string \<Rightarrow> json \<Rightarrow> inject_state \<Rightarrow> (json \<times> inject_state) result" where
  "inject_service job grp provider service s =
     (case as_object service of
        None \<Rightarrow> Inl (Nomad (''service in group '' @ quoted grp @ '' of job '' @ quoted job @ '' is not an object''))
      | Some obj \<Rightarrow>
     (case Option.bind (map_of obj ''Name'') as_str of
        None \<Rightarrow> Inl (Nomad (''service in group '' @ quoted grp @ '' of job '' @ quoted job @ '' is missing Name''))
      | Some svc \<Rightarrow>
     (case as_array (case map_of obj ''Tags'' of Some t \<Rightarrow> t | None \<Rightarrow> JArray []) of
        None \<Rightarrow> Inl (Nomad (''service '' @ quoted svc @ '' in group '' @ quoted grp @ '' of job '' @ quoted job @
                       '' has non-array Tags''))
      | Some tags \<Rightarrow>
          if \<not> has_traefik_enabled tags then Inr (JObject (obj_set ''Tags'' (JArray tags) obj), s)
          else if collect_router_names tags = [] then
            Inl (Nomad (''traefik-enabled service '' @ quoted svc @ '' in group '' @ quoted grp @ '' of job '' @
              quoted job @ '' is missing explicit router tags''))
          else
            let tags' = fold (\<lambda>r ts. upsert_router_service_tag ts r provider) (collect_router_names tags) tags
            in Inr (JObject (obj_set ''Tags'' (JArray tags') obj), note_registration job svc grp s))))"

text \<open>A loop over mutable elements that may leave with an error.\<close>

fun each_mut :: "('a \<Rightarrow> 's \<Rightarrow> ('a \<times> 's) result) \<Rightarrow> 'a list \<Rightarrow> 's \<Rightarrow> ('a list \<times> 's) result" where
  "each_mut f [] s = Inr ([], s)"
| "each_mut f (x # xs) s =
     (case f x s of
        Inl e \<Rightarrow> Inl e
      | Inr (y, t) \<Rightarrow> (case each_mut f xs t of Inl e \<Rightarrow> Inl e | Inr (ys, u) \<Rightarrow> Inr (y # ys, u)))"

definition inject_service_tags ::
  "string \<Rightarrow> string \<Rightarrow> string \<Rightarrow> json list \<Rightarrow> inject_state \<Rightarrow> (json list \<times> inject_state) result" where
  "inject_service_tags job grp provider = each_mut (inject_service job grp provider)"

text \<open>\<^verbatim>\<open>if let Some(services) = obj.get_mut(key).and_then(as_array_mut) { ... }\<close>\<close>

definition on_array_member ::
  "string \<Rightarrow> (json list \<Rightarrow> 's \<Rightarrow> (json list \<times> 's) result) \<Rightarrow>
   (string \<times> json) list \<Rightarrow> 's \<Rightarrow> ((string \<times> json) list \<times> 's) result" where
  "on_array_member key f obj s =
     (case Option.bind (map_of obj key) as_array of
        None \<Rightarrow> Inr (obj, s)
      | Some xs \<Rightarrow> (case f xs s of Inl e \<Rightarrow> Inl e | Inr (ys, t) \<Rightarrow> Inr (obj_set key (JArray ys) obj, t)))"

definition inject_task ::
  "string \<Rightarrow> string \<Rightarrow> string \<Rightarrow> json \<Rightarrow> inject_state \<Rightarrow> (json \<times> inject_state) result" where
  "inject_task job grp provider task s =
     (case as_object task of
        None \<Rightarrow> Inl (Nomad (''task in group '' @ quoted grp @ '' of job '' @ quoted job @ '' is not an object''))
      | Some obj \<Rightarrow>
          (case on_array_member ''Services'' (inject_service_tags job grp provider) obj s of
             Inl e \<Rightarrow> Inl e
           | Inr (obj', t) \<Rightarrow> Inr (JObject obj', t)))"

definition inject_group ::
  "string \<Rightarrow> string \<Rightarrow> json \<Rightarrow> inject_state \<Rightarrow> (json \<times> inject_state) result" where
  "inject_group job provider task_group s =
     (case as_object task_group of
        None \<Rightarrow> Inl (Nomad (''task group in job '' @ quoted job @ '' is not an object''))
      | Some obj \<Rightarrow>
     (case Option.bind (map_of obj ''Name'') as_str of
        None \<Rightarrow> Inl (Nomad (''task group in job '' @ quoted job @ '' is missing Name''))
      | Some grp \<Rightarrow>
     (case on_array_member ''Services'' (inject_service_tags job grp provider) obj s of
        Inl e \<Rightarrow> Inl e
      | Inr (obj1, s1) \<Rightarrow>
     (case on_array_member ''Tasks'' (each_mut (inject_task job grp provider)) obj1 s1 of
        Inl e \<Rightarrow> Inl e
      | Inr (obj2, s2) \<Rightarrow> Inr (JObject obj2, s2)))))"

definition job_id_of :: "(string \<times> json) list \<Rightarrow> string option" where
  "job_id_of obj =
     (case Option.bind (map_of obj ''ID'') as_str of
        Some i \<Rightarrow> Some i
      | None \<Rightarrow> Option.bind (map_of obj ''Name'') as_str)"

definition inject_nscale_tags :: "json \<Rightarrow> string \<Rightarrow> (json \<times> job_registration list) result" where
  "inject_nscale_tags job provider =
     (case as_object job of
        None \<Rightarrow> Inl (Nomad ''parsed job is not a JSON object'')
      | Some obj \<Rightarrow>
     (case job_id_of obj of
        None \<Rightarrow> Inl (Nomad ''parsed job is missing ID'')
      | Some j \<Rightarrow>
     (case Option.bind (map_of obj ''TaskGroups'') as_array of
        None \<Rightarrow> Inl (Nomad (''parsed job '' @ quoted j @ '' is missing TaskGroups''))
      | Some groups \<Rightarrow>
     (case each_mut (inject_group j provider) groups ({}, []) of
        Inl e \<Rightarrow> Inl e
      | Inr (groups', s) \<Rightarrow> Inr (JObject (obj_set ''TaskGroups'' (JArray groups') obj), snd s)))))"

subsection \<open>The index loop of the upsert\<close>

text \<open>What the loop computes: the first match is replaced, later matches are dropped.\<close>

fun upsert_rec :: "('a \<Rightarrow> bool) \<Rightarrow> 'a \<Rightarrow> 'a list \<Rightarrow> 'a list" where
  "upsert_rec P d [] = [d]"
| "upsert_rec P d (x # xs) = (if P x then d # filter (\<lambda>y. \<not> P y) xs else x # upsert_rec P d xs)"

definition matching :: "('a \<Rightarrow> bool) \<Rightarrow> 'a list \<Rightarrow> nat list" where
  "matching P xs = filter (\<lambda>i. P (xs ! i)) [0 ..< length xs]"

lemma matching_Nil [simp]: "matching P [] = []"
  by (simp add: matching_def)

lemma matching_Cons [simp]:
  "matching P (x # xs) = (if P x then [0] else []) @ map Suc (matching P xs)"
proof -
  have "[0 ..< length (x # xs)] = 0 # map Suc [0 ..< length xs]"
    by (simp only: list.size(4) upt_conv_Cons map_Suc_upt) simp
  then show ?thesis by (simp add: matching_def filter_map comp_def)
qed

lemma foldr_remove_Suc: "foldr remove_at (map Suc is) (x # xs) = x # foldr remove_at is xs"
  by (induction "is") (auto simp: remove_at_def)

lemma foldr_remove_matching: "foldr remove_at (matching P xs) xs = filter (\<lambda>y. \<not> P y) xs"
  by (induction xs) (simp_all add: foldr_remove_Suc, simp add: remove_at_def)

lemma upsert_loop:
  "(case matching P xs of i # is \<Rightarrow> foldr remove_at is (xs[i := d]) | [] \<Rightarrow> xs @ [d]) = upsert_rec P d xs"
proof (induction xs)
  case Nil
  then show ?case by simp
next
  case (Cons x xs)
  show ?case
  proof (cases "P x")
    case True
    then show ?thesis by (simp add: foldr_remove_Suc foldr_remove_matching)
  next
    case False
    with Cons show ?thesis by (cases "matching P xs") (auto simp: foldr_remove_Suc)
  qed
qed

lemma upsert_is_rec:
  "upsert_router_service_tag tags r svc =
     upsert_rec (tag_matches (service_tag_prefix r)) (JString (service_tag_prefix r @ svc)) tags"
  by (simp add: upsert_router_service_tag_def Let_def flip: matching_def upsert_loop)

lemma upsert_rec_match: "P d \<Longrightarrow> filter P (upsert_rec P d xs) = [d]"
  by (induction xs) (auto simp: filter_empty_conv)

lemma upsert_rec_others: "P d \<Longrightarrow> filter (\<lambda>y. \<not> P y) (upsert_rec P d xs) = filter (\<lambda>y. \<not> P y) xs"
  by (induction xs) auto

lemma upsert_rec_fixed: "filter P xs = [d] \<Longrightarrow> upsert_rec P d xs = xs"
proof (induction xs)
  case Nil
  then show ?case by simp
next
  case (Cons x xs)
  then show ?case by (auto simp: filter_empty_conv intro: filter_True split: if_splits)
qed

lemma tag_matches_desired [simp]: "tag_matches p (JString (p @ svc))"
  by (simp add: tag_matches_def)

lemma set_upsert_rec: "set (upsert_rec P d xs) \<subseteq> insert d (set xs)"
  by (induction xs) auto

subsection \<open>Router names\<close>

lemma router_name_of_match:
  assumes "tag_matches (service_tag_prefix r) v" and "CHR ''.'' \<notin> set r"
  shows "router_name_of v = Some r"
proof -
  obtain t where "v = JString (ROUTER_PREFIX @ r @ CHR ''.'' # ''service='' @ t)"
    using assms(1) by (auto simp: tag_matches_def service_tag_prefix_def prefix_def split: option.splits)
  then show ?thesis
    using assms(2) by (simp add: router_name_of_def strip_prefix_def split_once_append)
qed

lemma router_name_no_dot: "router_name_of v = Some r \<Longrightarrow> CHR ''.'' \<notin> set r"
  by (auto simp: router_name_of_def split_once_Some_iff bind_eq_Some_conv)

lemma set_collect: "set (collect_router_names tags) = {r. \<exists>v \<in> set tags. router_name_of v = Some r}"
  by (force simp: collect_router_names_def map_filter_def image_iff)

lemma collect_cong:
  assumes "set (collect_router_names a) = set (collect_router_names b)"
  shows "collect_router_names a = collect_router_names b"
  using assms unfolding collect_router_names_def
  by (intro sorted_distinct_set_unique) simp_all

subsection \<open>One service\<close>

abbreviation desired_tag :: "string \<Rightarrow> string \<Rightarrow> json" where
  "desired_tag r svc \<equiv> JString (service_tag_prefix r @ svc)"

abbreviation upsert_all :: "string \<Rightarrow> string list \<Rightarrow> json list \<Rightarrow> json list" where
  "upsert_all svc rs tags \<equiv> fold (\<lambda>r ts. upsert_router_service_tag ts r svc) rs tags"

text \<open>Two different routers have no tag in common.\<close>

lemma matches_disjoint:
  "CHR ''.'' \<notin> set r \<Longrightarrow> CHR ''.'' \<notin> set q \<Longrightarrow> tag_matches (service_tag_prefix r) v \<Longrightarrow>
   tag_matches (service_tag_prefix q) v \<Longrightarrow> r = q"
  by (metis option.inject router_name_of_match)

lemma filter_upsert_other:
  assumes "CHR ''.'' \<notin> set r" and "CHR ''.'' \<notin> set q" and "r \<noteq> q"
  shows "filter (tag_matches (service_tag_prefix q)) (upsert_router_service_tag tags r svc) =
         filter (tag_matches (service_tag_prefix q)) tags"
proof -
  have dis: "\<not> tag_matches (service_tag_prefix q) v" if "tag_matches (service_tag_prefix r) v" for v
    using matches_disjoint [OF assms(1,2) that] assms(3) by blast
  then show ?thesis
    unfolding upsert_is_rec by (induction tags) (auto simp: filter_empty_conv intro: filter_cong)
qed

lemma filter_upsert_same:
  "filter (tag_matches (service_tag_prefix r)) (upsert_router_service_tag tags r svc) = [desired_tag r svc]"
  by (simp add: upsert_is_rec upsert_rec_match)

lemma filter_upsert_all:
  assumes "distinct rs" and "\<forall>r \<in> set rs. CHR ''.'' \<notin> set r" and "CHR ''.'' \<notin> set q"
  shows "filter (tag_matches (service_tag_prefix q)) (upsert_all svc rs tags) =
         (if q \<in> set rs then [desired_tag q svc] else filter (tag_matches (service_tag_prefix q)) tags)"
  using assms(1,2)
proof (induction rs arbitrary: tags)
  case Nil
  then show ?case by simp
next
  case (Cons r rs)
  show ?case
  proof (cases "q = r")
    case True
    with Cons show ?thesis by (simp add: filter_upsert_same)
  next
    case False
    with Cons assms(3) show ?thesis by (simp add: filter_upsert_other)
  qed
qed

lemma upsert_all_fixed:
  assumes "\<forall>r \<in> set rs. filter (tag_matches (service_tag_prefix r)) tags = [desired_tag r svc]"
  shows "upsert_all svc rs tags = tags"
  using assms by (induction rs) (auto simp: upsert_is_rec upsert_rec_fixed)

text \<open>Tags that no router's service entry matches are kept, in order.\<close>

lemma upsert_all_others:
  "filter (\<lambda>v. \<forall>r \<in> set rs. \<not> tag_matches (service_tag_prefix r) v) (upsert_all svc rs tags) =
   filter (\<lambda>v. \<forall>r \<in> set rs. \<not> tag_matches (service_tag_prefix r) v) tags"
proof -
  have "filter (\<lambda>v. \<forall>r \<in> A. \<not> tag_matches (service_tag_prefix r) v) (upsert_all svc rs tags) =
        filter (\<lambda>v. \<forall>r \<in> A. \<not> tag_matches (service_tag_prefix r) v) tags"
    if "set rs \<subseteq> A" for A
    using that
  proof (induction rs arbitrary: tags)
    case Nil
    then show ?case by simp
  next
    case (Cons r rs)
    let ?Q = "\<lambda>v. \<forall>r \<in> A. \<not> tag_matches (service_tag_prefix r) v"
    let ?N = "\<lambda>v. \<not> tag_matches (service_tag_prefix r) v"
    have sub: "filter ?Q ts = filter ?Q (filter ?N ts)" for ts
      using Cons.prems by (auto simp: filter_filter intro!: filter_cong)
    have "filter ?N (upsert_router_service_tag tags r svc) = filter ?N tags"
      unfolding upsert_is_rec by (rule upsert_rec_others) simp
    then have "filter ?Q (upsert_router_service_tag tags r svc) = filter ?Q tags"
      using sub [of tags] sub [of "upsert_router_service_tag tags r svc"] by simp
    with Cons show ?case by simp
  qed
  then show ?thesis by blast
qed

lemma set_upsert_all: "set (upsert_all svc rs tags) \<subseteq> set tags \<union> (\<lambda>r. desired_tag r svc) ` set rs"
proof (induction rs arbitrary: tags)
  case Nil
  then show ?case by simp
next
  case (Cons r rs)
  have "set (upsert_router_service_tag tags r svc) \<subseteq> insert (desired_tag r svc) (set tags)"
    unfolding upsert_is_rec by (rule set_upsert_rec)
  with Cons [of "upsert_router_service_tag tags r svc"] show ?case by auto
qed

lemma names_no_dot: "r \<in> set (collect_router_names tags) \<Longrightarrow> CHR ''.'' \<notin> set r"
  by (auto simp: set_collect router_name_no_dot)

lemma collect_upsert_all:
  "collect_router_names (upsert_all svc (collect_router_names tags) tags) = collect_router_names tags"
proof (rule collect_cong, intro equalityI subsetI)
  let ?rs = "collect_router_names tags"
  fix q
  assume "q \<in> set (collect_router_names (upsert_all svc ?rs tags))"
  then obtain v where v: "v \<in> set (upsert_all svc ?rs tags)" "router_name_of v = Some q"
    by (auto simp: set_collect)
  then consider "v \<in> set tags" | r where "r \<in> set ?rs" "v = desired_tag r svc"
    using set_upsert_all by fastforce
  then show "q \<in> set ?rs"
  proof cases
    case 1
    with v(2) show ?thesis by (auto simp: set_collect)
  next
    case 2
    with v(2) router_name_of_match [of r v] names_no_dot show ?thesis by auto
  qed
next
  let ?rs = "collect_router_names tags"
  fix q
  assume q: "q \<in> set ?rs"
  have d: "distinct ?rs" by (simp add: collect_router_names_def)
  have "filter (tag_matches (service_tag_prefix q)) (upsert_all svc ?rs tags) = [desired_tag q svc]"
    using filter_upsert_all [OF d, of q svc tags] names_no_dot q by auto
  then have "desired_tag q svc \<in> set (upsert_all svc ?rs tags)"
    using filter_set [of "tag_matches (service_tag_prefix q)" "upsert_all svc ?rs tags"] by auto
  then show "q \<in> set (collect_router_names (upsert_all svc ?rs tags))"
    using router_name_of_match [of q "desired_tag q svc"] names_no_dot [OF q] by (auto simp: set_collect)
qed

subsection \<open>Running the mutator twice\<close>

text \<open>\<open>f\<close> accepts its own output and leaves it alone.\<close>

definition settles :: "('a \<Rightarrow> 's \<Rightarrow> ('a \<times> 's) result) \<Rightarrow> bool" where
  "settles f \<longleftrightarrow> (\<forall>x s y t. f x s = Inr (y, t) \<longrightarrow> f y s = Inr (y, t))"

lemma settlesD: "settles f \<Longrightarrow> f x s = Inr (y, t) \<Longrightarrow> f y s = Inr (y, t)"
  by (auto simp: settles_def)

lemma settles_each:
  assumes "settles f"
  shows "settles (each_mut f)"
proof -
  have "each_mut f xs s = Inr (ys, t) \<Longrightarrow> each_mut f ys s = Inr (ys, t)" for xs s ys t
  proof (induction xs arbitrary: s ys)
    case Nil
    then show ?case by simp
  next
    case (Cons x xs)
    obtain y u zs where "f x s = Inr (y, u)" "each_mut f xs u = Inr (zs, t)" "ys = y # zs"
      using Cons.prems by (auto split: sum.splits prod.splits)
    with Cons.IH settlesD [OF assms] show ?case by auto
  qed
  then show ?thesis by (auto simp: settles_def)
qed

lemma on_array_member_Inr:
  "on_array_member k f obj s = Inr (obj', t) \<longleftrightarrow>
     (case Option.bind (map_of obj k) as_array of
        None \<Rightarrow> obj' = obj \<and> t = s
      | Some xs \<Rightarrow> \<exists>ys. f xs s = Inr (ys, t) \<and> obj' = obj_set k (JArray ys) obj)"
  by (auto simp: on_array_member_def split: option.splits sum.splits)

lemma on_array_member_other:
  "on_array_member k f obj s = Inr (obj', t) \<Longrightarrow> l \<noteq> k \<Longrightarrow> map_of obj' l = map_of obj l"
  by (auto simp: on_array_member_Inr split: option.splits)

text \<open>It settles even when other members of the object have changed meanwhile.\<close>

lemma settles_member:
  assumes "settles f" and "on_array_member k f obj s = Inr (obj', t)"
    and "map_of obj'' k = map_of obj' k"
  shows "on_array_member k f obj'' s = Inr (obj'', t)"
  using assms settlesD [OF assms(1)]
  by (auto simp: on_array_member_Inr obj_set_same split: option.splits)

lemma enabled_upsert_all:
  assumes "has_traefik_enabled tags"
  shows "has_traefik_enabled (upsert_all svc rs tags)"
proof -
  have no: "\<not> tag_matches (service_tag_prefix r) (JString TRAEFIK_ENABLE_TAG)" for r
    by (simp add: tag_matches_def service_tag_prefix_def TRAEFIK_ENABLE_TAG_def ROUTER_PREFIX_def)
  have "JString TRAEFIK_ENABLE_TAG \<in>
      set (filter (\<lambda>v. \<forall>r \<in> set rs. \<not> tag_matches (service_tag_prefix r) v) tags)"
    using assms no by (auto simp: has_traefik_enabled_def list_ex_iff)
  then have "JString TRAEFIK_ENABLE_TAG \<in> set (upsert_all svc rs tags)"
    unfolding upsert_all_others [of rs svc tags, symmetric] by simp
  then show ?thesis by (auto simp: has_traefik_enabled_def list_ex_iff)
qed

lemma upsert_all_twice:
  "upsert_all svc (collect_router_names tags) (upsert_all svc (collect_router_names tags) tags) =
   upsert_all svc (collect_router_names tags) tags"
proof (rule upsert_all_fixed, rule ballI)
  fix r
  assume r: "r \<in> set (collect_router_names tags)"
  have "distinct (collect_router_names tags)" by (simp add: collect_router_names_def)
  then show "filter (tag_matches (service_tag_prefix r)) (upsert_all svc (collect_router_names tags) tags) =
      [desired_tag r svc]"
    using filter_upsert_all [of "collect_router_names tags" r svc tags] names_no_dot r by auto
qed

lemma inject_service_Inr:
  "inject_service job grp provider v s = Inr (v', t) \<longleftrightarrow>
     (\<exists>obj svc tags. v = JObject obj \<and> Option.bind (map_of obj ''Name'') as_str = Some svc \<and>
        (case map_of obj ''Tags'' of Some x \<Rightarrow> x | None \<Rightarrow> JArray []) = JArray tags \<and>
        (if has_traefik_enabled tags
         then collect_router_names tags \<noteq> [] \<and>
              v' = JObject (obj_set ''Tags'' (JArray (upsert_all provider (collect_router_names tags) tags)) obj) \<and>
              t = note_registration job svc grp s
         else v' = JObject (obj_set ''Tags'' (JArray tags) obj) \<and> t = s))"
  by (cases v) (auto simp: inject_service_def Let_def split: option.splits if_splits)

lemma settles_service: "settles (inject_service job grp provider)"
  unfolding settles_def inject_service_Inr
  by (force simp: enabled_upsert_all collect_upsert_all upsert_all_twice split: if_splits)

lemma settles_task: "settles (inject_task job grp provider)"
proof -
  have f: "settles (inject_service_tags job grp provider)"
    unfolding inject_service_tags_def by (intro settles_each settles_service)
  show ?thesis
    unfolding settles_def inject_task_def
    by (auto split: option.splits sum.splits prod.splits simp: settles_member [OF f])
qed

lemma settles_group: "settles (inject_group job provider)"
proof -
  have f: "settles (inject_service_tags job grp provider)" for grp
    unfolding inject_service_tags_def by (intro settles_each settles_service)
  have g: "settles (each_mut (inject_task job grp provider))" for grp
    by (intro settles_each settles_task)
  have "inject_group job provider y s = Inr (y, t)" if x: "inject_group job provider x s = Inr (y, t)" for x s y t
  proof -
    obtain obj grp obj1 s1 obj2 where o: "x = JObject obj" "Option.bind (map_of obj ''Name'') as_str = Some grp"
      and a: "on_array_member ''Services'' (inject_service_tags job grp provider) obj s = Inr (obj1, s1)"
      and b: "on_array_member ''Tasks'' (each_mut (inject_task job grp provider)) obj1 s1 = Inr (obj2, t)"
      and y: "y = JObject obj2"
      using x by (auto simp: inject_group_def split: option.splits sum.splits prod.splits)
    have "map_of obj2 ''Name'' = map_of obj ''Name''" and "map_of obj2 ''Services'' = map_of obj1 ''Services''"
      using on_array_member_other [OF a] on_array_member_other [OF b] by simp_all
    then show ?thesis
      using o(2) settles_member [OF f a, of obj2] settles_member [OF g b, of obj2]
      by (simp add: y inject_group_def)
  qed
  then show ?thesis by (auto simp: settles_def)
qed

subsection \<open>Which registrations come out\<close>

text \<open>The specification: the Traefik-enabled services of a job, with the groups they are in.\<close>

definition array_member :: "string \<Rightarrow> json \<Rightarrow> json list" where
  "array_member k v = (case Option.bind (json_get k v) as_array of Some xs \<Rightarrow> xs | None \<Rightarrow> [])"

definition service_enabled :: "json \<Rightarrow> bool" where
  "service_enabled v = has_traefik_enabled (array_member ''Tags'' v)"

definition group_services :: "json \<Rightarrow> json list" where
  "group_services g =
     array_member ''Services'' g @ concat (map (array_member ''Services'') (array_member ''Tasks'' g))"

definition registration_for :: "string \<Rightarrow> json \<Rightarrow> json \<Rightarrow> job_registration option" where
  "registration_for job g v =
     (case (Option.bind (json_get ''Name'' g) as_str, Option.bind (json_get ''Name'' v) as_str) of
        (Some grp, Some svc) \<Rightarrow>
          Some \<lparr>job_id = JobId job, service_name = ServiceName svc, nomad_group = grp\<rparr>
      | _ \<Rightarrow> None)"

definition expected_registrations :: "string \<Rightarrow> json list \<Rightarrow> job_registration set" where
  "expected_registrations job groups =
     {r. \<exists>g \<in> set groups. \<exists>v \<in> set (group_services g).
           service_enabled v \<and> registration_for job g v = Some r}"

definition reg_triple :: "job_registration \<Rightarrow> seen_triple" where
  "reg_triple r = (job_str (job_id r), service_str (service_name r), nomad_group r)"

definition in_step :: "inject_state \<Rightarrow> bool" where
  "in_step s \<longleftrightarrow> fst s = reg_triple ` set (snd s) \<and> distinct (snd s)"

lemma reg_triple_inj: "reg_triple r = reg_triple q \<longleftrightarrow> r = q"
  by (cases r; cases q) (auto simp: reg_triple_def intro: job_id.expand service_name.expand)

text \<open>A step that keeps the two sets in step and adds the registrations \<open>A x\<close>.\<close>

definition adds :: "('a \<Rightarrow> inject_state \<Rightarrow> ('a \<times> inject_state) result) \<Rightarrow> ('a \<Rightarrow> job_registration set) \<Rightarrow> bool" where
  "adds f A \<longleftrightarrow> (\<forall>x s y t. f x s = Inr (y, t) \<and> in_step s \<longrightarrow> in_step t \<and> set (snd t) = set (snd s) \<union> A x)"

lemma addsD: "adds f A \<Longrightarrow> f x s = Inr (y, t) \<Longrightarrow> in_step s \<Longrightarrow> in_step t \<and> set (snd t) = set (snd s) \<union> A x"
  unfolding adds_def by blast

lemma adds_each:
  assumes "adds f A"
  shows "adds (each_mut f) (\<lambda>xs. \<Union>x \<in> set xs. A x)"
proof -
  have "in_step t \<and> set (snd t) = set (snd s) \<union> (\<Union>x \<in> set xs. A x)"
    if "each_mut f xs s = Inr (ys, t)" "in_step s" for xs s ys t
    using that
  proof (induction xs arbitrary: s ys)
    case Nil
    then show ?case by simp
  next
    case (Cons x xs)
    obtain y u zs where y: "f x s = Inr (y, u)" and zs: "each_mut f xs u = Inr (zs, t)"
      using Cons.prems by (auto split: sum.splits prod.splits)
    note u = addsD [OF assms y Cons.prems(2)]
    from Cons.IH [OF zs] u show ?case by (simp add: Un_assoc)
  qed
  then show ?thesis unfolding adds_def by blast
qed

lemma note_registration_adds:
  assumes "in_step s"
  shows "in_step (note_registration job svc grp s) \<and> set (snd (note_registration job svc grp s)) =
     insert \<lparr>job_id = JobId job, service_name = ServiceName svc, nomad_group = grp\<rparr> (set (snd s))"
proof -
  let ?r = "\<lparr>job_id = JobId job, service_name = ServiceName svc, nomad_group = grp\<rparr>"
  have t: "(job, svc, grp) = reg_triple ?r" by (simp add: reg_triple_def)
  have "(job, svc, grp) \<in> fst s \<longleftrightarrow> ?r \<in> set (snd s)"
    using assms unfolding t by (auto simp: in_step_def reg_triple_inj)
  then show ?thesis using assms t by (auto simp: note_registration_def in_step_def)
qed

definition service_regs :: "string \<Rightarrow> string \<Rightarrow> json \<Rightarrow> job_registration set" where
  "service_regs job grp v =
     {r. service_enabled v \<and> (\<exists>svc. Option.bind (json_get ''Name'' v) as_str = Some svc \<and>
        r = \<lparr>job_id = JobId job, service_name = ServiceName svc, nomad_group = grp\<rparr>)}"

lemma adds_service: "adds (inject_service job grp provider) (service_regs job grp)"
proof -
  have "in_step t \<and> set (snd t) = set (snd s) \<union> service_regs job grp v"
    if i: "inject_service job grp provider v s = Inr (v', t)" and s: "in_step s" for v s v' t
  proof -
    obtain obj svc tags where v: "v = JObject obj" "Option.bind (map_of obj ''Name'') as_str = Some svc"
      and tags: "(case map_of obj ''Tags'' of Some x \<Rightarrow> x | None \<Rightarrow> JArray []) = JArray tags"
      and t: "t = (if has_traefik_enabled tags then note_registration job svc grp s else s)"
      using i unfolding inject_service_Inr by (auto split: if_splits)
    have "array_member ''Tags'' v = tags"
      using tags v(1) by (auto simp: array_member_def split: option.splits)
    then have "service_regs job grp v = (if has_traefik_enabled tags then
        {\<lparr>job_id = JobId job, service_name = ServiceName svc, nomad_group = grp\<rparr>} else {})"
      using v by (auto simp: service_regs_def service_enabled_def)
    then show ?thesis using s t note_registration_adds [OF s] by auto
  qed
  then show ?thesis unfolding adds_def by blast
qed

lemma adds_service_tags:
  "adds (inject_service_tags job grp provider) (\<lambda>vs. \<Union>v \<in> set vs. service_regs job grp v)"
  unfolding inject_service_tags_def by (intro adds_each adds_service)

lemma adds_member:
  assumes "adds f A" and "A [] = {}" and "on_array_member k f obj s = Inr (obj', t)" and "in_step s"
  shows "in_step t \<and> set (snd t) = set (snd s) \<union> A (array_member k (JObject obj))"
proof (cases "Option.bind (map_of obj k) as_array")
  case None
  with assms show ?thesis by (simp add: on_array_member_Inr array_member_def)
next
  case (Some xs)
  then obtain ys where f: "f xs s = Inr (ys, t)" using assms(3) by (auto simp: on_array_member_Inr)
  from addsD [OF assms(1) f assms(4)] Some show ?thesis by (simp add: array_member_def)
qed

lemma adds_task:
  "adds (inject_task job grp provider) (\<lambda>v. \<Union>u \<in> set (array_member ''Services'' v). service_regs job grp u)"
proof -
  have "in_step t \<and> set (snd t) = set (snd s) \<union> (\<Union>u \<in> set (array_member ''Services'' v). service_regs job grp u)"
    if i: "inject_task job grp provider v s = Inr (v', t)" and s: "in_step s" for v s v' t
  proof -
    obtain obj obj' where "v = JObject obj"
      and "on_array_member ''Services'' (inject_service_tags job grp provider) obj s = Inr (obj', t)"
      using i by (auto simp: inject_task_def split: option.splits sum.splits)
    then show ?thesis using adds_member [OF adds_service_tags _ _ s] by simp
  qed
  then show ?thesis unfolding adds_def by blast
qed

lemma adds_group:
  "adds (inject_group job provider)
     (\<lambda>g. {r. \<exists>v \<in> set (group_services g). service_enabled v \<and> registration_for job g v = Some r})"
proof -
  have "in_step t \<and> set (snd t) = set (snd s) \<union>
      {r. \<exists>v \<in> set (group_services g). service_enabled v \<and> registration_for job g v = Some r}"
    if i: "inject_group job provider g s = Inr (g', t)" and s: "in_step s" for g s g' t
  proof -
    obtain obj grp obj1 s1 obj2 where o: "g = JObject obj" "Option.bind (map_of obj ''Name'') as_str = Some grp"
      and a: "on_array_member ''Services'' (inject_service_tags job grp provider) obj s = Inr (obj1, s1)"
      and b: "on_array_member ''Tasks'' (each_mut (inject_task job grp provider)) obj1 s1 = Inr (obj2, t)"
      using i by (auto simp: inject_group_def split: option.splits sum.splits prod.splits)
    have s1: "in_step s1 \<and> set (snd s1) = set (snd s) \<union> (\<Union>v \<in> set (array_member ''Services'' g). service_regs job grp v)"
      using adds_member [OF adds_service_tags _ a s] o(1) by simp
    have "in_step t \<and> set (snd t) = set (snd s1) \<union> (\<Union>u \<in> set (array_member ''Tasks'' (JObject obj1)).
        \<Union>v \<in> set (array_member ''Services'' u). service_regs job grp v)"
      using adds_member [OF adds_each [OF adds_task] _ b] s1 by simp
    moreover have "array_member ''Tasks'' (JObject obj1) = array_member ''Tasks'' g"
      using on_array_member_other [OF a, of "''Tasks''"] o(1) by (simp add: array_member_def)
    moreover have "service_regs job grp v = {r. service_enabled v \<and> registration_for job g v = Some r}" for v
      using o by (auto simp: service_regs_def registration_for_def split: option.splits)
    ultimately show ?thesis using s1 by (auto simp: group_services_def)
  qed
  then show ?thesis unfolding adds_def by blast
qed

subsection \<open>Properties\<close>

text \<open>
  The router's service tag is set exactly once. After the upsert exactly one tag starts with
  the router's service prefix, it names the nscale provider, and all other tags are kept in
  their order.
\<close>

theorem upsert_exactly_once:
  "filter (tag_matches (service_tag_prefix r)) (upsert_router_service_tag tags r svc) =
     [JString (service_tag_prefix r @ svc)] \<and>
   filter (\<lambda>v. \<not> tag_matches (service_tag_prefix r) v) (upsert_router_service_tag tags r svc) =
     filter (\<lambda>v. \<not> tag_matches (service_tag_prefix r) v) tags"
  by (simp add: upsert_is_rec upsert_rec_match upsert_rec_others)

text \<open>
  C19: The mutator is idempotent. Mutating a job that has already been mutated for the same
  provider changes nothing and yields the same registrations.
\<close>

theorem inject_idempotent:
  assumes "inject_nscale_tags job provider = Inr (job', regs)"
  shows "inject_nscale_tags job' provider = Inr (job', regs)"
proof -
  obtain obj j groups groups' s where o: "job = JObject obj" "job_id_of obj = Some j"
    and g: "Option.bind (map_of obj ''TaskGroups'') as_array = Some groups"
    and e: "each_mut (inject_group j provider) groups ({}, []) = Inr (groups', s)"
    and j: "job' = JObject (obj_set ''TaskGroups'' (JArray groups') obj)" "regs = snd s"
    using assms by (auto simp: inject_nscale_tags_def split: option.splits sum.splits)
  have "job_id_of (obj_set ''TaskGroups'' (JArray groups') obj) = Some j"
    using o(2) by (simp add: job_id_of_def split: option.splits)
  then show ?thesis
    using settlesD [OF settles_each [OF settles_group] e] by (simp add: inject_nscale_tags_def j)
qed

definition demo_job :: json where
  "demo_job = JObject [(''ID'', JString ''shop''), (''TaskGroups'', JArray [JObject
     [(''Name'', JString ''g''), (''Services'', JArray
       [JObject [(''Name'', JString ''web''), (''Tags'', JArray [JString TRAEFIK_ENABLE_TAG,
          JString (ROUTER_PREFIX @ ''web.rule=x''), JString (ROUTER_PREFIX @ ''web.service=old'')])],
        JObject [(''Name'', JString ''db'')]])]])]"

definition demo_job_out :: json where
  "demo_job_out = JObject [(''ID'', JString ''shop''), (''TaskGroups'', JArray [JObject
     [(''Name'', JString ''g''), (''Services'', JArray
       [JObject [(''Name'', JString ''web''), (''Tags'', JArray [JString TRAEFIK_ENABLE_TAG,
          JString (ROUTER_PREFIX @ ''web.rule=x''), JString (ROUTER_PREFIX @ ''web.service=nscale@file'')])],
        JObject [(''Name'', JString ''db''), (''Tags'', JArray [])]])]])]"

definition demo_job_regs :: "job_registration list" where
  "demo_job_regs = [\<lparr>job_id = JobId ''shop'', service_name = ServiceName ''web'', nomad_group = ''g''\<rparr>]"

lemma demo_job_inject: "inject_nscale_tags demo_job ''nscale@file'' = Inr (demo_job_out, demo_job_regs)"
  by (simp add: demo_job_def demo_job_out_def demo_job_regs_def inject_nscale_tags_def job_id_of_def
      inject_group_def on_array_member_def inject_service_tags_def inject_service_def
      has_traefik_enabled_def collect_router_names_def map_filter_def router_name_of_def
      strip_prefix_def upsert_is_rec service_tag_prefix_def tag_matches_def note_registration_def
      TRAEFIK_ENABLE_TAG_def ROUTER_PREFIX_def)

theorem inject_idempotent_witness:
  "inject_nscale_tags demo_job ''nscale@file'' = Inr (demo_job_out, demo_job_regs) \<and>
   inject_nscale_tags demo_job_out ''nscale@file'' = Inr (demo_job_out, demo_job_regs)"
  using demo_job_inject inject_idempotent [OF demo_job_inject] by simp

text \<open>
  C18: The registrations are the Traefik-enabled services. When the mutator accepts a job, it
  returns each Traefik-enabled service of the job's groups and tasks, with its group, once, and
  nothing else.
\<close>

theorem inject_registrations:
  assumes "inject_nscale_tags (JObject obj) provider = Inr (job', regs)"
    and "job_id_of obj = Some j" and "map_of obj ''TaskGroups'' = Some (JArray groups)"
  shows "distinct regs \<and> set regs = expected_registrations j groups"
proof -
  obtain groups' s where e: "each_mut (inject_group j provider) groups ({}, []) = Inr (groups', s)"
    and r: "regs = snd s"
    using assms by (auto simp: inject_nscale_tags_def split: sum.splits)
  have "in_step ({}, [])" by (simp add: in_step_def)
  with addsD [OF adds_each [OF adds_group] e] r show ?thesis
    by (auto simp: in_step_def expected_registrations_def)
qed

theorem inject_registrations_witness:
  "\<exists>obj groups. demo_job = JObject obj \<and> job_id_of obj = Some ''shop'' \<and>
     map_of obj ''TaskGroups'' = Some (JArray groups) \<and>
     inject_nscale_tags (JObject obj) ''nscale@file'' = Inr (demo_job_out, demo_job_regs) \<and>
     distinct demo_job_regs \<and> set demo_job_regs = expected_registrations ''shop'' groups"
proof -
  obtain obj groups where o: "demo_job = JObject obj" "job_id_of obj = Some ''shop''"
    "map_of obj ''TaskGroups'' = Some (JArray groups)"
    by (simp add: demo_job_def job_id_of_def)
  have i: "inject_nscale_tags (JObject obj) ''nscale@file'' = Inr (demo_job_out, demo_job_regs)"
    using demo_job_inject o(1) by simp
  show ?thesis using inject_registrations [OF i o(2,3)] o i by blast
qed

end
