(* ===== verification/Http.thy ===== *)
theory Http
  imports Json
begin

text \<open>
  The HTTP client (reqwest) as a parameter. A request is what the code puts into it; sending
  it yields a response or an error, and reading the body of a response may fail. The bodies are
  the structs the Nomad and the Consul client serialise.
\<close>

record scale_target =
  target_group :: string

record scale_request =
  sr_count :: "u32 option"
  sr_target :: scale_target
  sr_message :: "string option"

record parse_job_request =
  job_hcl :: string
  canonicalize :: bool
  parse_variables :: "string option"

record service_weights =
  passing :: u32
  warning :: u32

record service_registration =
  sreg_id :: string
  sreg_name :: string
  sreg_address :: string
  sreg_port :: u16
  sreg_tags :: "string list"
  weights :: "service_weights option"

datatype http_body =
    NoBody
  | ScaleBody scale_request
  | ParseBody parse_job_request
  | SubmitBody json
  | RegisterBody service_registration

record http_request =
  req_method :: string
  req_url :: string
  req_body :: http_body

record http_response =
  resp_status :: nat
  resp_headers :: "string \<rightharpoonup> string"
  resp_text :: "string + string"

record 'w http =
  http_send :: "http_request \<Rightarrow> ('w, string, http_response) io"
  status_text :: "nat \<Rightarrow> string"

definition is_success :: "http_response \<Rightarrow> bool" where
  "is_success r \<longleftrightarrow> 200 \<le> resp_status r \<and> resp_status r < 300"

text \<open>\<^verbatim>\<open>resp.text().await.unwrap_or_default()\<close>\<close>

definition text_or_default :: "http_response \<Rightarrow> string" where
  "text_or_default r = (case resp_text r of Inl _ \<Rightarrow> [] | Inr b \<Rightarrow> b)"

text \<open>\<^verbatim>\<open>resp.json().await?\<close> with the decoder of the expected type.\<close>

definition resp_json :: "(string \<Rightarrow> string + 'a) \<Rightarrow> http_response \<Rightarrow> 'a result" where
  "resp_json decode r =
     (case resp_text r of
        Inl e \<Rightarrow> Inl (Http e)
      | Inr b \<Rightarrow> (case decode b of Inl e \<Rightarrow> Inl (Http e) | Inr x \<Rightarrow> Inr x))"

end
