(* ===== verification/Nomad_Client.thy ===== *)
theory Nomad_Client
  imports Http
begin

text \<open>
  The Nomad client of \<^verbatim>\<open>crates/nscale-nomad\<close> (\<^verbatim>\<open>client.rs\<close>, \<^verbatim>\<open>models.rs\<close>) over the HTTP parameter.
  The serde decoders of the answers are parameters too.
\<close>

subsection \<open>Models\<close>

record job_submit_response =
  submit_eval_id :: string
  submit_modify_index :: u64
  submit_warnings :: "string option"

record job_stop_response =
  stop_eval_id :: string
  eval_create_index :: u64
  stop_modify_index :: u64

record task_group =
  tg_name :: string
  tg_count :: u32

record nomad_job =
  nj_id :: string
  nj_name :: string
  nj_status :: string
  task_groups :: "task_group list"

record net_port =
  np_label :: string
  np_value :: u16

record network_resource =
  net_ip :: string
  dynamic_ports :: "net_port list"
  reserved_ports :: "net_port list"

record port_mapping =
  pm_label :: string
  pm_value :: u16
  pm_to :: u16
  host_ip :: string

record shared_resources =
  ports :: "port_mapping list"
  shared_networks :: "network_resource list"

record allocated_resources =
  shared :: "shared_resources option"

record alloc_resources =
  res_networks :: "network_resource list"

record allocation =
  alloc_id :: string
  alloc_job_id :: string
  client_status :: string
  desired_status :: string
  alloc_task_group :: string
  resources :: "alloc_resources option"
  allocated :: "allocated_resources option"

record scale_response =
  sc_warnings :: string

definition is_running :: "allocation \<Rightarrow> bool" where
  "is_running a \<longleftrightarrow> client_status a = ''running'' \<and> desired_status a = ''run''"

record nomad_decoders =
  dec_value :: "string \<Rightarrow> string + json"
  dec_submit :: "string \<Rightarrow> string + job_submit_response"
  dec_stop :: "string \<Rightarrow> string + job_stop_response"
  dec_job :: "string \<Rightarrow> string + nomad_job"
  dec_allocs :: "string \<Rightarrow> string + allocation list"
  dec_scale :: "string \<Rightarrow> string + scale_response"

record 'w nomad_client =
  nc_http :: "'w http"
  nc_base_url :: string
  nc_dec :: nomad_decoders

subsection \<open>Requests\<close>

text \<open>The constructor, given the client that carries the token header.\<close>

definition nomad_client_new :: "'w http \<Rightarrow> nomad_decoders \<Rightarrow> string \<Rightarrow> 'w nomad_client" where
  "nomad_client_new h d addr =
     \<lparr>nc_http = h, nc_base_url = trim_end_matches CHR ''/'' addr, nc_dec = d\<rparr>"

definition url :: "'w nomad_client \<Rightarrow> string \<Rightarrow> string" where
  "url c path = nc_base_url c @ path"

definition nomad_send :: "'w nomad_client \<Rightarrow> string \<Rightarrow> string \<Rightarrow> http_body \<Rightarrow> ('w, http_response) call" where
  "nomad_send c method path body =
     io_map_err Http (http_send (nc_http c)
       \<lparr>req_method = method, req_url = url c path, req_body = body\<rparr>)"

definition returned_message :: "'w nomad_client \<Rightarrow> nat \<Rightarrow> string \<Rightarrow> string \<Rightarrow> string \<Rightarrow> string" where
  "returned_message c status body method path =
     method @ '' '' @ path @ '' returned '' @ status_text (nc_http c) status @ '': '' @ body"

definition classify_job_error ::
  "'w nomad_client \<Rightarrow> nat \<Rightarrow> string \<Rightarrow> string \<Rightarrow> string \<Rightarrow> job_id \<Rightarrow> nscale_error" where
  "classify_job_error c status body method path j =
     (if status = 404 \<or> sublist ''job not found'' (ascii_lower body) then JobNotFound (job_str j)
      else Nomad (returned_message c status body method path))"

definition ensure_success ::
  "'w nomad_client \<Rightarrow> http_response \<Rightarrow> string \<Rightarrow> string \<Rightarrow> http_response result" where
  "ensure_success c resp method path =
     (if is_success resp then Inr resp
      else Inl (Nomad (returned_message c (resp_status resp) (text_or_default resp) method path)))"

definition ensure_job_success ::
  "'w nomad_client \<Rightarrow> http_response \<Rightarrow> string \<Rightarrow> string \<Rightarrow> job_id \<Rightarrow> http_response result" where
  "ensure_job_success c resp method path j =
     (if is_success resp then Inr resp
      else Inl (classify_job_error c (resp_status resp) (text_or_default resp) method path j))"

definition parse_job :: "'w nomad_client \<Rightarrow> string \<Rightarrow> string option \<Rightarrow> ('w, json) call" where
  "parse_job c hcl vars =
     io_bind (nomad_send c ''POST'' ''/v1/jobs/parse''
       (ParseBody \<lparr>job_hcl = hcl, canonicalize = True, parse_variables = vars\<rparr>)) (\<lambda>resp.
     io_bind (io_lift (ensure_success c resp ''POST'' ''/v1/jobs/parse'')) (\<lambda>resp.
     io_lift (resp_json (dec_value (nc_dec c)) resp)))"

definition submit_job :: "'w nomad_client \<Rightarrow> json \<Rightarrow> ('w, job_submit_response) call" where
  "submit_job c job =
     io_bind (nomad_send c ''POST'' ''/v1/jobs'' (SubmitBody job)) (\<lambda>resp.
     io_bind (io_lift (ensure_success c resp ''POST'' ''/v1/jobs'')) (\<lambda>resp.
     io_lift (resp_json (dec_submit (nc_dec c)) resp)))"

definition get_job :: "'w nomad_client \<Rightarrow> job_id \<Rightarrow> ('w, nomad_job) call" where
  "get_job c j =
     (let path = ''/v1/job/'' @ job_str j in
      io_bind (nomad_send c ''GET'' path NoBody) (\<lambda>resp.
      io_bind (io_lift (ensure_job_success c resp ''GET'' path j)) (\<lambda>resp.
      io_lift (resp_json (dec_job (nc_dec c)) resp))))"

definition get_allocations :: "'w nomad_client \<Rightarrow> job_id \<Rightarrow> ('w, allocation list) call" where
  "get_allocations c j =
     (let path = ''/v1/job/'' @ job_str j @ ''/allocations'' in
      io_bind (nomad_send c ''GET'' path NoBody) (\<lambda>resp.
      io_bind (io_lift (ensure_job_success c resp ''GET'' path j)) (\<lambda>resp.
      io_lift (resp_json (dec_allocs (nc_dec c)) resp))))"

definition stop_and_purge_job :: "'w nomad_client \<Rightarrow> job_id \<Rightarrow> ('w, job_stop_response) call" where
  "stop_and_purge_job c j =
     (let path = ''/v1/job/'' @ job_str j @ ''?purge=true'' in
      io_bind (nomad_send c ''DELETE'' path NoBody) (\<lambda>resp.
      io_bind (io_lift (ensure_job_success c resp ''DELETE'' path j)) (\<lambda>resp.
      io_lift (resp_json (dec_stop (nc_dec c)) resp))))"

subsection \<open>Endpoints\<close>

definition first_opt :: "'a list \<Rightarrow> 'a option" where
  "first_opt xs = (case xs of [] \<Rightarrow> None | x # _ \<Rightarrow> Some x)"

definition shared_port :: "allocation \<Rightarrow> (shared_resources \<times> port_mapping) option" where
  "shared_port a =
     (case allocated a of
        None \<Rightarrow> None
      | Some r \<Rightarrow> (case shared r of
          None \<Rightarrow> None
        | Some sh \<Rightarrow> map_option (\<lambda>p. (sh, p)) (first_opt (ports sh))))"

definition extract_endpoint :: "allocation \<Rightarrow> endpoint option" where
  "extract_endpoint a =
     (case shared_port a of
        Some (sh, p) \<Rightarrow>
          Some (endpoint_new
            (if host_ip p = [] \<or> host_ip p = ''0.0.0.0''
             then (case first_opt (shared_networks sh) of Some n \<Rightarrow> net_ip n | None \<Rightarrow> ''127.0.0.1'')
             else host_ip p) (pm_value p))
      | None \<Rightarrow>
          (case Option.bind (resources a) (\<lambda>r. first_opt (res_networks r)) of
             None \<Rightarrow> None
           | Some net \<Rightarrow>
               (case first_opt (dynamic_ports net) of
                  Some p \<Rightarrow> Some (endpoint_new (net_ip net) (np_value p))
                | None \<Rightarrow> (case first_opt (reserved_ports net) of
                    Some p \<Rightarrow> Some (endpoint_new (net_ip net) (np_value p))
                  | None \<Rightarrow> None))))"

subsection \<open>The orchestrator\<close>

definition BLOCKED :: string where
  "BLOCKED = ''scaling blocked due to active deployment''"

definition is_blocked :: "http_response \<Rightarrow> bool" where
  "is_blocked resp \<longleftrightarrow> resp_status resp = 400 \<and> sublist BLOCKED (ascii_lower (text_or_default resp))"

definition scale_body :: "u32 \<Rightarrow> string \<Rightarrow> string \<Rightarrow> http_body" where
  "scale_body n grp msg =
     ScaleBody \<lparr>sr_count = Some n, sr_target = \<lparr>target_group = grp\<rparr>, sr_message = Some msg\<rparr>"

definition nomad_scale_up :: "'w nomad_client \<Rightarrow> job_id \<Rightarrow> string \<Rightarrow> u32 \<Rightarrow> ('w, unit) call" where
  "nomad_scale_up c j grp n =
     (let path = ''/v1/job/'' @ job_str j @ ''/scale'' in
      io_bind (nomad_send c ''POST'' path (scale_body n grp ''nscale: scaling up on demand'')) (\<lambda>resp.
        if \<not> is_success resp then
          (if is_blocked resp then io_return ()
           else io_fail (classify_job_error c (resp_status resp) (text_or_default resp) ''POST'' path j))
        else io_bind (io_lift (resp_json (dec_scale (nc_dec c)) resp)) (\<lambda>_. io_return ())))"

definition nomad_scale_down :: "'w nomad_client \<Rightarrow> job_id \<Rightarrow> string \<Rightarrow> ('w, unit) call" where
  "nomad_scale_down c j grp =
     (let path = ''/v1/job/'' @ job_str j @ ''/scale'' in
      io_bind (nomad_send c ''POST'' path (scale_body 0 grp ''nscale: scaling to zero after idle'')) (\<lambda>resp.
        if \<not> is_success resp then
          (if is_blocked resp then io_fail (DeploymentInProgress (job_str j) ''scale down'')
           else io_fail (classify_job_error c (resp_status resp) (text_or_default resp) ''POST'' path j))
        else io_return ()))"

definition nomad_get_job_count :: "'w nomad_client \<Rightarrow> job_id \<Rightarrow> string \<Rightarrow> ('w, u32) call" where
  "nomad_get_job_count c j grp =
     io_bind (get_job c j) (\<lambda>job.
       case List.find (\<lambda>g. tg_name g = grp) (task_groups job) of
         Some tg \<Rightarrow> io_return (tg_count tg)
       | None \<Rightarrow> io_fail (Nomad (''task group '' @ [CHR 39] @ grp @ [CHR 39] @ '' not found in job '' @
                  [CHR 39] @ job_str j @ [CHR 39])))"

definition nomad_get_healthy_endpoint :: "'w nomad_client \<Rightarrow> job_id \<Rightarrow> ('w, endpoint option) call" where
  "nomad_get_healthy_endpoint c j =
     io_bind (get_allocations c j) (\<lambda>allocs.
       case List.find is_running allocs of
         Some a \<Rightarrow> io_return (extract_endpoint a)
       | None \<Rightarrow> io_return None)"

definition nomad_orchestrator :: "'w nomad_client \<Rightarrow> 'w orchestrator" where
  "nomad_orchestrator c =
     \<lparr>scale_up = nomad_scale_up c, scale_down = nomad_scale_down c,
      get_job_count = nomad_get_job_count c, get_healthy_endpoint = nomad_get_healthy_endpoint c\<rparr>"

subsection \<open>Lemmas\<close>

lemma classify_job_error_for:
  "classify_job_error c status body method path j = JobNotFound k \<Longrightarrow> k = job_str j"
  by (auto simp: classify_job_error_def split: if_splits)

lemma ensure_job_success_for: "ensure_job_success c resp method path j = Inl (JobNotFound k) \<Longrightarrow> k = job_str j"
  by (auto simp: ensure_job_success_def split: if_splits dest: classify_job_error_for)

lemma resp_json_not_missing: "resp_json d r \<noteq> Inl (JobNotFound k)"
  by (auto simp: resp_json_def split: sum.splits)

lemma get_allocations_for: "get_allocations c j w = (Inl (JobNotFound k), w') \<Longrightarrow> k = job_str j"
  by (auto simp: get_allocations_def nomad_send_def Let_def io_iff resp_json_not_missing
      dest: ensure_job_success_for)

lemma get_job_for: "get_job c j w = (Inl (JobNotFound k), w') \<Longrightarrow> k = job_str j"
  by (auto simp: get_job_def nomad_send_def Let_def io_iff resp_json_not_missing
      dest: ensure_job_success_for)

lemma find_Some_first:
  "List.find P xs = Some x \<Longrightarrow> \<exists>as bs. xs = as @ x # bs \<and> P x \<and> (\<forall>a \<in> set as. \<not> P a)"
proof (induction xs)
  case (Cons y xs)
  show ?case
  proof (cases "P y")
    case True
    with Cons.prems show ?thesis by (intro exI [of _ "[]"] exI [of _ xs]) auto
  next
    case False
    with Cons obtain as bs where "xs = as @ x # bs" "P x" "\<forall>a \<in> set as. \<not> P a" by auto
    with False show ?thesis by (intro exI [of _ "y # as"] exI [of _ bs]) simp
  qed
qed simp

subsection \<open>Properties\<close>

text \<open>
  The missing-job error names the job that was asked for. Whichever operation of the
  orchestrator reports \<open>JobNotFound\<close>, it reports it for its own argument, so the callers that
  deregister on this error act on the right job.
\<close>

theorem nomad_missing_job_is_argument:
  assumes "nomad_scale_up c j grp n w = (Inl (JobNotFound k), w1) \<or>
           nomad_scale_down c j grp w = (Inl (JobNotFound k), w1) \<or>
           nomad_get_job_count c j grp w = (Inl (JobNotFound k), w1) \<or>
           nomad_get_healthy_endpoint c j w = (Inl (JobNotFound k), w1)"
  shows "k = job_str j"
  using assms
  by (auto simp: nomad_scale_up_def nomad_scale_down_def nomad_get_job_count_def nomad_get_healthy_endpoint_def
      nomad_send_def Let_def io_iff resp_json_not_missing get_allocations_for get_job_for
      split: if_splits option.splits dest: classify_job_error_for [OF sym])

text \<open>A server that gives every request the same answer, with the allocations it decodes to.\<close>

definition fixed_http :: "http_response \<Rightarrow> unit http" where
  "fixed_http r = \<lparr>http_send = (\<lambda>_. io_return r), status_text = show_nat\<rparr>"

definition fixed_nomad :: "http_response \<Rightarrow> allocation list \<Rightarrow> unit nomad_client" where
  "fixed_nomad r as = nomad_client_new (fixed_http r)
     \<lparr>dec_value = (\<lambda>_. Inr JNull), dec_submit = (\<lambda>_. Inl []), dec_stop = (\<lambda>_. Inl []),
      dec_job = (\<lambda>_. Inl []), dec_allocs = (\<lambda>_. Inr as), dec_scale = (\<lambda>_. Inr \<lparr>sc_warnings = []\<rparr>)\<rparr>
     ''http://nomad:4646/''"

theorem nomad_missing_job_is_argument_witness:
  "\<exists>k w1. nomad_scale_down (fixed_nomad \<lparr>resp_status = 404, resp_headers = Map.empty, resp_text = Inr []\<rparr> []) (JobId ''shop'') ''g'' () =
       (Inl (JobNotFound k), w1) \<and> k = ''shop''"
proof -
  have "nomad_scale_down (fixed_nomad \<lparr>resp_status = 404, resp_headers = Map.empty, resp_text = Inr []\<rparr> []) (JobId ''shop'') ''g'' () =
      (Inl (JobNotFound ''shop''), ())"
    by (simp add: nomad_scale_down_def nomad_send_def fixed_nomad_def nomad_client_new_def fixed_http_def
        Let_def io_bind_def io_map_err_def io_return_def io_fail_def is_success_def is_blocked_def
        classify_job_error_def)
  then show ?thesis
    using nomad_missing_job_is_argument
      [of "fixed_nomad \<lparr>resp_status = 404, resp_headers = Map.empty, resp_text = Inr []\<rparr> []" "JobId ''shop''" "''g''" 0 "()" "''shop''" "()"]
    by auto
qed

text \<open>
  A healthy endpoint comes from a running allocation. An endpoint that the client returns for
  a job is the endpoint of the first running allocation that Nomad lists for it.
\<close>

theorem healthy_endpoint_is_running:
  assumes "nomad_get_healthy_endpoint c j w = (Inr (Some e), w1)"
  shows "\<exists>as a bs w2. get_allocations c j w = (Inr (as @ a # bs), w2) \<and> is_running a \<and>
           filter is_running as = [] \<and> extract_endpoint a = Some e"
proof -
  obtain allocs w2 where g: "get_allocations c j w = (Inr allocs, w2)"
    using assms by (auto simp: nomad_get_healthy_endpoint_def io_iff)
  with assms obtain a where a: "List.find is_running allocs = Some a" "extract_endpoint a = Some e"
    by (auto simp: nomad_get_healthy_endpoint_def io_bind_def io_return_def split: option.splits)
  from find_Some_first [OF a(1)] g a(2) show ?thesis by (auto simp: filter_empty_conv)
qed

definition demo_alloc :: "string \<Rightarrow> port_mapping list \<Rightarrow> allocation" where
  "demo_alloc i ps = \<lparr>alloc_id = i, alloc_job_id = ''shop'', client_status = ''running'', desired_status = ''run'',
     alloc_task_group = ''g'', resources = None,
     allocated = Some \<lparr>shared = Some \<lparr>ports = ps, shared_networks = []\<rparr>\<rparr>\<rparr>"

definition demo_mapping :: port_mapping where
  "demo_mapping = \<lparr>pm_label = ''http'', pm_value = 8080, pm_to = 80, host_ip = ''10.0.0.7''\<rparr>"

lemmas nomad_run = nomad_get_healthy_endpoint_def get_allocations_def nomad_send_def fixed_nomad_def
  nomad_client_new_def fixed_http_def io_bind_def io_map_err_def io_return_def io_lift_def
  ensure_job_success_def is_success_def resp_json_def demo_alloc_def demo_mapping_def is_running_def
  extract_endpoint_def shared_port_def first_opt_def endpoint_new_def

theorem healthy_endpoint_is_running_witness:
  "\<exists>e w1. nomad_get_healthy_endpoint
       (fixed_nomad \<lparr>resp_status = 200, resp_headers = Map.empty, resp_text = Inr []\<rparr> [demo_alloc ''a'' [demo_mapping]]) (JobId ''shop'') () =
       (Inr (Some e), w1) \<and> extract_endpoint (demo_alloc ''a'' [demo_mapping]) = Some e"
proof -
  let ?c = "fixed_nomad \<lparr>resp_status = 200, resp_headers = Map.empty, resp_text = Inr []\<rparr> [demo_alloc ''a'' [demo_mapping]]"
  have g: "nomad_get_healthy_endpoint ?c (JobId ''shop'') () = (Inr (Some \<lparr>host = ''10.0.0.7'', port = 8080\<rparr>), ())"
    and l: "get_allocations ?c (JobId ''shop'') () = (Inr [demo_alloc ''a'' [demo_mapping]], ())"
    by (simp_all add: nomad_run)
  from healthy_endpoint_is_running [OF g] l g show ?thesis by (auto simp: Cons_eq_append_conv)
qed

text \<open>
  Only the first running allocation is asked. When the first running allocation of a job has
  no port and a later one has, the client answers that there is no healthy endpoint, although
  the trait documents that answer for jobs without a healthy allocation.
\<close>

theorem healthy_endpoint_first_only:
  "nomad_get_healthy_endpoint (fixed_nomad \<lparr>resp_status = 200, resp_headers = Map.empty, resp_text = Inr []\<rparr>
     [demo_alloc ''a'' [], demo_alloc ''b'' [demo_mapping]]) (JobId ''shop'') () = (Inr None, ()) \<and>
   is_running (demo_alloc ''b'' [demo_mapping]) \<and> extract_endpoint (demo_alloc ''b'' [demo_mapping]) \<noteq> None"
  by (simp add: nomad_run)

end
