(* ===== verification/Events.thy ===== *)
theory Events
  imports Http
begin

text \<open>
  The Nomad event stream of \<^verbatim>\<open>crates/nscale-nomad/src/events.rs\<close>: newline-delimited JSON frames
  that arrive in chunks, the resume index and the reconnect loop.

  The bytes of a line are characters. The decoder of a frame is a parameter, and so is the
  consumer: \<open>closed n\<close> says that the receiver is gone when the \<open>n\<close>-th event is sent. A connection
  is a list of what the stream and the cancellation token yield, one per turn of the loop.
\<close>

record nomad_event =
  ev_index :: u64
  ev_topic :: string
  event_type :: string
  payload :: json

record event_envelope =
  env_topic :: string
  env_type :: string
  env_payload :: json

record event_stream_frame =
  frame_events :: "event_envelope list"
  frame_index :: u64

record event_stream_config =
  es_addr :: string
  es_token :: "string option"
  es_topics :: "string list"
  initial_index :: u64

text \<open>
  The locals of \<^verbatim>\<open>connect_and_consume\<close> with the events sent so far. \<open>stopped\<close> is the return
  taken when the receiver is gone.
\<close>

record stream_state =
  buffer :: string
  last_index :: u64
  delivered :: "nomad_event list"
  stopped :: bool

definition event_of :: "u64 \<Rightarrow> event_envelope \<Rightarrow> nomad_event" where
  "event_of i e = \<lparr>ev_index = i, ev_topic = env_topic e, event_type = env_type e, payload = env_payload e\<rparr>"

fun send_events :: "(nat \<Rightarrow> bool) \<Rightarrow> nomad_event list \<Rightarrow> stream_state \<Rightarrow> stream_state" where
  "send_events closed [] s = s"
| "send_events closed (e # es) s =
     (if closed (length (delivered s)) then s\<lparr>stopped := True\<rparr>
      else send_events closed es (s\<lparr>delivered := delivered s @ [e]\<rparr>))"

definition NEWLINE :: char where
  "NEWLINE = CHR 10"

definition handle_line ::
  "(string \<Rightarrow> string + event_stream_frame) \<Rightarrow> (nat \<Rightarrow> bool) \<Rightarrow> string \<Rightarrow> stream_state \<Rightarrow> stream_state" where
  "handle_line decode closed line s =
     (let l = trim line in
      if l = [] then s
      else case decode l of
             Inl _ \<Rightarrow> s
           | Inr frame \<Rightarrow>
               if frame_events frame = [] then s
               else send_events closed (map (event_of (frame_index frame)) (frame_events frame))
                      (s\<lparr>last_index := frame_index frame\<rparr>))"

text \<open>
  The \<^verbatim>\<open>while let\<close> loop over the complete lines of the buffer. Leaving the function drops the
  buffer.
\<close>

function drain_lines ::
  "(string \<Rightarrow> string + event_stream_frame) \<Rightarrow> (nat \<Rightarrow> bool) \<Rightarrow> stream_state \<Rightarrow> stream_state" where
  "drain_lines decode closed s =
     (case split_once NEWLINE (buffer s) of
        None \<Rightarrow> s
      | Some (line, rest) \<Rightarrow>
          let t = handle_line decode closed (line @ [NEWLINE]) (s\<lparr>buffer := rest\<rparr>) in
          if stopped t then t\<lparr>buffer := []\<rparr> else drain_lines decode closed t)"
  by pat_completeness auto

lemma send_events_buffer [simp]: "buffer (send_events closed es s) = buffer s"
  by (induction es arbitrary: s) auto

lemma handle_line_buffer [simp]: "buffer (handle_line decode closed l s) = buffer s"
  by (auto simp: handle_line_def Let_def split: sum.splits)

termination drain_lines
proof (relation "measure (\<lambda>(d, c, s). length (buffer s))", goal_cases)
  case 1
  then show ?case by simp
next
  case (2 decode closed s p line rest t)
  then show ?case by (auto simp: split_once_Some_iff)
qed

declare drain_lines.simps [simp del]

definition consume_chunk ::
  "(string \<Rightarrow> string + event_stream_frame) \<Rightarrow> (nat \<Rightarrow> bool) \<Rightarrow> string \<Rightarrow> stream_state \<Rightarrow> stream_state" where
  "consume_chunk decode closed bytes s =
     (if stopped s then s else drain_lines decode closed (s\<lparr>buffer := buffer s @ bytes\<rparr>))"

datatype stream_item = Chunk string | ReadError string | StreamEnd | CancelSignal

text \<open>The \<^verbatim>\<open>select!\<close> loop on an open connection.\<close>

fun consume_stream ::
  "(string \<Rightarrow> string + event_stream_frame) \<Rightarrow> (nat \<Rightarrow> bool) \<Rightarrow> stream_item list \<Rightarrow> stream_state \<Rightarrow>
   unit result \<times> stream_state" where
  "consume_stream decode closed [] s = (Inl (Nomad ''event stream ended unexpectedly''), s)"
| "consume_stream decode closed (Chunk b # items) s =
     (let t = consume_chunk decode closed b s in
      if stopped t then (Inr (), t) else consume_stream decode closed items t)"
| "consume_stream decode closed (ReadError e # items) s = (Inl (Nomad (''stream read error: '' @ e)), s)"
| "consume_stream decode closed (StreamEnd # items) s = (Inl (Nomad ''event stream ended unexpectedly''), s)"
| "consume_stream decode closed (CancelSignal # items) s = (Inr (), s)"

text \<open>One attempt to connect: refused, answered with an error status, or open.\<close>

datatype connection =
    Refused string
  | ErrorStatus string string
  | Open "stream_item list"

definition topics_query :: "event_stream_config \<Rightarrow> string" where
  "topics_query cfg =
     (case map (\<lambda>t. ''topic='' @ t) (es_topics cfg) of
        [] \<Rightarrow> []
      | t # ts \<Rightarrow> t @ concat (map (\<lambda>u. ''&'' @ u) ts))"

definition stream_url :: "event_stream_config \<Rightarrow> u64 \<Rightarrow> string" where
  "stream_url cfg i =
     trim_end_matches CHR ''/'' (es_addr cfg) @ ''/v1/event/stream?'' @ topics_query cfg @ ''&index='' @
     show_nat (unat i)"

fun connect_and_consume ::
  "(string \<Rightarrow> string + event_stream_frame) \<Rightarrow> (nat \<Rightarrow> bool) \<Rightarrow> connection \<Rightarrow> stream_state \<Rightarrow>
   unit result \<times> stream_state" where
  "connect_and_consume decode closed (Refused e) s = (Inl (Http e), s)"
| "connect_and_consume decode closed (ErrorStatus status body) s =
     (Inl (Nomad (''event stream returned '' @ status @ '': '' @ body)), s)"
| "connect_and_consume decode closed (Open items) s =
     consume_stream decode closed items (s\<lparr>buffer := []\<rparr>)"

text \<open>
  The reconnect loop, over the successive connections and whether the token was cancelled before
  each and during the pause after it. It yields the addresses it connected to.
\<close>

fun event_stream_loop ::
  "event_stream_config \<Rightarrow> (string \<Rightarrow> string + event_stream_frame) \<Rightarrow> (nat \<Rightarrow> bool) \<Rightarrow>
   (bool \<times> connection \<times> bool) list \<Rightarrow> stream_state \<Rightarrow> string list \<times> stream_state" where
  "event_stream_loop cfg decode closed [] s = ([], s)"
| "event_stream_loop cfg decode closed ((cancelled, conn, cancelled_in_pause) # rest) s =
     (if cancelled then ([], s)
      else case connect_and_consume decode closed conn s of
             (Inr _, t) \<Rightarrow> ([stream_url cfg (last_index s)], t)
           | (Inl _, t) \<Rightarrow>
               if cancelled_in_pause then ([stream_url cfg (last_index s)], t)
               else let (us, u) = event_stream_loop cfg decode closed rest t
                    in (stream_url cfg (last_index s) # us, u))"

definition start_event_stream ::
  "event_stream_config \<Rightarrow> (string \<Rightarrow> string + event_stream_frame) \<Rightarrow> (nat \<Rightarrow> bool) \<Rightarrow>
   (bool \<times> connection \<times> bool) list \<Rightarrow> string list \<times> stream_state" where
  "start_event_stream cfg decode closed conns =
     event_stream_loop cfg decode closed conns
       \<lparr>buffer = [], last_index = initial_index cfg, delivered = [], stopped = False\<rparr>"

subsection \<open>Chunks\<close>

lemma handle_line_frame:
  "handle_line decode closed l (s\<lparr>buffer := b\<rparr>) = (handle_line decode closed l s)\<lparr>buffer := b\<rparr>"
proof -
  have f: "send_events closed es \<lparr>buffer = b, last_index = i, delivered = d, stopped = q\<rparr> =
      (send_events closed es \<lparr>buffer = x, last_index = i, delivered = d, stopped = q\<rparr>)\<lparr>buffer := b\<rparr>"
    for es x i d q by (induction es arbitrary: d) auto
  show ?thesis
    by (cases s) (auto simp: handle_line_def Let_def split: sum.splits intro: f)
qed

lemma drain_no_newline: "NEWLINE \<notin> set (buffer s) \<Longrightarrow> drain_lines decode closed s = s"
  by (subst drain_lines.simps) (simp add: split_once_None_iff [THEN iffD2])

text \<open>Draining leaves a buffer without newlines, or stops with an empty one.\<close>

lemma drain_buffer: "NEWLINE \<notin> set (buffer (drain_lines decode closed s))"
proof (induction decode closed s rule: drain_lines.induct)
  case (1 decode closed s)
  show ?case
  proof (cases "split_once NEWLINE (buffer s)")
    case None
    then have "NEWLINE \<notin> set (buffer s)" by (simp add: split_once_None_iff)
    then show ?thesis by (simp add: drain_no_newline)
  next
    case (Some p)
    obtain line rest where p: "p = (line, rest)" by force
    show ?thesis using 1 [OF Some p [symmetric] refl] Some p by (subst drain_lines.simps) (simp add: Let_def)
  qed
qed

text \<open>Bytes that arrive later do not change how the lines already complete are handled.\<close>

lemma drain_append:
  assumes "\<not> stopped s"
  shows "drain_lines decode closed (s\<lparr>buffer := buffer s @ c\<rparr>) =
         consume_chunk decode closed c (drain_lines decode closed s)"
  using assms
proof (induction decode closed s rule: drain_lines.induct)
  case (1 decode closed s)
  show ?case
  proof (cases "split_once NEWLINE (buffer s)")
    case None
    then show ?thesis using 1(2) by (subst (2) drain_lines.simps) (simp add: consume_chunk_def)
  next
    case (Some p)
    obtain line rest where p: "p = (line, rest)" by force
    then have b: "buffer s = line @ NEWLINE # rest" "NEWLINE \<notin> set line"
      using Some by (simp_all add: split_once_Some_iff)
    let ?t = "handle_line decode closed (line @ [NEWLINE]) (s\<lparr>buffer := rest\<rparr>)"
    have split_c: "split_once NEWLINE (buffer s @ c) = Some (line, rest @ c)"
      using b by (simp add: split_once_append)
    have t_c: "handle_line decode closed (line @ [NEWLINE]) (s\<lparr>buffer := rest @ c\<rparr>) = ?t\<lparr>buffer := rest @ c\<rparr>"
      using handle_line_frame [where s = "s\<lparr>buffer := rest\<rparr>" and b = "rest @ c"] by simp
    show ?thesis
    proof (cases "stopped ?t")
      case True
      then show ?thesis
        using Some p split_c t_c
        by (subst (1 2) drain_lines.simps) (simp add: Let_def consume_chunk_def)
    next
      case False
      have "drain_lines decode closed (?t\<lparr>buffer := rest @ c\<rparr>) =
          consume_chunk decode closed c (drain_lines decode closed ?t)"
        using 1(1) [OF Some p [symmetric] refl] False by simp
      then show ?thesis
        using Some p split_c t_c False
        by (subst (1 2) drain_lines.simps) (simp add: Let_def)
    qed
  qed
qed

lemma consume_append:
  assumes "NEWLINE \<notin> set (buffer s)"
  shows "consume_chunk decode closed (b @ c) s = consume_chunk decode closed c (consume_chunk decode closed b s)"
  using drain_append [of "s\<lparr>buffer := buffer s @ b\<rparr>" decode closed c]
  by (simp add: consume_chunk_def)

text \<open>
  C20: The stream is reassembled. However the bytes of the stream are cut into chunks, the events
  delivered, the resume index and the bytes left over are those of the whole stream in one
  piece, also when the receiver goes away in the middle.
\<close>

theorem chunking_irrelevant:
  "fold (consume_chunk decode closed) chunks
     \<lparr>buffer = [], last_index = i, delivered = evs, stopped = False\<rparr> =
   consume_chunk decode closed (concat chunks)
     \<lparr>buffer = [], last_index = i, delivered = evs, stopped = False\<rparr>"
proof -
  have "fold (consume_chunk decode closed) cs s = consume_chunk decode closed (concat cs) s"
    if "NEWLINE \<notin> set (buffer s)" for cs s
    using that
  proof (induction cs arbitrary: s)
    case Nil
    then show ?case by (simp add: consume_chunk_def drain_no_newline)
  next
    case (Cons c cs)
    have "NEWLINE \<notin> set (buffer (consume_chunk decode closed c s))"
      using Cons.prems drain_buffer by (simp add: consume_chunk_def)
    with Cons consume_append [OF Cons.prems, of decode closed c "concat cs"] show ?case by simp
  qed
  then show ?thesis by simp
qed

lemma last_index_send: "last_index (send_events closed es s) = last_index s"
  by (induction es arbitrary: s) auto

text \<open>Every delivered event carries the index of its frame, and the resume index follows it.\<close>

definition index_ok :: "u64 \<Rightarrow> stream_state \<Rightarrow> bool" where
  "index_ok i s \<longleftrightarrow> stopped s \<or>
     last_index s = (if delivered s = [] then i else ev_index (last (delivered s)))"

lemma index_ok_buffer [simp]: "index_ok i (s\<lparr>buffer := b\<rparr>) = index_ok i s"
  by (simp add: index_ok_def)

lemma index_ok_send:
  assumes "es \<noteq> []" and "\<forall>e \<in> set es. ev_index e = last_index s"
  shows "index_ok i (send_events closed es s)"
  using assms
proof (induction es arbitrary: s)
  case (Cons e es)
  show ?case
  proof (cases "closed (length (delivered s))")
    case True
    then show ?thesis by (simp add: index_ok_def)
  next
    case False
    with Cons show ?thesis
      by (cases "es = []") (auto simp: index_ok_def)
  qed
qed simp

lemma index_ok_line: "index_ok i s \<Longrightarrow> index_ok i (handle_line decode closed l s)"
  by (auto simp: handle_line_def Let_def event_of_def intro!: index_ok_send split: sum.splits)

lemma index_ok_drain: "index_ok i s \<Longrightarrow> index_ok i (drain_lines decode closed s)"
proof (induction decode closed s rule: drain_lines.induct)
  case (1 decode closed s)
  show ?case
  proof (cases "split_once NEWLINE (buffer s)")
    case None
    then show ?thesis using 1(2) by (subst drain_lines.simps) simp
  next
    case (Some p)
    obtain line rest where p: "p = (line, rest)" by force
    have "index_ok i (s\<lparr>buffer := rest\<rparr>)" using 1(2) by simp
    note t = index_ok_line [OF this, of decode closed "line @ [NEWLINE]"]
    show ?thesis
      using Some p t 1(1) [OF Some p [symmetric] refl]
      by (subst drain_lines.simps) (simp add: Let_def)
  qed
qed

lemma index_ok_stream: "index_ok i s \<Longrightarrow> index_ok i (snd (consume_stream decode closed items s))"
  by (induction decode closed items s rule: consume_stream.induct)
     (auto simp: Let_def consume_chunk_def index_ok_drain)

lemma index_ok_connect: "index_ok i s \<Longrightarrow> index_ok i (snd (connect_and_consume decode closed conn s))"
  by (cases conn) (simp_all add: index_ok_stream)

text \<open>
  The stream resumes where it stopped. Whatever connections come and go, after any number of
  reconnects the resume index is the index of the last event delivered (the configured index when
  none was delivered), unless the receiver
  went away.
\<close>

theorem resume_index_follows:
  "let s = snd (start_event_stream cfg decode closed conns) in
   stopped s \<or> last_index s = (if delivered s = [] then initial_index cfg else ev_index (last (delivered s)))"
proof -
  have "index_ok i (snd (event_stream_loop cfg decode closed conns s))" if "index_ok i s" for s i
    using that
  proof (induction cfg decode closed conns s rule: event_stream_loop.induct)
    case (1 cfg decode closed s)
    then show ?case by simp
  next
    case (2 cfg decode closed cancelled conn pause rest s)
    obtain r t where t: "connect_and_consume decode closed conn s = (r, t)" by force
    have "index_ok i t" using index_ok_connect [OF 2(2), of decode closed conn] t by simp
    with 2 t show ?case by (cases r) (auto split: prod.splits)
  qed
  from this [of "initial_index cfg" "\<lparr>buffer = [], last_index = initial_index cfg, delivered = [], stopped = False\<rparr>"]
  show ?thesis by (auto simp: start_event_stream_def index_ok_def Let_def)
qed

end
