(* ===== verification/Traffic_Probe.thy ===== *)
theory Traffic_Probe
  imports Http
begin

text \<open>
  The Traefik traffic probe of \<^verbatim>\<open>crates/nscale-scaler/src/traffic_probe.rs\<close>: the Prometheus text is
  scanned for one service's request counters, and their sum is compared with the last one seen.

  \<open>parse_f64\<close> models Rust's \<^verbatim>\<open>str::parse::<f64>\<close> as far as the conversion \<^verbatim>\<open>as u64\<close> can see it: the
  grammar of the literals, rounding to 53 bits (ties to even), truncation, and saturation. The
  sum of counters wraps at 64 bits, as it does in a release build.
\<close>

subsection \<open>Numbers\<close>

definition is_digit :: "char \<Rightarrow> bool" where
  "is_digit c \<longleftrightarrow> (let n = of_char c :: nat in 48 \<le> n \<and> n \<le> 57)"

datatype f64 = F64_NaN | F64_Inf bool | F64_Fin bool nat int

text \<open>A finite value is a sign, the digits read as a number and a power of ten.\<close>

definition parse_exponent :: "string \<Rightarrow> int option" where
  "parse_exponent s =
     (let (neg, ds) = (case s of
           c # cs \<Rightarrow> if c = CHR ''-'' then (True, cs) else if c = CHR ''+'' then (False, cs) else (False, s)
         | [] \<Rightarrow> (False, []))
      in if ds \<noteq> [] \<and> list_all is_digit ds
         then Some (if neg then - int (read_nat ds) else int (read_nat ds)) else None)"

definition parse_decimal :: "bool \<Rightarrow> string \<Rightarrow> f64 option" where
  "parse_decimal neg s =
     (let whole = takeWhile is_digit s; r1 = dropWhile is_digit s;
          (frac, r2) = (case r1 of
             c # cs \<Rightarrow> if c = CHR ''.'' then (takeWhile is_digit cs, dropWhile is_digit cs) else ([], r1)
           | [] \<Rightarrow> ([], []))
      in if whole = [] \<and> frac = [] then None
         else case r2 of
                [] \<Rightarrow> Some (F64_Fin neg (read_nat (whole @ frac)) (- int (length frac)))
              | c # cs \<Rightarrow>
                  if ascii_lower_char c = CHR ''e'' then
                    map_option (\<lambda>e. F64_Fin neg (read_nat (whole @ frac)) (e - int (length frac)))
                      (parse_exponent cs)
                  else None)"

definition parse_f64 :: "string \<Rightarrow> f64 option" where
  "parse_f64 s =
     (let (neg, t) = (case s of
           c # cs \<Rightarrow> if c = CHR ''-'' then (True, cs) else if c = CHR ''+'' then (False, cs) else (False, s)
         | [] \<Rightarrow> (False, []))
      in if ascii_lower t = ''inf'' \<or> ascii_lower t = ''infinity'' then Some (F64_Inf neg)
         else if ascii_lower t = ''nan'' then Some F64_NaN
         else parse_decimal neg t)"

text \<open>Division that rounds to the nearest, ties to even.\<close>

definition div_round :: "nat \<Rightarrow> nat \<Rightarrow> nat" where
  "div_round a b =
     (let q = a div b; r = a mod b in
      if 2 * r < b then q else if 2 * r > b then q + 1 else if even q then q else q + 1)"

fun floor_log2 :: "nat \<Rightarrow> nat" where
  "floor_log2 n = (if n < 2 then 0 else Suc (floor_log2 (n div 2)))"

declare floor_log2.simps [simp del]

text \<open>The integer part of \<open>a / b\<close> after rounding to 53 significant bits.\<close>

definition round53 :: "nat \<Rightarrow> nat \<Rightarrow> nat" where
  "round53 a b =
     (if 2 * a < b then 0
      else if a < b then div_round (a * 2 ^ 53) b div 2 ^ 53
      else let k = floor_log2 (a div b) in
           if k \<le> 52 then div_round (a * 2 ^ (52 - k)) b div 2 ^ (52 - k)
           else div_round a (b * 2 ^ (k - 52)) * 2 ^ (k - 52))"

text \<open>\<^verbatim>\<open>v as u64\<close>: NaN and negative values give zero, too large values the maximum.\<close>

fun f64_as_u64 :: "f64 \<Rightarrow> u64" where
  "f64_as_u64 F64_NaN = 0"
| "f64_as_u64 (F64_Inf neg) = (if neg then 0 else - 1)"
| "f64_as_u64 (F64_Fin neg m e) =
     (if neg then 0
      else let v = (if 0 \<le> e then round53 (m * 10 ^ nat e) 1 else round53 m (10 ^ nat (- e)))
           in if v < 2 ^ 64 then of_nat v else - 1)"

subsection \<open>The metrics text\<close>

text \<open>\<^verbatim>\<open>str::lines\<close>: pieces between newlines, without a final empty one and without \<^verbatim>\<open>\r\<close>.\<close>

definition strip_cr :: "string \<Rightarrow> string" where
  "strip_cr l = (if l \<noteq> [] \<and> last l = CHR 13 then butlast l else l)"

definition lines_of :: "string \<Rightarrow> string list" where
  "lines_of s =
     (let ps = split_on (CHR 10) s
      in map strip_cr (if last ps = [] then butlast ps else ps))"

definition METRIC_PREFIX :: string where
  "METRIC_PREFIX = ''traefik_service_requests_total{''"

definition service_needle :: "string \<Rightarrow> string" where
  "service_needle label = ''service=\"'' @ label @ ''\"''"

text \<open>What one line adds, if it is a counter of the service with a number at its end.\<close>

definition line_value :: "string \<Rightarrow> string \<Rightarrow> u64 option" where
  "line_value needle line =
     (if prefix ''#'' line \<or> line = [] then None
      else if prefix METRIC_PREFIX line \<and> sublist needle line then
        Option.bind (rsplit_once CHR '' '' line) (\<lambda>(_, v). map_option f64_as_u64 (parse_f64 v))
      else None)"

definition parse_service_requests_total :: "string \<Rightarrow> string \<Rightarrow> u64" where
  "parse_service_requests_total body label =
     fold (\<lambda>line total. case line_value (service_needle label) line of
         Some v \<Rightarrow> total + v | None \<Rightarrow> total) (lines_of body) 0"

subsection \<open>The probe\<close>

record 'w traffic_probe =
  tp_http :: "'w http"
  tp_metrics_url :: string
  tp_provider :: string

type_synonym last_counts = "string \<rightharpoonup> u64 option"

definition traffic_probe_new :: "'w http \<Rightarrow> string \<Rightarrow> string \<Rightarrow> 'w traffic_probe" where
  "traffic_probe_new h u p =
     \<lparr>tp_http = h, tp_metrics_url = trim_end_matches CHR ''/'' u, tp_provider = p\<rparr>"

definition service_label :: "'w traffic_probe \<Rightarrow> job_id \<Rightarrow> string" where
  "service_label p j = job_str j @ ''@'' @ tp_provider p"

definition scrape_request_count :: "'w traffic_probe \<Rightarrow> string \<Rightarrow> ('w, u64) call" where
  "scrape_request_count p label =
     io_bind (io_map_err (\<lambda>e. Consul (''traefik metrics fetch failed: '' @ e))
       (http_send (tp_http p)
         \<lparr>req_method = ''GET'', req_url = tp_metrics_url p @ ''/metrics'', req_body = NoBody\<rparr>)) (\<lambda>resp.
     if \<not> is_success resp
     then io_fail (Consul (''traefik metrics returned '' @ status_text (tp_http p) (resp_status resp)))
     else case resp_text resp of
            Inl e \<Rightarrow> io_fail (Consul (''failed to read metrics body: '' @ e))
          | Inr body \<Rightarrow> io_return (parse_service_requests_total body label))"

text \<open>The decision, given the scraped count: the snapshot is replaced whatever the answer.\<close>

definition compare_count :: "string \<Rightarrow> u64 \<Rightarrow> last_counts \<Rightarrow> bool \<times> last_counts" where
  "compare_count label current m =
     (let prev = (case m label of None \<Rightarrow> None | Some p \<Rightarrow> p) in
      (case prev of None \<Rightarrow> 0 < current | Some p \<Rightarrow> p < current, m(label \<mapsto> Some current)))"

definition has_active_traffic ::
  "'w traffic_probe \<Rightarrow> job_id \<Rightarrow> last_counts \<Rightarrow> 'w \<Rightarrow> bool result \<times> last_counts \<times> 'w" where
  "has_active_traffic p j m w =
     (case scrape_request_count p (service_label p j) w of
        (Inl e, w') \<Rightarrow> (Inl e, m, w')
      | (Inr current, w') \<Rightarrow>
          let (active, m') = compare_count (service_label p j) current m in (Inr active, m', w'))"

definition clear_baseline :: "'w traffic_probe \<Rightarrow> job_id \<Rightarrow> last_counts \<Rightarrow> last_counts" where
  "clear_baseline p j m = m(service_label p j := None)"

subsection \<open>Reading numbers\<close>

lemma floor_log2_less: "n < 2 ^ Suc k \<Longrightarrow> floor_log2 n \<le> k"
proof (induction n arbitrary: k rule: floor_log2.induct)
  case (1 n)
  show ?case
  proof (cases "n < 2")
    case True
    then show ?thesis by (simp add: floor_log2.simps [of n])
  next
    case False
    then obtain l where k: "k = Suc l" using 1(2) by (cases k) auto
    then have "n div 2 < 2 ^ Suc l" using 1(2) by auto
    with 1(1) False k show ?thesis by (simp add: floor_log2.simps [of n])
  qed
qed

lemma div_round_one [simp]: "div_round a 1 = a" "div_round a (Suc 0) = a"
  by (simp_all add: div_round_def)

lemma round53_exact: "n < 2 ^ 53 \<Longrightarrow> round53 n 1 = n"
  using floor_log2_less [of n 52] by (auto simp: round53_def Let_def)

lemma show_nat_is_digit: "list_all is_digit (show_nat n)"
  using show_nat_digits by (force simp: list_all_iff is_digit_def Let_def)

lemma show_nat_not_Nil [simp]: "show_nat n \<noteq> []"
  by (subst show_nat.simps) simp

lemma is_digit_not:
  "is_digit c \<Longrightarrow> c \<noteq> CHR ''-'' \<and> c \<noteq> CHR ''+'' \<and> ascii_lower_char c \<noteq> CHR ''i'' \<and> ascii_lower_char c \<noteq> CHR ''n''"
  by (auto simp: is_digit_def ascii_lower_char_def Let_def)

lemma parse_f64_show_nat: "parse_f64 (show_nat n) = Some (F64_Fin False n 0)"
proof -
  obtain c cs where s: "show_nat n = c # cs" by (cases "show_nat n") auto
  have c: "is_digit c" using show_nat_is_digit [of n] s by simp
  have t: "takeWhile is_digit (show_nat n) = show_nat n" "dropWhile is_digit (show_nat n) = []"
    using show_nat_is_digit [of n] by (auto simp: list_all_iff takeWhile_eq_all_conv dropWhile_eq_Nil_conv)
  have "parse_f64 (show_nat n) = parse_decimal False (show_nat n)"
    using is_digit_not [OF c] by (simp add: parse_f64_def s ascii_lower_def)
  then show ?thesis by (simp add: parse_decimal_def t)
qed

lemma show_nat_as_u64: "n < 2 ^ 53 \<Longrightarrow> map_option f64_as_u64 (parse_f64 (show_nat n)) = Some (of_nat n)"
  using round53_exact [of n] by (simp add: parse_f64_show_nat)

subsection \<open>Reading the metrics back\<close>

text \<open>A counter line as Traefik writes it, with the labels \<open>extra\<close> before the service label.\<close>

definition metric_line :: "string \<Rightarrow> string \<times> nat \<Rightarrow> string" where
  "metric_line extra m = METRIC_PREFIX @ extra @ service_needle (fst m) @ ''} '' @ show_nat (snd m)"

definition metrics_body :: "string \<Rightarrow> (string \<times> nat) list \<Rightarrow> string" where
  "metrics_body extra ms = concat (map (\<lambda>m. metric_line extra m @ [CHR 10]) ms)"

definition plain :: "string \<Rightarrow> bool" where
  "plain s \<longleftrightarrow> list_all (\<lambda>c. c \<noteq> CHR 34 \<and> c \<noteq> CHR 10 \<and> c \<noteq> CHR 13) s"

lemma split_unique: "a @ (c :: char) # x = b @ c # y \<Longrightarrow> c \<notin> set a \<Longrightarrow> c \<notin> set b \<Longrightarrow> a = b \<and> x = y"
  by (drule arg_cong [of _ _ "split_once c"]) (simp add: split_once_append)

lemma quotes_in_digits: "CHR 34 \<notin> set (show_nat n)" "CHR 10 \<notin> set (show_nat n)"
  "CHR 13 \<notin> set (show_nat n)" "CHR '' '' \<notin> set (show_nat n)"
  using show_nat_digits [of _ n] by fastforce+

lemma needle_in_line:
  assumes "plain l" and "plain k" and "plain extra"
  shows "sublist (service_needle l) (metric_line extra (k, n)) \<longleftrightarrow> l = k"
proof
  assume "l = k"
  then show "sublist (service_needle l) (metric_line extra (k, n))"
    unfolding sublist_def metric_line_def
    by (intro exI [of _ "METRIC_PREFIX @ extra"] exI [of _ "''} '' @ show_nat n"]) simp
next
  let ?q = "CHR 34"
  have no: "?q \<notin> set l" "?q \<notin> set k" "?q \<notin> set extra"
    using assms by (auto simp: plain_def list_all_iff)
  assume "sublist (service_needle l) (metric_line extra (k, n))"
  then obtain xs ys where e: "metric_line extra (k, n) = xs @ service_needle l @ ys"
    by (auto simp: sublist_def)
  have "length (filter (\<lambda>c. c = ?q) (metric_line extra (k, n))) = 2"
    using no quotes_in_digits(1) [of n]
    by (simp add: metric_line_def service_needle_def METRIC_PREFIX_def filter_empty_conv) blast
  then have xs: "?q \<notin> set xs"
    by (auto simp: e service_needle_def filter_empty_conv)
  have "(METRIC_PREFIX @ extra @ ''service='') @ ?q # (k @ ?q # ''} '' @ show_nat n) =
      (xs @ ''service='') @ ?q # (l @ ?q # ys)"
    using e by (simp add: metric_line_def service_needle_def)
  moreover have "?q \<notin> set (METRIC_PREFIX @ extra @ ''service='')" "?q \<notin> set (xs @ ''service='')"
    using no xs by (simp_all add: METRIC_PREFIX_def)
  ultimately have "k @ ?q # ''} '' @ show_nat n = l @ ?q # ys" using split_unique by blast
  then show "l = k" using no split_unique by blast
qed

lemma rsplit_metric: "rsplit_once CHR '' '' (metric_line extra (k, n)) = Some (METRIC_PREFIX @ extra @ service_needle k @ ''}'', show_nat n)"
  using quotes_in_digits(4) [of n]
  by (simp add: rsplit_once_def metric_line_def split_once_append)

lemma line_value_metric:
  assumes "plain l" and "plain k" and "plain extra" and "n < 2 ^ 53"
  shows "line_value (service_needle l) (metric_line extra (k, n)) = (if l = k then Some (of_nat n) else None)"
proof -
  have "prefix METRIC_PREFIX (metric_line extra (k, n))" "\<not> prefix ''#'' (metric_line extra (k, n))"
    "metric_line extra (k, n) \<noteq> []"
    by (simp_all add: metric_line_def METRIC_PREFIX_def)
  then show ?thesis
    using needle_in_line [OF assms(1-3), of n] show_nat_as_u64 [OF assms(4)]
    by (simp add: line_value_def rsplit_metric)
qed

lemma split_on_line: "c \<notin> set l \<Longrightarrow> split_on c (l @ c # r) = l # split_on c r"
  by (induction l) (auto split: list.splits)

lemma metric_line_plain:
  assumes "plain k" and "plain extra"
  shows "CHR 10 \<notin> set (metric_line extra (k, n))" and "strip_cr (metric_line extra (k, n)) = metric_line extra (k, n)"
proof -
  show "CHR 10 \<notin> set (metric_line extra (k, n))"
    using assms quotes_in_digits(2) [of n]
    by (auto simp: metric_line_def METRIC_PREFIX_def service_needle_def plain_def list_all_iff)
  have "last (metric_line extra (k, n)) = last (show_nat n)" by (simp add: metric_line_def)
  moreover have "last (show_nat n) \<noteq> CHR 13"
    using quotes_in_digits(3) [of n] last_in_set [OF show_nat_not_Nil, of n] by metis
  ultimately show "strip_cr (metric_line extra (k, n)) = metric_line extra (k, n)"
    by (simp add: strip_cr_def)
qed

lemma lines_of_body:
  assumes "plain extra" and "\<forall>m \<in> set ms. plain (fst m)"
  shows "lines_of (metrics_body extra ms) = map (metric_line extra) ms"
proof -
  have "split_on (CHR 10) (metrics_body extra ms) = map (metric_line extra) ms @ [[]]"
    using assms(2)
    by (induction ms) (auto simp: metrics_body_def split_on_line metric_line_plain(1) assms(1))
  then show ?thesis
    using assms by (auto simp: lines_of_def Let_def metric_line_plain(2) intro!: map_idI)
qed

subsection \<open>Properties\<close>



text \<open>
  Traffic means growth since the last check. Two successful checks of a job in a row, with no
  other check of it in between, answer the second time whether the scraped count has grown;
  after \<^verbatim>\<open>clear_baseline\<close>, and for a job never checked, the answer is whether the count is not
  zero.
\<close>

theorem traffic_is_growth:
  assumes "scrape_request_count p (service_label p j) w = (Inr c1, w1)"
    and "scrape_request_count p (service_label p j) w2 = (Inr c2, w3)"
  shows "\<exists>m1 m2. has_active_traffic p j (clear_baseline p j m) w = (Inr (0 < c1), m1, w1) \<and>
           has_active_traffic p j m1 w2 = (Inr (c1 < c2), m2, w3)"
  using assms by (simp add: has_active_traffic_def compare_count_def clear_baseline_def)

definition fixed_metrics :: "string \<Rightarrow> unit traffic_probe" where
  "fixed_metrics body = traffic_probe_new
     \<lparr>http_send = (\<lambda>_. io_return \<lparr>resp_status = 200, resp_headers = Map.empty, resp_text = Inr body\<rparr>), status_text = show_nat\<rparr>
     ''http://traefik:8082/'' ''consulcatalog''"

theorem traffic_is_growth_witness:
  "\<exists>m1 m2. has_active_traffic (fixed_metrics []) (JobId ''echo'')
       (clear_baseline (fixed_metrics []) (JobId ''echo'') Map.empty) () = (Inr False, m1, ()) \<and>
     has_active_traffic (fixed_metrics []) (JobId ''echo'') m1 () = (Inr False, m2, ())"
proof -
  have s: "scrape_request_count (fixed_metrics []) (service_label (fixed_metrics []) (JobId ''echo'')) () = (Inr 0, ())"
    by (simp add: scrape_request_count_def fixed_metrics_def traffic_probe_new_def io_bind_def io_map_err_def
        io_return_def is_success_def parse_service_requests_total_def lines_of_def)
  from traffic_is_growth [OF s s, of Map.empty] show ?thesis by simp
qed

text \<open>
  A restarted Traefik looks idle. When the counter starts again below the last snapshot, the
  check answers that there is no traffic, although the new count is itself a number of requests
  served since.
\<close>

theorem counter_reset_is_missed:
  "fst (compare_count label 5 [label \<mapsto> Some 100]) = False \<and> fst (compare_count label 5 Map.empty) = True"
  by (simp add: compare_count_def)

end
