(* ===== verification/Controller.thy ===== *)
theory Controller
  imports Registry Inflight Wake Traffic_Probe
begin

text \<open>
  The scale-down controller of \<^verbatim>\<open>crates/nscale-scaler/src/controller.rs\<close>.

  A \<open>node\<close> is the state of one nscale process that the controller shares with the other parts
  (the coordinator's maps, the in-flight tracker) or keeps (deferred jobs, traffic snapshots),
  together with the world outside. The controller's operations run one after another here; what
  the requests do in between is in \<open>Wake\<close> and \<open>Inflight\<close>. The lock guard's \<^verbatim>\<open>Drop\<close> spawns the
  release, which is run at the end of the tick.
\<close>

record 'w node =
  nd_coord :: coordinator
  nd_flights :: tracker
  nd_deferred :: "string \<rightharpoonup> instant"
  nd_counts :: last_counts
  nd_world :: 'w

record 'w controller =
  ct_orchestrator :: "'w orchestrator"
  ct_store :: "'w activity_store"
  ct_registry :: "'w job_registry"
  ct_probe :: "'w traffic_probe option"
  ct_missing :: "'w missing_job_tracker"
  ct_idle_threshold :: duration
  ct_interval :: duration
  ct_lock_ttl :: duration
  ct_auto_enabled :: bool
  ct_auto_threshold :: u32
  ct_now :: "'w \<Rightarrow> instant"
  ct_cancelled :: "'w \<Rightarrow> bool"

definition SCALE_DOWN_LOCK_KEY :: string where
  "SCALE_DOWN_LOCK_KEY = ''nscale:lock:scale-down''"

definition DEPLOYMENT_BACKOFF :: duration where
  "DEPLOYMENT_BACKOFF = from_secs 30"

definition controller_new ::
  "'w orchestrator \<Rightarrow> 'w activity_store \<Rightarrow> 'w job_registry \<Rightarrow> 'w traffic_probe option \<Rightarrow>
   'w missing_job_tracker \<Rightarrow> duration \<Rightarrow> duration \<Rightarrow> bool \<Rightarrow> u32 \<Rightarrow> ('w \<Rightarrow> instant) \<Rightarrow> ('w \<Rightarrow> bool) \<Rightarrow>
   'w controller" where
  "controller_new orch store registry probe missing idle_threshold interval auto_enabled auto_threshold now cancelled =
     \<lparr>ct_orchestrator = orch, ct_store = store, ct_registry = registry, ct_probe = probe,
      ct_missing = missing, ct_idle_threshold = idle_threshold, ct_interval = interval,
      ct_lock_ttl = interval + from_secs 5, ct_auto_enabled = auto_enabled,
      ct_auto_threshold = auto_threshold, ct_now = now, ct_cancelled = cancelled\<rparr>"

text \<open>A call to the outside, and one whose error is only logged.\<close>

definition on_world :: "('w, 'e, 'a) io \<Rightarrow> 'w node \<Rightarrow> ('e + 'a) \<times> 'w node" where
  "on_world m s = (case m (nd_world s) of (r, w) \<Rightarrow> (r, s\<lparr>nd_world := w\<rparr>))"

definition try_world :: "('w, 'e, 'a) io \<Rightarrow> 'w node \<Rightarrow> 'w node" where
  "try_world m s = snd (on_world m s)"

definition node_mark_dormant :: "job_id \<Rightarrow> 'w node \<Rightarrow> 'w node" where
  "node_mark_dormant j s = s\<lparr>nd_coord := mark_dormant j (nd_coord s)\<rparr>"

definition undefer :: "job_id \<Rightarrow> 'w node \<Rightarrow> 'w node" where
  "undefer j s = s\<lparr>nd_deferred := (nd_deferred s)(job_str j := None)\<rparr>"

definition clear_probe :: "'w traffic_probe option \<Rightarrow> job_id \<Rightarrow> 'w node \<Rightarrow> 'w node" where
  "clear_probe probe j s =
     (case probe of None \<Rightarrow> s | Some p \<Rightarrow> s\<lparr>nd_counts := clear_baseline p j (nd_counts s)\<rparr>)"

definition clear_missing_job_counter :: "'w controller \<Rightarrow> job_id \<Rightarrow> 'w node \<Rightarrow> 'w node" where
  "clear_missing_job_counter ct j s =
     (if \<not> ct_auto_enabled ct then s else try_world (clear_not_found (ct_missing ct) j) s)"

definition cleanup_missing_job_state :: "'w controller \<Rightarrow> job_id \<Rightarrow> 'w node \<Rightarrow> unit result \<times> 'w node" where
  "cleanup_missing_job_state ct j s0 =
     (let s1 = node_mark_dormant j s0;
          s2 = try_world (remove_activity (ct_store ct) j) s1;
          s3 = undefer j s2;
          s4 = clear_probe (ct_probe ct) j s3
      in case on_world (deregister (ct_registry ct) j) s4 of
           (Inl e, s5) \<Rightarrow> (Inl e, s5)
         | (Inr _, s5) \<Rightarrow> (Inr (), try_world (clear_not_found (ct_missing ct) j) s5))"

definition handle_missing_job :: "'w controller \<Rightarrow> job_id \<Rightarrow> 'w node \<Rightarrow> 'w node" where
  "handle_missing_job ct j s =
     (if \<not> ct_auto_enabled ct then s
      else case on_world (increment_not_found (ct_missing ct) j) s of
             (Inl _, s1) \<Rightarrow> s1
           | (Inr n, s1) \<Rightarrow>
               if ct_auto_threshold ct \<le> n then snd (cleanup_missing_job_state ct j s1) else s1)"

definition handle_scale_down_result ::
  "'w controller \<Rightarrow> job_id \<Rightarrow> unit result \<Rightarrow> 'w node \<Rightarrow> 'w node" where
  "handle_scale_down_result ct j result s =
     (case result of
        Inr _ \<Rightarrow>
          undefer j (clear_probe (ct_probe ct) j
            (try_world (remove_activity (ct_store ct) j) (node_mark_dormant j s)))
      | Inl (DeploymentInProgress _ _) \<Rightarrow>
          try_world (record_activity (ct_store ct) j)
            (s\<lparr>nd_deferred := (nd_deferred s)(job_str j \<mapsto> ct_now ct (nd_world s) + DEPLOYMENT_BACKOFF)\<rparr>)
      | Inl _ \<Rightarrow> s)"

text \<open>The deferred guard: whether to skip the job, and the map without an expired entry.\<close>

definition check_deferred :: "'w controller \<Rightarrow> job_id \<Rightarrow> 'w node \<Rightarrow> bool \<times> 'w node" where
  "check_deferred ct j s =
     (case nd_deferred s (job_str j) of
        None \<Rightarrow> (False, s)
      | Some t \<Rightarrow> if ct_now ct (nd_world s) < t then (True, s) else (False, undefer j s))"

text \<open>The traffic guard: whether the job must be left alone.\<close>

definition check_traffic :: "'w controller \<Rightarrow> job_id \<Rightarrow> 'w node \<Rightarrow> bool \<times> 'w node" where
  "check_traffic ct j s =
     (case ct_probe ct of
        None \<Rightarrow> (False, s)
      | Some p \<Rightarrow>
          (case has_active_traffic p j (nd_counts s) (nd_world s) of
             (Inr True, m, w) \<Rightarrow>
               (True, try_world (record_activity (ct_store ct) j) (s\<lparr>nd_counts := m, nd_world := w\<rparr>))
           | (Inr False, m, w) \<Rightarrow> (False, s\<lparr>nd_counts := m, nd_world := w\<rparr>)
           | (Inl _, m, w) \<Rightarrow> (True, s\<lparr>nd_counts := m, nd_world := w\<rparr>)))"

text \<open>The last part: the registration and the call to the orchestrator.\<close>

definition scale_down_registered :: "'w controller \<Rightarrow> job_id \<Rightarrow> 'w node \<Rightarrow> 'w node" where
  "scale_down_registered ct j s =
     (case on_world (get (ct_registry ct) j) s of
        (Inl _, s1) \<Rightarrow> s1
      | (Inr None, s1) \<Rightarrow> try_world (remove_activity (ct_store ct) j) s1
      | (Inr (Some reg), s1) \<Rightarrow>
          (case on_world (scale_down (ct_orchestrator ct) (job_id reg) (nomad_group reg)) s1 of
             (Inr _, s2) \<Rightarrow>
               handle_scale_down_result ct j (Inr ()) (clear_missing_job_counter ct j s2)
           | (Inl (JobNotFound _), s2) \<Rightarrow> handle_missing_job ct j s2
           | (Inl (DeploymentInProgress a b), s2) \<Rightarrow>
               handle_scale_down_result ct j (Inl (DeploymentInProgress a b)) (clear_missing_job_counter ct j s2)
           | (Inl e, s2) \<Rightarrow> handle_scale_down_result ct j (Inl e) s2))"

definition scale_down_job :: "'w controller \<Rightarrow> job_id \<Rightarrow> 'w node \<Rightarrow> 'w node" where
  "scale_down_job ct j s =
     (case check_deferred ct j s of
        (True, s1) \<Rightarrow> s1
      | (False, s1) \<Rightarrow>
          if has_in_flight (job_str j) (nd_flights s1) then try_world (record_activity (ct_store ct) j) s1
          else case check_traffic ct j s1 of
                 (True, s2) \<Rightarrow> s2
               | (False, s2) \<Rightarrow> scale_down_registered ct j s2)"

fun scale_down_all :: "'w controller \<Rightarrow> job_id list \<Rightarrow> 'w node \<Rightarrow> 'w node" where
  "scale_down_all ct [] s = s"
| "scale_down_all ct (j # js) s =
     (if ct_cancelled ct (nd_world s) then s else scale_down_all ct js (scale_down_job ct j s))"

text \<open>The part of \<^verbatim>\<open>tick\<close> under the lock.\<close>

definition tick_locked :: "'w controller \<Rightarrow> 'w node \<Rightarrow> unit result \<times> 'w node" where
  "tick_locked ct s =
     (case on_world (get_idle_jobs (ct_store ct) (ct_idle_threshold ct)) s of
        (Inl e, s1) \<Rightarrow> (Inl e, s1)
      | (Inr idle_jobs, s1) \<Rightarrow> (Inr (), scale_down_all ct idle_jobs s1))"

definition drop_lock_guard :: "'w controller \<Rightarrow> 'w node \<Rightarrow> 'w node" where
  "drop_lock_guard ct s = try_world (release_lock (ct_store ct) SCALE_DOWN_LOCK_KEY) s"

definition tick :: "'w controller \<Rightarrow> 'w node \<Rightarrow> unit result \<times> 'w node" where
  "tick ct s =
     (case on_world (try_acquire_lock (ct_store ct) SCALE_DOWN_LOCK_KEY (ct_lock_ttl ct)) s of
        (Inl e, s1) \<Rightarrow> (Inl e, s1)
      | (Inr False, s1) \<Rightarrow> (Inr (), s1)
      | (Inr True, s1) \<Rightarrow> (case tick_locked ct s1 of (r, s2) \<Rightarrow> (r, drop_lock_guard ct s2)))"

text \<open>The loop, over the number of ticks until the token is cancelled; a failed tick is logged.\<close>

fun controller_run :: "'w controller \<Rightarrow> nat \<Rightarrow> 'w node \<Rightarrow> 'w node" where
  "controller_run ct 0 s = s"
| "controller_run ct (Suc n) s = controller_run ct n (snd (tick ct s))"

end
