(* ===== verification/Controller_Properties.thy ===== *)
theory Controller_Properties
  imports Controller Registry_Properties
begin

text \<open>
  The properties of the scale-down controller, alone and together with the Redis stores, and a
  simulated world for their witnesses.
\<close>

subsection \<open>Frames of the guards\<close>

lemma on_world_frame [simp]:
  "nd_coord (snd (on_world m s)) = nd_coord s" "nd_flights (snd (on_world m s)) = nd_flights s"
  "nd_deferred (snd (on_world m s)) = nd_deferred s" "nd_counts (snd (on_world m s)) = nd_counts s"
  "nd_world (snd (on_world m s)) = snd (m (nd_world s))"
  by (simp_all add: on_world_def split: prod.splits)

lemma try_world_frame [simp]:
  "nd_coord (try_world m s) = nd_coord s" "nd_flights (try_world m s) = nd_flights s"
  "nd_deferred (try_world m s) = nd_deferred s" "nd_counts (try_world m s) = nd_counts s"
  "nd_world (try_world m s) = snd (m (nd_world s))"
  by (simp_all add: try_world_def)

lemma on_worldD:
  "on_world m s = (r, t) \<Longrightarrow> t = s\<lparr>nd_world := nd_world t\<rparr> \<and> m (nd_world s) = (r, nd_world t)"
  by (auto simp: on_world_def split: prod.splits)

lemma on_world_same:
  "on_world m s = (r, t) \<Longrightarrow> nd_coord t = nd_coord s \<and> nd_flights t = nd_flights s \<and>
     nd_deferred t = nd_deferred s \<and> nd_counts t = nd_counts s"
  by (auto simp: on_world_def split: prod.splits)

lemma undefer_frame [simp]:
  "nd_coord (undefer j s) = nd_coord s" "nd_flights (undefer j s) = nd_flights s"
  "nd_world (undefer j s) = nd_world s" "nd_counts (undefer j s) = nd_counts s"
  "nd_deferred (undefer j s) = (nd_deferred s)(job_str j := None)"
  by (simp_all add: undefer_def)

lemma clear_probe_frame [simp]:
  "nd_coord (clear_probe p j s) = nd_coord s" "nd_flights (clear_probe p j s) = nd_flights s"
  "nd_world (clear_probe p j s) = nd_world s" "nd_deferred (clear_probe p j s) = nd_deferred s"
  by (simp_all add: clear_probe_def split: option.splits)

lemma node_mark_dormant_frame [simp]:
  "nd_coord (node_mark_dormant j s) = mark_dormant j (nd_coord s)"
  "nd_flights (node_mark_dormant j s) = nd_flights s" "nd_world (node_mark_dormant j s) = nd_world s"
  "nd_deferred (node_mark_dormant j s) = nd_deferred s" "nd_counts (node_mark_dormant j s) = nd_counts s"
  by (simp_all add: node_mark_dormant_def)

lemma check_deferred_frame:
  assumes "check_deferred ct j s = (b, t)"
  shows "nd_coord t = nd_coord s" "nd_flights t = nd_flights s" "nd_world t = nd_world s"
  using assms by (auto simp: check_deferred_def split: option.splits if_splits)

lemma check_deferred_orch [simp]: "check_deferred (ct\<lparr>ct_orchestrator := orch\<rparr>) j s = check_deferred ct j s"
  by (simp add: check_deferred_def split: option.splits)

text \<open>A job in flight is left alone: the orchestrator is not consulted.\<close>

lemma scale_down_in_flight:
  assumes "has_in_flight (job_str j) (nd_flights s)"
  shows "scale_down_job (ct\<lparr>ct_orchestrator := orch\<rparr>) j s = scale_down_job ct j s"
    and "nd_coord (scale_down_job ct j s) = nd_coord s"
    and "nd_flights (scale_down_job ct j s) = nd_flights s"
proof -
  obtain b t where t: "check_deferred ct j s = (b, t)" by force
  note f = check_deferred_frame [OF t]
  show "scale_down_job (ct\<lparr>ct_orchestrator := orch\<rparr>) j s = scale_down_job ct j s"
    using assms f t by (cases b) (simp_all add: scale_down_job_def)
  show "nd_coord (scale_down_job ct j s) = nd_coord s" and "nd_flights (scale_down_job ct j s) = nd_flights s"
    using assms f t by (cases b; simp add: scale_down_job_def; fail)+
qed

lemma scale_down_busy:
  assumes "nd_deferred s (job_str j) = None" and "has_in_flight (job_str j) (nd_flights s)"
  shows "scale_down_job ct j s = try_world (record_activity (ct_store ct) j) s"
  using assms by (simp add: scale_down_job_def check_deferred_def)

lemma scale_down_all_in_flight:
  assumes "\<forall>j \<in> set js. has_in_flight (job_str j) (nd_flights s)"
  shows "scale_down_all (ct\<lparr>ct_orchestrator := orch\<rparr>) js s = scale_down_all ct js s \<and>
         nd_coord (scale_down_all ct js s) = nd_coord s"
  using assms by (induction js arbitrary: s) (auto simp: scale_down_in_flight)

subsection \<open>The simulated world\<close>

text \<open>The in-memory servers, and the orchestrator's log of scale-down calls.\<close>

record sim_world = mem_node +
  scaled :: "(string \<times> string) list"

definition sim_empty :: sim_world where
  "sim_empty = \<lparr>m_zset = [], m_hash = [], m_ctr = [], m_lock = [], m_now = 0, m_kv = [], scaled = []\<rparr>"

definition sim_orchestrator :: "nscale_error option \<Rightarrow> sim_world orchestrator" where
  "sim_orchestrator err =
     \<lparr>scale_up = (\<lambda>j g n. io_return ()),
      scale_down = (\<lambda>j g w. (case err of None \<Rightarrow> Inr () | Some e \<Rightarrow> Inl e,
                            w\<lparr>scaled := scaled w @ [(job_str j, g)]\<rparr>)),
      get_job_count = (\<lambda>j g. io_return 1), get_healthy_endpoint = (\<lambda>j. io_return None)\<rparr>"

definition sim_registry :: "sim_world job_registry" where
  "sim_registry = registry_new mem_redis demo_codec"

definition sim_controller :: "nscale_error option \<Rightarrow> sim_world controller" where
  "sim_controller err = controller_new (sim_orchestrator err)
     (redis_activity_impl (mem_store ''n1'')) sim_registry None (redis_missing_impl mem_redis)
     (from_secs 300) (from_secs 30) True 3 m_now (\<lambda>_. False)"

definition sim_node :: "sim_world \<Rightarrow> sim_world node" where
  "sim_node w = \<lparr>nd_coord = coordinator_new 1 60, nd_flights = tracker_new, nd_deferred = Map.empty,
     nd_counts = Map.empty, nd_world = w\<rparr>"

text \<open>The job \<^verbatim>\<open>shop\<close> with the service \<^verbatim>\<open>web\<close> is registered, and both names have been idle long.\<close>

definition sim_shop :: sim_world where
  "sim_shop = sim_empty\<lparr>m_now := 400 * 10 ^ 9,
     m_hash := [((REGISTRY_BY_SERVICE_KEY, ''web''), shop_code), ((REGISTRY_BY_JOB_KEY, ''shop''), shop_code)],
     m_zset := [((ACTIVITY_KEY, ''web''), 1)]\<rparr>"

lemmas sim_run = tick_def tick_locked_def drop_lock_guard_def scale_down_job_def check_deferred_def
  check_traffic_def scale_down_registered_def handle_scale_down_result_def clear_missing_job_counter_def
  handle_missing_job_def cleanup_missing_job_state_def
  sim_controller_def controller_new_def sim_orchestrator_def sim_registry_def registry_new_def
  redis_activity_impl_def redis_missing_impl_def mem_store_def sim_node_def on_world_def try_world_def
  redis_try_acquire_lock_def redis_release_lock_def redis_get_idle_jobs_def redis_record_activity_def
  redis_remove_activity_def redis_clear_not_found_def redis_increment_not_found_def
  mem_redis_def mem_eval_def subkeys_def
  mem_locks_def counter_of_def now_epoch_def get_def get_from_hash_def get_durable_def from_str_def
  demo_codec_def demo_dec_def io_bind_def io_return_def io_map_err_def io_lift_def
  undefer_def clear_probe_def node_mark_dormant_def from_secs_def nanos_per_sec_def
  has_in_flight_def sim_shop_def sim_empty_def shop_code_def

subsection \<open>Properties\<close>

text \<open>
  C6: Requests in flight protect a job. When every job that the idle scan reports has a request in
  flight under its own id, a tick neither consults the orchestrator (its outcome is the same for
  every orchestrator) nor changes the coordinator.
\<close>

theorem in_flight_protects:
  assumes "\<forall>w1 js w2. try_acquire_lock (ct_store ct) SCALE_DOWN_LOCK_KEY (ct_lock_ttl ct) (nd_world s) = (Inr True, w1) \<and>
             get_idle_jobs (ct_store ct) (ct_idle_threshold ct) w1 = (Inr js, w2) \<longrightarrow>
             (\<forall>j \<in> set js. has_in_flight (job_str j) (nd_flights s))"
  shows "tick (ct\<lparr>ct_orchestrator := orch\<rparr>) s = tick ct s \<and> nd_coord (snd (tick ct s)) = nd_coord s"
proof (cases "on_world (try_acquire_lock (ct_store ct) SCALE_DOWN_LOCK_KEY (ct_lock_ttl ct)) s")
  case (Pair r t)
  note t = on_worldD [OF Pair]
  have ft: "nd_flights t = nd_flights s" "nd_coord t = nd_coord s" using on_world_same [OF Pair] by simp_all
  obtain q u where q: "on_world (get_idle_jobs (ct_store ct) (ct_idle_threshold ct)) t = (q, u)" by force
  note u = on_worldD [OF q]
  have fu: "nd_flights u = nd_flights s" "nd_coord u = nd_coord s" using on_world_same [OF q] ft by simp_all
  have locked: "tick_locked (ct\<lparr>ct_orchestrator := orch\<rparr>) t = tick_locked ct t \<and>
      nd_coord (snd (tick_locked ct t)) = nd_coord t" if r: "r = Inr True"
  proof (cases q)
    case (Inl e)
    with q fu ft show ?thesis by (simp add: tick_locked_def)
  next
    case (Inr js)
    have "\<forall>j \<in> set js. has_in_flight (job_str j) (nd_flights u)" using assms t u Inr fu(1) r by metis
    from scale_down_all_in_flight [OF this] q Inr fu ft show ?thesis by (simp add: tick_locked_def)
  qed
  obtain q' u' where "tick_locked ct t = (q', u')" by force
  with locked ft Pair show ?thesis
    by (auto simp: tick_def drop_lock_guard_def split: sum.splits bool.splits)
qed

definition sim_busy :: "sim_world node" where
  "sim_busy = (sim_node sim_shop)\<lparr>nd_flights := snd (track ''web'' tracker_new)\<rparr>"

theorem in_flight_protects_witness:
  "map_of (m_zset (nd_world (snd (tick (sim_controller None) sim_busy)))) (ACTIVITY_KEY, ''web'') = Some (400 * 10 ^ 9) \<and>
   tick ((sim_controller None)\<lparr>ct_orchestrator := sim_orchestrator (Some (Nomad ''x''))\<rparr>) sim_busy =
     tick (sim_controller None) sim_busy"
proof -
  have h: "\<forall>w1 js w2. try_acquire_lock (ct_store (sim_controller None)) SCALE_DOWN_LOCK_KEY
        (ct_lock_ttl (sim_controller None)) (nd_world sim_busy) = (Inr True, w1) \<and>
      get_idle_jobs (ct_store (sim_controller None)) (ct_idle_threshold (sim_controller None)) w1 = (Inr js, w2) \<longrightarrow>
      (\<forall>j \<in> set js. has_in_flight (job_str j) (nd_flights sim_busy))"
    by (auto simp: sim_run sim_busy_def track_def entry_or_insert_def fetch_add_def tracker_new_def)
  have "map_of (m_zset (nd_world (snd (tick (sim_controller None) sim_busy)))) (ACTIVITY_KEY, ''web'') = Some (400 * 10 ^ 9)"
    by (simp add: sim_run sim_busy_def track_def entry_or_insert_def fetch_add_def tracker_new_def scale_down_busy
        del: scale_down_job_def)
  then show ?thesis using in_flight_protects [OF h] by blast
qed

text \<open>
  A blocked scale-down is deferred for thirty seconds. After Nomad reports an active
  deployment, every attempt on that job within the next thirty seconds leaves the whole node
  untouched; an attempt after that starts by dropping the deferral.
\<close>

theorem deferred_for_backoff:
  assumes "t = handle_scale_down_result ct j (Inl (DeploymentInProgress a b)) s"
    and "nd_deferred u (job_str j) = nd_deferred t (job_str j)"
  shows "(if ct_now ct (nd_world u) < ct_now ct (nd_world s) + 30 * 10 ^ 9
          then scale_down_job ct j u = u
          else check_deferred ct j u = (False, undefer j u))"
proof -
  have "nd_deferred u (job_str j) = Some (ct_now ct (nd_world s) + 30 * 10 ^ 9)"
    using assms by (simp add: handle_scale_down_result_def DEPLOYMENT_BACKOFF_def from_secs_def nanos_per_sec_def)
  then show ?thesis by (simp add: scale_down_job_def check_deferred_def)
qed

theorem deferred_for_backoff_witness:
  "nd_deferred (handle_scale_down_result (sim_controller None) (JobId ''web'')
       (Inl (DeploymentInProgress ''shop'' ''scale down'')) (sim_node sim_shop)) ''web'' = Some (430 * 10 ^ 9) \<and>
   (let u = handle_scale_down_result (sim_controller None) (JobId ''web'')
       (Inl (DeploymentInProgress ''shop'' ''scale down'')) (sim_node sim_shop)
    in scale_down_job (sim_controller None) (JobId ''web'') u = u)"
proof -
  let ?t = "handle_scale_down_result (sim_controller None) (JobId ''web'')
       (Inl (DeploymentInProgress ''shop'' ''scale down'')) (sim_node sim_shop)"
  have d: "nd_deferred ?t ''web'' = Some (430 * 10 ^ 9)" and n: "ct_now (sim_controller None) (nd_world ?t) = 400 * 10 ^ 9"
    and n0: "ct_now (sim_controller None) (nd_world (sim_node sim_shop)) = 400 * 10 ^ 9"
    by (simp_all add: sim_run DEPLOYMENT_BACKOFF_def)
  have "scale_down_job (sim_controller None) (JobId ''web'') ?t = ?t"
    using deferred_for_backoff [OF refl refl, of "sim_controller None" "JobId ''web''" "''shop''" "''scale down''" "sim_node sim_shop"]
    by (simp add: n n0)
  with d show ?thesis by simp
qed

text \<open>
  A scale-down forgets the job. When the orchestrator has scaled down the registration found
  for an idle id, the coordinator has neither a cached endpoint nor a wake state for that id, its
  deferral and its traffic baseline are gone, and the requests in flight are untouched.
\<close>

theorem scale_down_forgets:
  assumes "on_world (get (ct_registry ct) j) s = (Inr (Some reg), s1)"
    and "on_world (scale_down (ct_orchestrator ct) (job_id reg) (nomad_group reg)) s1 = (Inr (), s2)"
  shows "let t = scale_down_registered ct j s in
         endpoints (nd_coord t) (job_str j) = None \<and> jobs (nd_coord t) (job_str j) = None \<and>
         nd_deferred t (job_str j) = None \<and> nd_flights t = nd_flights s \<and>
         (case ct_probe ct of None \<Rightarrow> True | Some p \<Rightarrow> nd_counts t (service_label p j) = None)"
proof -
  have f: "nd_flights s2 = nd_flights s"
    using on_world_same [OF assms(1)] on_world_same [OF assms(2)] by simp
  have m: "endpoints (mark_dormant j c) (job_str j) = None \<and> jobs (mark_dormant j c) (job_str j) = None" for c
    by (simp add: mark_dormant_def remove_job_def on_state_def remove_endpoint_def put_state_def split: option.splits)
  have "nd_counts (clear_probe (Some p) j u) (service_label p j) = None" for p and u :: "'a node"
    by (simp add: clear_probe_def clear_baseline_def)
  then show ?thesis
    using assms m f
    by (auto simp: scale_down_registered_def handle_scale_down_result_def clear_missing_job_counter_def
        Let_def split: option.splits)
qed

theorem scale_down_forgets_witness:
  "\<exists>s1 s2. on_world (get (ct_registry (sim_controller None)) (JobId ''web'')) (sim_node sim_shop) = (Inr (Some shop), s1) \<and>
     on_world (scale_down (ct_orchestrator (sim_controller None)) (job_id shop) (nomad_group shop)) s1 = (Inr (), s2) \<and>
     endpoints (nd_coord (scale_down_registered (sim_controller None) (JobId ''web'') (sim_node sim_shop))) ''web'' = None"
proof -
  obtain s1 s2 where g: "on_world (get (ct_registry (sim_controller None)) (JobId ''web'')) (sim_node sim_shop) = (Inr (Some shop), s1)"
    and d: "on_world (scale_down (ct_orchestrator (sim_controller None)) (job_id shop) (nomad_group shop)) s1 = (Inr (), s2)"
    by (simp add: sim_run shop_def)
  from scale_down_forgets [OF g d] g d show ?thesis by (auto simp: Let_def)
qed

lemma deregister_cache_only:
  assumes "durable R = None" and "hash_laws (reg_client R) V" and "deregister R j w = (Inr u, w')"
  shows "job_absent j (cached_jobs (reg_codec R) (V w')) (cached_services (reg_codec R) (V w'))"
proof -
  obtain w1 where "remove_cached_registration R j w1 = (Inr u, w')"
    using assms(1,3) by (auto simp: deregister_def io_iff)
  from remove_cached_ok [OF assms(2) this] show ?thesis by (simp add: job_absent_removed)
qed

lemma clear_not_found_hash:
  assumes "counter_laws R V"
  shows "hash (V (snd (redis_clear_not_found R j w))) = hash (V w)"
proof -
  have "snd (redis_clear_not_found R j w) = snd (r_eval R del_script [missing_key j] [] w)"
    by (simp add: redis_clear_not_found_def io_bind_return_state io_map_err_state)
  moreover have "hash (V (snd (r_eval R del_script [missing_key j] [] w))) = hash (V w)"
    using counter_lawsD(3) [OF assms, of "missing_key j" w]
    by (auto simp: wrote_def ctr_put_def split: prod.splits sum.splits)
  ultimately show ?thesis by simp
qed

text \<open>What the clean-up of a missing job leaves of it, in the controller and in the proxy.\<close>

definition forgotten :: "job_id \<Rightarrow> reg_codec \<Rightarrow> redis_view \<Rightarrow> coordinator \<Rightarrow> bool" where
  "forgotten j C v c \<longleftrightarrow> endpoints c (job_str j) = None \<and> job_absent j (cached_jobs C v) (cached_services C v)"

lemma cleanup_forgets:
  assumes "counter_laws M V" and "durable R = None" and "hash_laws (reg_client R) V"
    and "on_world (deregister R j) s = (Inr u, t)" and "nd_coord s = mark_dormant j c"
  shows "forgotten j (reg_codec R) (V (nd_world (try_world (redis_clear_not_found M j) t)))
    (nd_coord (try_world (redis_clear_not_found M j) t))"
proof -
  have "job_absent j (cached_jobs (reg_codec R) (V (nd_world t))) (cached_services (reg_codec R) (V (nd_world t)))"
    using deregister_cache_only [OF assms(2,3)] on_worldD [OF assms(4)] by blast
  moreover have "hash (V (nd_world (try_world (redis_clear_not_found M j) t))) = hash (V (nd_world t))"
    using clear_not_found_hash [OF assms(1)] by simp
  moreover have "nd_coord t = mark_dormant j c" using on_world_same [OF assms(4)] assms(5) by simp
  ultimately show ?thesis
    by (simp add: forgotten_def cached_jobs_def [abs_def] cached_services_def [abs_def] mark_dormant_def remove_job_def
        on_state_def remove_endpoint_def put_state_def split: option.splits)
qed



text \<open>
  One controller at a time. While an unexpired scale-down lock is held, a tick of another
  instance does nothing beyond asking for the lock: the node keeps its state and the orchestrator
  is not consulted; and after a tick that held the lock and whose release Redis answered, the
  instance no longer holds it.
\<close>

theorem tick_exclusive:
  assumes "ct_store ct = redis_activity_impl st" and "lock_laws (act_client st) V L"
  shows "(L (nd_world s) (lock_key SCALE_DOWN_LOCK_KEY) \<noteq> None \<longrightarrow>
            snd (tick ct s) = s\<lparr>nd_world := snd (redis_try_acquire_lock st SCALE_DOWN_LOCK_KEY (ct_lock_ttl ct) (nd_world s))\<rparr>) \<and>
         (\<forall>u w. redis_release_lock st SCALE_DOWN_LOCK_KEY (nd_world u) = (Inr (), w) \<longrightarrow>
            L (nd_world (drop_lock_guard ct u)) (lock_key SCALE_DOWN_LOCK_KEY) \<noteq> Some (instance_id st))"
proof (intro conjI impI allI)
  assume held: "L (nd_world s) (lock_key SCALE_DOWN_LOCK_KEY) \<noteq> None"
  obtain r w where rw: "redis_try_acquire_lock st SCALE_DOWN_LOCK_KEY (ct_lock_ttl ct) (nd_world s) = (r, w)" by force
  have "r \<noteq> Inr True" using redis_acquire_True(1) [OF assms(2)] rw held by metis
  then show "snd (tick ct s) =
      s\<lparr>nd_world := snd (redis_try_acquire_lock st SCALE_DOWN_LOCK_KEY (ct_lock_ttl ct) (nd_world s))\<rparr>"
    using rw assms(1)
    by (auto simp: tick_def on_world_def redis_activity_impl_def split: sum.splits bool.splits)
next
  fix u :: "'a node" and w
  assume "redis_release_lock st SCALE_DOWN_LOCK_KEY (nd_world u) = (Inr (), w)"
  with redis_release_effect [OF assms(2) this] assms(1)
  show "L (nd_world (drop_lock_guard ct u)) (lock_key SCALE_DOWN_LOCK_KEY) \<noteq> Some (instance_id st)"
    by (auto simp: drop_lock_guard_def redis_activity_impl_def)
qed

definition sim_held :: sim_world where
  "sim_held = sim_shop\<lparr>m_lock := [(lock_key SCALE_DOWN_LOCK_KEY, ''n2'')]\<rparr>"

theorem tick_exclusive_witness:
  "mem_locks sim_held (lock_key SCALE_DOWN_LOCK_KEY) \<noteq> None \<and>
   snd (tick (sim_controller None) (sim_node sim_held)) = sim_node sim_held"
proof -
  let ?ct = "sim_controller None"
  let ?st = "mem_store ''n1'' :: sim_world redis_activity_store"
  have a: "ct_store ?ct = redis_activity_impl ?st" by (simp add: sim_controller_def controller_new_def)
  have l: "lock_laws (act_client ?st) mem_view mem_locks" by (simp add: mem_store_def mem_lock_laws)
  have h: "mem_locks sim_held (lock_key SCALE_DOWN_LOCK_KEY) \<noteq> None" by (simp add: sim_held_def mem_locks_def)
  have w: "nd_world (sim_node sim_held) = sim_held" by (simp add: sim_node_def)
  have r: "snd (redis_try_acquire_lock ?st SCALE_DOWN_LOCK_KEY d sim_held) = sim_held" for d
    by (simp add: sim_held_def redis_try_acquire_lock_def mem_store_def mem_redis_def mem_locks_def io_bind_def
        io_map_err_def io_return_def)
  have "snd (tick ?ct (sim_node sim_held)) = (sim_node sim_held)\<lparr>nd_world := sim_held\<rparr>"
    using tick_exclusive [OF a l, of "sim_node sim_held"] h w r by simp
  also have "\<dots> = sim_node sim_held" by (simp add: sim_node_def)
  finally show ?thesis using h by simp
qed

text \<open>A tick in the simulated world, when only the service name is idle and not in flight.\<close>

lemma sim_get_web: "get sim_registry (JobId ''web'') (sim_shop\<lparr>m_lock := l\<rparr>) = (Inr (Some shop), sim_shop\<lparr>m_lock := l\<rparr>)"
  by (simp add: sim_registry_def registry_new_def get_def get_from_hash_def from_str_def mem_redis_def sim_shop_def
      sim_empty_def shop_code_def shop_def demo_codec_def demo_dec_def io_bind_def io_return_def io_map_err_def io_lift_def)

lemma sim_scale_down:
  assumes "counts f ''web'' = None"
  shows "\<exists>w. scale_down_job (sim_controller None) (JobId ''web'') \<lparr>nd_coord = c, nd_flights = f,
       nd_deferred = Map.empty, nd_counts = Map.empty, nd_world = sim_shop\<lparr>m_lock := l\<rparr>\<rparr> =
     \<lparr>nd_coord = mark_dormant (JobId ''web'') c, nd_flights = f, nd_deferred = Map.empty,
      nd_counts = Map.empty, nd_world = w\<rparr> \<and> scaled w = [(''shop'', ''g'')]"
proof -
  have r: "ct_registry (sim_controller None) = sim_registry" "ct_probe (sim_controller None) = None"
    by (simp_all add: sim_controller_def controller_new_def)
  have s: "scaled sim_shop = []" "shop = \<lparr>job_id = JobId ''shop'', service_name = ServiceName ''web'', nomad_group = ''g''\<rparr>"
    by (simp_all add: sim_shop_def sim_empty_def shop_def)
  show ?thesis
    using assms
    by (simp add: scale_down_job_def check_deferred_def has_in_flight_def check_traffic_def
        scale_down_registered_def r sim_get_web on_world_def s)
       (simp add: sim_controller_def controller_new_def sim_orchestrator_def handle_scale_down_result_def
        clear_missing_job_counter_def try_world_def on_world_def undefer_def clear_probe_def node_mark_dormant_def
        redis_activity_impl_def redis_missing_impl_def redis_remove_activity_def redis_clear_not_found_def
        mem_store_def mem_redis_def mem_eval_def io_bind_def io_return_def io_map_err_def s)
qed

lemma sim_tick:
  assumes "counts f ''web'' = None"
  shows "\<exists>w. snd (tick (sim_controller None) \<lparr>nd_coord = c, nd_flights = f, nd_deferred = Map.empty,
       nd_counts = Map.empty, nd_world = sim_shop\<rparr>) =
     \<lparr>nd_coord = mark_dormant (JobId ''web'') c, nd_flights = f, nd_deferred = Map.empty,
      nd_counts = Map.empty, nd_world = w\<rparr> \<and> scaled w = [(''shop'', ''g'')]"
proof -
  let ?ct = "sim_controller None"
  let ?N = "\<lambda>w. \<lparr>nd_coord = c, nd_flights = f, nd_deferred = Map.empty, nd_counts = Map.empty, nd_world = w\<rparr>"
  let ?w1 = "sim_shop\<lparr>m_lock := [(lock_key SCALE_DOWN_LOCK_KEY, ''n1'')]\<rparr>"
  have a: "on_world (try_acquire_lock (ct_store ?ct) SCALE_DOWN_LOCK_KEY (ct_lock_ttl ?ct)) (?N sim_shop) = (Inr True, ?N ?w1)"
    by (simp add: on_world_def sim_controller_def controller_new_def redis_activity_impl_def redis_try_acquire_lock_def
        mem_store_def mem_redis_def mem_locks_def sim_shop_def sim_empty_def io_bind_def io_return_def io_map_err_def)
  have i: "on_world (get_idle_jobs (ct_store ?ct) (ct_idle_threshold ?ct)) (?N ?w1) = (Inr [JobId ''web''], ?N ?w1)"
    by (simp add: on_world_def sim_controller_def controller_new_def redis_activity_impl_def redis_get_idle_jobs_def
        mem_store_def mem_redis_def subkeys_def now_epoch_def from_secs_def nanos_per_sec_def sim_shop_def sim_empty_def
        io_bind_def io_return_def io_map_err_def)
  obtain w where w: "scale_down_job ?ct (JobId ''web'') (?N ?w1) =
      \<lparr>nd_coord = mark_dormant (JobId ''web'') c, nd_flights = f, nd_deferred = Map.empty, nd_counts = Map.empty, nd_world = w\<rparr>"
      "scaled w = [(''shop'', ''g'')]"
    using sim_scale_down [OF assms] by blast
  have n: "\<not> ct_cancelled ?ct x" for x by (simp add: sim_controller_def controller_new_def)
  have d: "scaled (snd (release_lock (ct_store ?ct) SCALE_DOWN_LOCK_KEY w)) = scaled w"
    by (simp add: sim_controller_def controller_new_def redis_activity_impl_def redis_release_lock_def
        mem_store_def mem_redis_def mem_eval_def io_bind_def io_return_def io_map_err_def)
  have "snd (tick ?ct (?N sim_shop)) = \<lparr>nd_coord = mark_dormant (JobId ''web'') c, nd_flights = f,
      nd_deferred = Map.empty, nd_counts = Map.empty,
      nd_world = snd (release_lock (ct_store ?ct) SCALE_DOWN_LOCK_KEY w)\<rparr>"
    by (simp add: tick_def a tick_locked_def i n w(1)) (simp add: drop_lock_guard_def try_world_def on_world_def split_beta)
  then show ?thesis using w(2) d by simp
qed

text \<open>
  The in-flight guard can be bypassed. The proxy tracks a request under the id of its job, but
  the idle scan also reports service names, because the middleware records activity under the
  host label. There is a state in which the job \<^verbatim>\<open>shop\<close> has a request in flight, only its service
  name \<^verbatim>\<open>web\<close> is idle, and a tick scales the job \<^verbatim>\<open>shop\<close> down.
\<close>

theorem in_flight_guard_bypassed:
  "let s = (sim_node sim_shop)\<lparr>nd_flights := snd (track ''shop'' tracker_new)\<rparr> in
   has_in_flight ''shop'' (nd_flights s) \<and>
   has_in_flight ''shop'' (nd_flights (snd (tick (sim_controller None) s))) \<and>
   scaled (nd_world (snd (tick (sim_controller None) s))) = [(''shop'', ''g'')]"
proof -
  let ?f = "snd (track ''shop'' tracker_new)"
  have f: "counts ?f ''web'' = None" "has_in_flight ''shop'' ?f"
    by (simp_all add: track_def entry_or_insert_def fetch_add_def tracker_new_def has_in_flight_def)
  from sim_tick [OF f(1), of "coordinator_new 1 60"] f(2) show ?thesis by (auto simp: Let_def sim_node_def)
qed

definition sim_warm :: "sim_world node" where
  "sim_warm = (sim_node sim_shop)\<lparr>nd_coord := insert_endpoint ''shop'' \<lparr>host = ''10.0.0.7'', port = 80\<rparr>
     (coordinator_new 1 60)\<rparr>"

text \<open>
  A scale-down through the service name leaves the job's endpoint cached. The controller
  forgets the id it was given, not the id of the registration it scaled down: there is a state in
  which a tick scales the job \<^verbatim>\<open>shop\<close> down and the coordinator still answers requests for it with
  the endpoint of the stopped allocation.
\<close>

theorem stale_endpoint_after_scale_down:
  "scaled (nd_world (snd (tick (sim_controller None) sim_warm))) = [(''shop'', ''g'')] \<and>
   is_ready (JobId ''shop'') (nd_coord (snd (tick (sim_controller None) sim_warm)))"
proof -
  have f: "counts tracker_new ''web'' = None" by (simp add: tracker_new_def)
  have "is_ready (JobId ''shop'') (mark_dormant (JobId ''web'') (nd_coord sim_warm))"
    by (simp add: sim_warm_def is_ready_def mark_dormant_def remove_job_def on_state_def remove_endpoint_def
        insert_endpoint_def coordinator_new_def)
  with sim_tick [OF f, of "nd_coord sim_warm"] show ?thesis by (auto simp: sim_warm_def sim_node_def)
qed

end
