(* ===== verification/Event_Processor.thy ===== *)
theory Event_Processor
  imports Controller_Properties Events
begin

text \<open>
  The event processor of \<^verbatim>\<open>crates/nscale-scaler/src/event_processor.rs\<close>: what an event of the
  Nomad stream does to the coordinator, the activity store and the set of allocations already
  seen running. Its properties: a replayed event is silent, the set of seen allocations follows
  the events, and an allocation that stops makes its job dormant.
\<close>

record 'w event_processor =
  ep_store :: "'w activity_store"
  ep_registry :: "'w job_registry"

text \<open>The state it works on: the node it shares with the other parts, and its own set.\<close>

record 'w ep_state =
  ep_node :: "'w node"
  seen_running :: "string set"

definition ep_new :: "'w node \<Rightarrow> 'w ep_state" where
  "ep_new s = \<lparr>ep_node = s, seen_running = {}\<rparr>"

text \<open>\<^verbatim>\<open>alloc.get(field).and_then(|v| v.as_str()).unwrap_or("")\<close>\<close>

definition str_field :: "string \<Rightarrow> json \<Rightarrow> string" where
  "str_field k v = (case Option.bind (json_get k v) as_str of None \<Rightarrow> [] | Some x \<Rightarrow> x)"

text \<open>The three arms of the match on the client status and the desired status.\<close>

datatype alloc_change = AllocRunning | AllocStopped | AllocOther

definition alloc_change_of :: "string \<Rightarrow> string \<Rightarrow> alloc_change" where
  "alloc_change_of client_status desired_status =
     (if client_status = ''running'' \<and> desired_status = ''run'' then AllocRunning
      else if client_status = ''complete'' \<or> client_status = ''failed'' \<or> client_status = ''lost'' \<or>
              desired_status = ''stop'' then AllocStopped
      else AllocOther)"

definition alloc_running :: "'w event_processor \<Rightarrow> job_id \<Rightarrow> string \<Rightarrow> 'w ep_state \<Rightarrow> unit result \<times> 'w ep_state" where
  "alloc_running ep j alloc_id s =
     (if alloc_id \<in> seen_running s then (Inr (), s)
      else case on_world (record_activity (ep_store ep) j) (ep_node s) of
             (r, n) \<Rightarrow> (r, s\<lparr>ep_node := n, seen_running := insert alloc_id (seen_running s)\<rparr>))"

definition alloc_stopped :: "'w event_processor \<Rightarrow> job_id \<Rightarrow> string \<Rightarrow> 'w ep_state \<Rightarrow> 'w ep_state" where
  "alloc_stopped ep j alloc_id s =
     s\<lparr>seen_running := seen_running s - {alloc_id},
       ep_node := try_world (remove_activity (ep_store ep) j) (node_mark_dormant j (ep_node s))\<rparr>"

definition handle_allocation_event ::
  "'w event_processor \<Rightarrow> nomad_event \<Rightarrow> 'w ep_state \<Rightarrow> unit result \<times> 'w ep_state" where
  "handle_allocation_event ep ev s =
     (case json_get ''Allocation'' (payload ev) of
        None \<Rightarrow> (Inr (), s)
      | Some alloc \<Rightarrow>
          (case Option.bind (json_get ''JobID'' alloc) as_str of
             None \<Rightarrow> (Inr (), s)
           | Some job_id_str \<Rightarrow>
               let alloc_id = str_field ''ID'' alloc;
                   client_status = str_field ''ClientStatus'' alloc;
                   desired_status = str_field ''DesiredStatus'' alloc;
                   j = JobId job_id_str
               in case on_world (get (ep_registry ep) j) (ep_node s) of
                    (Inl e, n) \<Rightarrow> (Inl e, s\<lparr>ep_node := n\<rparr>)
                  | (Inr None, n) \<Rightarrow> (Inr (), s\<lparr>ep_node := n\<rparr>)
                  | (Inr (Some registration), n) \<Rightarrow>
                      (case alloc_change_of client_status desired_status of
                         AllocRunning \<Rightarrow> alloc_running ep j alloc_id (s\<lparr>ep_node := n\<rparr>)
                       | AllocStopped \<Rightarrow> (Inr (), alloc_stopped ep j alloc_id (s\<lparr>ep_node := n\<rparr>))
                       | AllocOther \<Rightarrow> (Inr (), s\<lparr>ep_node := n\<rparr>))))"

definition handle_event :: "'w event_processor \<Rightarrow> nomad_event \<Rightarrow> 'w ep_state \<Rightarrow> unit result \<times> 'w ep_state" where
  "handle_event ep ev s =
     (if ev_topic ev = ''Allocation'' then handle_allocation_event ep ev s else (Inr (), s))"

text \<open>\<^verbatim>\<open>run\<close>, over the events received until the channel closes; a failed event is logged.\<close>

fun processor_run :: "'w event_processor \<Rightarrow> nomad_event list \<Rightarrow> 'w ep_state \<Rightarrow> 'w ep_state" where
  "processor_run ep [] s = s"
| "processor_run ep (ev # evs) s = processor_run ep evs (snd (handle_event ep ev s))"

subsection \<open>What an event says\<close>

text \<open>An allocation event as Nomad sends it, and what the processor reads off an event.\<close>

definition alloc_event :: "string \<Rightarrow> string \<Rightarrow> string \<Rightarrow> string \<Rightarrow> nomad_event" where
  "alloc_event job alloc client desired =
     \<lparr>ev_index = 1, ev_topic = ''Allocation'', event_type = ''AllocationUpdated'',
      payload = JObject [(''Allocation'', JObject [(''JobID'', JString job), (''ID'', JString alloc),
        (''ClientStatus'', JString client), (''DesiredStatus'', JString desired)])]\<rparr>"

definition event_alloc :: "nomad_event \<Rightarrow> json option" where
  "event_alloc ev = (if ev_topic ev = ''Allocation'' then json_get ''Allocation'' (payload ev) else None)"

definition event_alloc_id :: "nomad_event \<Rightarrow> string" where
  "event_alloc_id ev = (case event_alloc ev of None \<Rightarrow> [] | Some a \<Rightarrow> str_field ''ID'' a)"

definition event_change :: "nomad_event \<Rightarrow> alloc_change" where
  "event_change ev =
     (case event_alloc ev of
        None \<Rightarrow> AllocOther
      | Some a \<Rightarrow> alloc_change_of (str_field ''ClientStatus'' a) (str_field ''DesiredStatus'' a))"

lemmas event_reads = event_alloc_def event_alloc_id_def event_change_def

lemma alloc_event_reads [simp]:
  "event_alloc_id (alloc_event j a c d) = a" "event_change (alloc_event j a c d) = alloc_change_of c d"
  by (simp_all add: alloc_event_def event_reads str_field_def)

lemma handle_event_silent:
  assumes "event_change ev = AllocRunning" and "event_alloc_id ev \<in> seen_running s"
  shows "handle_event (ep\<lparr>ep_store := st\<rparr>) ev s = handle_event ep ev s"
    and "seen_running (snd (handle_event ep ev s)) = seen_running s"
    and "nd_coord (ep_node (snd (handle_event ep ev s))) = nd_coord (ep_node s)"
  using assms
  by (auto simp: handle_event_def handle_allocation_event_def event_reads alloc_running_def Let_def on_world_def
      split: option.splits if_splits sum.splits prod.splits)

text \<open>
  A replayed event is silent. A sequence of events that report running allocations the
  processor has already seen leaves the coordinator and the set of seen allocations as they were,
  and the activity store is not consulted: the outcome is the same whatever that store does.
\<close>

theorem replay_silent:
  assumes "\<forall>ev \<in> set evs. event_change ev = AllocRunning \<and> event_alloc_id ev \<in> seen_running s"
  shows "processor_run (ep\<lparr>ep_store := st\<rparr>) evs s = processor_run ep evs s \<and>
    seen_running (processor_run ep evs s) = seen_running s \<and>
    nd_coord (ep_node (processor_run ep evs s)) = nd_coord (ep_node s)"
  using assms
proof (induction evs arbitrary: s)
  case Nil
  show ?case by simp
next
  case (Cons ev evs)
  from Cons.prems have e: "event_change ev = AllocRunning" "event_alloc_id ev \<in> seen_running s" by auto
  note h = handle_event_silent [OF e]
  have "\<forall>e \<in> set evs. event_change e = AllocRunning \<and> event_alloc_id e \<in> seen_running (snd (handle_event ep ev s))"
    using Cons.prems h(2) [of ep] by simp
  with Cons.IH [of "snd (handle_event ep ev s)"] h show ?case by simp
qed

definition sim_processor :: "sim_world event_processor" where
  "sim_processor = \<lparr>ep_store = redis_activity_impl (mem_store ''n1''), ep_registry = sim_registry\<rparr>"

theorem replay_silent_witness:
  "let s = \<lparr>ep_node = sim_warm, seen_running = {''a1''}\<rparr>; ev = alloc_event ''shop'' ''a1'' ''running'' ''run'' in
   event_change ev = AllocRunning \<and>
   processor_run (sim_processor\<lparr>ep_store := (ep_store sim_processor)\<lparr>record_activity := (\<lambda>j. io_fail (Store ''down''))\<rparr>\<rparr>) [ev, ev] s = processor_run sim_processor [ev, ev] s"
proof -
  have c: "event_change (alloc_event ''shop'' ''a1'' ''running'' ''run'') = AllocRunning"
    by (simp add: alloc_change_of_def)
  have "\<forall>ev \<in> set [alloc_event ''shop'' ''a1'' ''running'' ''run'', alloc_event ''shop'' ''a1'' ''running'' ''run''].
      event_change ev = AllocRunning \<and> event_alloc_id ev \<in> seen_running \<lparr>ep_node = sim_warm, seen_running = {''a1''}\<rparr>"
    using c by simp
  from replay_silent [OF this] c show ?thesis by (simp add: Let_def)
qed

text \<open>
  A stopped allocation makes its job dormant. When an event reports that an allocation of a
  registered job has stopped, and Redis carries out the removal, the coordinator has neither an
  endpoint nor a wake state for the job, so that the next request wakes it; the allocation is no
  longer among those seen running; and no idle scan reports the job until it is used again.
\<close>

theorem stop_event_forgets:
  assumes "event_alloc ev = Some alloc" and "json_get ''JobID'' alloc = Some (JString j)"
    and "event_change ev = AllocStopped"
    and "ep_store ep = redis_activity_impl st" and "zset_laws (act_client st) V"
    and "get (ep_registry ep) (JobId j) (nd_world (ep_node s)) = (Inr (Some reg), w1)"
    and "redis_remove_activity st (JobId j) w1 = (Inr (), w2)"
    and "t = snd (handle_event ep ev s)"
  shows "endpoints (nd_coord (ep_node t)) j = None \<and> jobs (nd_coord (ep_node t)) j = None \<and>
    str_field ''ID'' alloc \<notin> seen_running t \<and>
    (\<forall>w3 threshold js w4. V w3 = V (nd_world (ep_node t)) \<longrightarrow>
       redis_get_idle_jobs st threshold w3 = (Inr js, w4) \<longrightarrow> JobId j \<notin> set js)"
proof -
  have g: "on_world (get (ep_registry ep) (JobId j)) (ep_node s) = (Inr (Some reg), (ep_node s)\<lparr>nd_world := w1\<rparr>)"
    using assms(6) by (simp add: on_world_def)
  have r: "remove_activity (ep_store ep) (JobId j) w1 = (Inr (), w2)"
    using assms(4,7) by (simp add: redis_activity_impl_def)
  have t: "t = alloc_stopped ep (JobId j) (str_field ''ID'' alloc) (s\<lparr>ep_node := (ep_node s)\<lparr>nd_world := w1\<rparr>\<rparr>)"
    using assms(1-3,8) g
    by (auto simp: handle_event_def handle_allocation_event_def event_reads Let_def split: if_splits)
  have w: "nd_world (ep_node t) = w2" by (simp add: t alloc_stopped_def r)
  have "JobId j \<notin> set js" if "V w3 = V w2" "redis_get_idle_jobs st threshold w3 = (Inr js, w4)" for w3 threshold js w4
    using act.not_idle_after_forget [of st V "JobId j" w1 "()" w2 w3 threshold js w4] assms(5,7) that
    by (simp add: activity_good_def activity_seen_def)
  then show ?thesis unfolding w
    by (auto simp: t alloc_stopped_def mark_dormant_def remove_job_def on_state_def remove_endpoint_def put_state_def
        split: option.splits)
qed

lemma sim_get_shop: "get sim_registry (JobId ''shop'') sim_shop = (Inr (Some shop), sim_shop)"
  by (simp add: sim_registry_def registry_new_def get_def get_from_hash_def from_str_def mem_redis_def sim_shop_def
      sim_empty_def shop_code_def shop_def demo_codec_def demo_dec_def io_bind_def io_return_def io_map_err_def io_lift_def)

definition sim_two_allocs :: "sim_world ep_state" where
  "sim_two_allocs = \<lparr>ep_node = sim_warm, seen_running = {''a1'', ''a2''}\<rparr>"

theorem stop_event_forgets_witness:
  "\<exists>w2. get (ep_registry sim_processor) (JobId ''shop'') (nd_world (ep_node sim_two_allocs)) = (Inr (Some shop), sim_shop) \<and>
     redis_remove_activity (mem_store ''n1'') (JobId ''shop'') sim_shop = (Inr (), w2) \<and>
     endpoints (nd_coord (ep_node (snd (handle_event sim_processor
       (alloc_event ''shop'' ''a1'' ''complete'' ''run'') sim_two_allocs)))) ''shop'' = None"
proof -
  let ?alloc = "JObject [(''JobID'', JString ''shop''), (''ID'', JString ''a1''),
      (''ClientStatus'', JString ''complete''), (''DesiredStatus'', JString ''run'')]"
  let ?ev = "alloc_event ''shop'' ''a1'' ''complete'' ''run''"
  have e: "event_alloc ?ev = Some ?alloc" "json_get ''JobID'' ?alloc = Some (JString ''shop'')"
    "event_change ?ev = AllocStopped"
    by (simp_all add: event_alloc_def alloc_change_of_def) (simp add: alloc_event_def)
  have p: "ep_store sim_processor = redis_activity_impl (mem_store ''n1'')" by (simp add: sim_processor_def)
  have z: "zset_laws (act_client (mem_store ''n1'' :: sim_world redis_activity_store)) mem_view"
    by (simp add: mem_store_def mem_zset_laws)
  have g: "get (ep_registry sim_processor) (JobId ''shop'') (nd_world (ep_node sim_two_allocs)) = (Inr (Some shop), sim_shop)"
    by (simp add: sim_processor_def sim_two_allocs_def sim_warm_def sim_node_def sim_get_shop)
  obtain w2 where r: "redis_remove_activity (mem_store ''n1'') (JobId ''shop'') sim_shop = (Inr (), w2)"
    by (simp add: redis_remove_activity_def mem_store_def mem_redis_def io_bind_def io_return_def io_map_err_def)
  from stop_event_forgets [OF e p z g r refl] g r show ?thesis by blast
qed

text \<open>
  One stopped allocation is enough. With two allocations of the job \<^verbatim>\<open>shop\<close> running and its
  endpoint cached, an event that reports one of them complete makes the coordinator forget the
  endpoint and the job although the other allocation is still among those seen running.
\<close>

theorem dormant_on_any_stop:
  "let t = snd (handle_event sim_processor (alloc_event ''shop'' ''a1'' ''complete'' ''run'') sim_two_allocs) in
   is_ready (JobId ''shop'') (nd_coord (ep_node sim_two_allocs)) \<and>
   seen_running t = {''a2''} \<and> \<not> is_ready (JobId ''shop'') (nd_coord (ep_node t))"
proof -
  have g: "get (ep_registry sim_processor) (JobId ''shop'') sim_shop = (Inr (Some shop), sim_shop)"
    by (simp add: sim_processor_def sim_get_shop)
  have n: "ep_node sim_two_allocs = sim_warm" "seen_running sim_two_allocs = {''a1'', ''a2''}" "nd_world sim_warm = sim_shop"
    by (simp_all add: sim_two_allocs_def sim_warm_def sim_node_def)
  have w: "is_ready (JobId ''shop'') (nd_coord sim_warm)"
    by (simp add: sim_warm_def is_ready_def insert_endpoint_def)
  have "snd (handle_event sim_processor (alloc_event ''shop'' ''a1'' ''complete'' ''run'') sim_two_allocs) =
      alloc_stopped sim_processor (JobId ''shop'') ''a1'' sim_two_allocs"
    by (simp add: handle_event_def handle_allocation_event_def alloc_event_def on_world_def n g str_field_def
        alloc_change_of_def)
       (simp add: sim_two_allocs_def sim_warm_def sim_node_def)
  with w show ?thesis
    by (simp add: Let_def n alloc_stopped_def is_ready_def mark_dormant_def remove_job_def on_state_def
        remove_endpoint_def put_state_def insert_Diff_if split: option.splits)
qed

end
