(* ===== verification/Consul.thy ===== *)
theory Consul
  imports Http
begin

text \<open>
  The Consul client of \<^verbatim>\<open>crates/nscale-consul\<close>: the fallback registration of the proxy
  (\<^verbatim>\<open>catalog.rs\<close>) and the wait for a healthy instance with blocking queries (\<^verbatim>\<open>health.rs\<close>).

  The HTTP client, the decoder of the health answer, the clock and the sleep are parameters. The
  wait is a loop that ends when the deadline has passed, so whether it ends depends on the clock:
  it is a partial function whose value is \<open>None\<close> when it never returns. The clock is read once per
  iteration.
\<close>

record service_info =
  si_id :: string
  si_address :: string
  si_port :: u16
  si_tags :: "string list"

record health_entry =
  he_service :: service_info

record 'w consul_client =
  cc_http :: "'w http"
  cc_base_url :: string
  dec_health :: "string \<Rightarrow> string + health_entry list"
  cc_now :: "'w \<Rightarrow> instant"
  cc_sleep :: "duration \<Rightarrow> 'w \<Rightarrow> 'w"

definition consul_new ::
  "'w http \<Rightarrow> (string \<Rightarrow> string + health_entry list) \<Rightarrow> ('w \<Rightarrow> instant) \<Rightarrow> (duration \<Rightarrow> 'w \<Rightarrow> 'w) \<Rightarrow>
   string \<Rightarrow> 'w consul_client" where
  "consul_new h dec now slp addr =
     \<lparr>cc_http = h, cc_base_url = trim_end_matches CHR ''/'' addr, dec_health = dec, cc_now = now, cc_sleep = slp\<rparr>"

definition consul_url :: "'w consul_client \<Rightarrow> string \<Rightarrow> string" where
  "consul_url c path = cc_base_url c @ path"

definition consul_send :: "'w consul_client \<Rightarrow> string \<Rightarrow> string \<Rightarrow> http_body \<Rightarrow> ('w, http_response) call" where
  "consul_send c method path body =
     io_map_err Http (http_send (cc_http c)
       \<lparr>req_method = method, req_url = consul_url c path, req_body = body\<rparr>)"

subsection \<open>The fallback registration\<close>

definition FALLBACK_TAG :: string where
  "FALLBACK_TAG = ''nscale-fallback''"

definition fallback_id :: "service_name \<Rightarrow> string" where
  "fallback_id sn = ''nscale-fallback-'' @ service_str sn"

definition fallback_registration :: "service_name \<Rightarrow> endpoint \<Rightarrow> service_registration" where
  "fallback_registration sn proxy_endpoint =
     \<lparr>sreg_id = fallback_id sn, sreg_name = service_str sn, sreg_address = host proxy_endpoint,
      sreg_port = port proxy_endpoint, sreg_tags = [FALLBACK_TAG],
      weights = Some \<lparr>passing = 1, warning = 0\<rparr>\<rparr>"

definition consul_check :: "'w consul_client \<Rightarrow> string \<Rightarrow> http_response \<Rightarrow> ('w, unit) call" where
  "consul_check c what resp =
     (if is_success resp then io_return ()
      else io_fail (Consul (what @ '' returned '' @ status_text (cc_http c) (resp_status resp) @ '': '' @ text_or_default resp)))"

definition register_fallback_service ::
  "'w consul_client \<Rightarrow> service_name \<Rightarrow> endpoint \<Rightarrow> ('w, unit) call" where
  "register_fallback_service c sn proxy_endpoint =
     io_bind (consul_send c ''PUT'' ''/v1/agent/service/register''
                (RegisterBody (fallback_registration sn proxy_endpoint)))
       (consul_check c ''register fallback'')"

definition deregister_fallback_service :: "'w consul_client \<Rightarrow> service_name \<Rightarrow> ('w, unit) call" where
  "deregister_fallback_service c sn =
     io_bind (consul_send c ''PUT'' (''/v1/agent/service/deregister/'' @ fallback_id sn) NoBody)
       (consul_check c ''deregister fallback'')"

subsection \<open>Waiting for a healthy service\<close>

definition health_path :: "service_name \<Rightarrow> u64 \<Rightarrow> duration \<Rightarrow> string" where
  "health_path sn consul_index wait =
     ''/v1/health/service/'' @ service_str sn @ ''?passing=true&index='' @ show_nat (unat consul_index) @
     ''&wait='' @ show_nat (max (as_secs wait) 1) @ ''s''"

definition next_index :: "http_response \<Rightarrow> u64 \<Rightarrow> u64" where
  "next_index resp consul_index =
     (case Option.bind (resp_headers resp ''X-Consul-Index'') parse_u64 of
        None \<Rightarrow> consul_index | Some i \<Rightarrow> i)"

definition is_real :: "health_entry \<Rightarrow> bool" where
  "is_real e \<longleftrightarrow> FALLBACK_TAG \<notin> set (si_tags (he_service e))"

definition entry_endpoint :: "health_entry \<Rightarrow> endpoint" where
  "entry_endpoint e = endpoint_new (si_address (he_service e)) (si_port (he_service e))"

text \<open>One query of the loop, at the given index and deadline.\<close>

definition health_query ::
  "'w consul_client \<Rightarrow> service_name \<Rightarrow> duration \<Rightarrow> instant \<Rightarrow> u64 \<Rightarrow> ('w, http_response) call" where
  "health_query c sn timeout deadline consul_index w =
     (let block_wait = min (from_secs 10) timeout;
          remaining = deadline - cc_now c w
      in consul_send c ''GET'' (health_path sn consul_index (min block_wait remaining)) NoBody w)"

partial_function (option) wait_loop ::
  "'w consul_client \<Rightarrow> service_name \<Rightarrow> duration \<Rightarrow> instant \<Rightarrow> u64 \<Rightarrow> 'w \<Rightarrow> (endpoint result \<times> 'w) option" where
  "wait_loop c sn timeout deadline consul_index w =
     (if deadline \<le> cc_now c w then Some (Inl (WakeTimeout (service_str sn) (as_secs timeout)), w)
      else case health_query c sn timeout deadline consul_index w of
             (Inl e, w1) \<Rightarrow> Some (Inl e, w1)
           | (Inr resp, w1) \<Rightarrow>
               if \<not> is_success resp
               then wait_loop c sn timeout deadline (next_index resp consul_index) (cc_sleep c (from_millis 500) w1)
               else (case resp_json (dec_health c) resp of
                       Inl e \<Rightarrow> Some (Inl e, w1)
                     | Inr entries \<Rightarrow>
                         (case find is_real entries of
                            Some e \<Rightarrow> Some (Inr (entry_endpoint e), w1)
                          | None \<Rightarrow> wait_loop c sn timeout deadline (next_index resp consul_index) w1)))"

definition wait_for_healthy_service ::
  "'w consul_client \<Rightarrow> service_name \<Rightarrow> duration \<Rightarrow> 'w \<Rightarrow> (endpoint result \<times> 'w) option" where
  "wait_for_healthy_service c sn timeout w = wait_loop c sn timeout (cc_now c w + timeout) 0 w"

text \<open>
  The \<^verbatim>\<open>ServiceDiscovery\<close> trait for the client (\<^verbatim>\<open>traits_impl.rs\<close>). A call of the trait returns, so the
  wait is used where it does; \<open>wait_returns\<close> below shows that it always does.
\<close>

definition consul_discovery :: "'w consul_client \<Rightarrow> 'w service_discovery" where
  "consul_discovery c =
     \<lparr>register_fallback = register_fallback_service c, deregister_fallback = deregister_fallback_service c,
      wait_for_healthy = (\<lambda>sn timeout w. the (wait_for_healthy_service c sn timeout w))\<rparr>"

subsection \<open>Properties of the wait\<close>

text \<open>
  What the code relies on of the runtime: no operation turns the clock back, and a query and a
  sleep take time, at least one tick of the clock.
\<close>

definition clock_laws :: "'w consul_client \<Rightarrow> bool" where
  "clock_laws c \<longleftrightarrow>
     (\<forall>rq w. cc_now c w < cc_now c (snd (http_send (cc_http c) rq w))) \<and>
     (\<forall>d w. cc_now c w \<le> cc_now c (cc_sleep c d w))"

lemma query_advances: "clock_laws c \<Longrightarrow> health_query c sn to dl i w = (r, w1) \<Longrightarrow> cc_now c w < cc_now c w1"
proof -
  assume l: "clock_laws c" and q: "health_query c sn to dl i w = (r, w1)"
  have "snd (io_map_err f m v) = snd (m v)" for f :: "string \<Rightarrow> nscale_error" and m and v :: 'a
    by (simp add: io_map_err_def split: prod.splits sum.splits)
  then obtain rq where "snd (health_query c sn to dl i w) = snd (http_send (cc_http c) rq w)"
    unfolding health_query_def consul_send_def Let_def by blast
  then have "w1 = snd (http_send (cc_http c) rq w)" by (simp add: q)
  with l show ?thesis by (simp add: clock_laws_def)
qed

lemma wait_loop_returns:
  assumes "clock_laws c"
  shows "\<exists>r. wait_loop c sn to dl i w = Some r"
proof (induction "dl - cc_now c w" arbitrary: i w rule: less_induct)
  case less
  show ?case
  proof (cases "dl \<le> cc_now c w")
    case True
    then show ?thesis by (simp add: wait_loop.simps)
  next
    case False
    obtain r w1 where q: "health_query c sn to dl i w = (r, w1)" by force
    have a: "cc_now c w < cc_now c w1" using query_advances [OF assms q] .
    have b: "cc_now c w1 \<le> cc_now c (cc_sleep c d w1)" for d using assms by (simp add: clock_laws_def)
    have "\<exists>r. wait_loop c sn to dl i' (cc_sleep c d w1) = Some r" for i' d
      using False a b [of d] by (intro less) linarith
    moreover have "\<exists>r. wait_loop c sn to dl i' w1 = Some r" for i'
      using False a by (intro less) simp
    ultimately show ?thesis
      using False q by (auto simp: wait_loop.simps [of c sn to dl i w] split: sum.splits option.splits)
  qed
qed

text \<open>
  C23: The wait always returns. When queries take time and the clock never goes back, the wait
  for a healthy service ends for every service, timeout and state of the world, whatever Consul
  answers.
\<close>

theorem wait_returns:
  assumes "clock_laws c"
  shows "\<exists>r w1. wait_for_healthy_service c sn timeout w = Some (r, w1)"
  using wait_loop_returns [OF assms] by (force simp: wait_for_healthy_service_def)

text \<open>A Consul that answers each query of a script, one tick later.\<close>

definition scripted :: "http_response list \<Rightarrow> (string \<Rightarrow> string + health_entry list) \<Rightarrow> nat consul_client" where
  "scripted answers dec = consul_new
     \<lparr>http_send = (\<lambda>rq n. (if n < length answers then Inr (answers ! n) else Inl ''connection refused'', Suc n)),
      status_text = show_nat\<rparr> dec (\<lambda>n. n) (\<lambda>d n. n + d) ''http://consul:8500/''"

lemma scripted_clock: "clock_laws (scripted answers dec)"
  by (simp add: clock_laws_def scripted_def consul_new_def)

theorem wait_returns_witness:
  "clock_laws (scripted [] (\<lambda>_. Inr [])) \<and>
   (\<exists>r w1. wait_for_healthy_service (scripted [] (\<lambda>_. Inr [])) (ServiceName ''web'') 5 0 = Some (r, w1))"
  using wait_returns [OF scripted_clock] scripted_clock by blast

lemma find_SomeD: "find P xs = Some x \<Longrightarrow> x \<in> set xs \<and> P x"
  by (induction xs) (auto split: if_splits)

text \<open>What the loop answers, read off the query it answered on.\<close>

definition healthy_answer ::
  "'w consul_client \<Rightarrow> service_name \<Rightarrow> duration \<Rightarrow> instant \<Rightarrow> endpoint \<Rightarrow> 'w \<Rightarrow> bool" where
  "healthy_answer c sn to dl e w1 \<longleftrightarrow>
     (\<exists>i v resp entries en. cc_now c v < dl \<and> health_query c sn to dl i v = (Inr resp, w1) \<and> is_success resp \<and>
        resp_json (dec_health c) resp = Inr entries \<and> en \<in> set entries \<and>
        FALLBACK_TAG \<notin> set (si_tags (he_service en)) \<and>
        e = \<lparr>host = si_address (he_service en), port = si_port (he_service en)\<rparr>)"

definition wait_outcome ::
  "'w consul_client \<Rightarrow> service_name \<Rightarrow> duration \<Rightarrow> instant \<Rightarrow> endpoint result \<times> 'w \<Rightarrow> bool" where
  "wait_outcome c sn to dl z \<longleftrightarrow>
     (case z of
        (Inr e, w1) \<Rightarrow> healthy_answer c sn to dl e w1
      | (Inl (WakeTimeout k n), w1) \<Rightarrow> k = service_str sn \<and> n = as_secs to \<and> dl \<le> cc_now c w1
      | (Inl (Http m), w1) \<Rightarrow> True
      | _ \<Rightarrow> False)"

lemma query_error: "health_query c sn to dl i w = (Inl e, w1) \<Longrightarrow> \<exists>m. e = Http m"
  by (auto simp: health_query_def consul_send_def io_iff)

lemma resp_json_error: "resp_json dec resp = Inl e \<Longrightarrow> \<exists>m. e = Http m"
  by (auto simp: resp_json_def split: sum.splits)

lemma wait_outcome_simps:
  "wait_outcome c sn to dl (Inr e, w1) = healthy_answer c sn to dl e w1" "wait_outcome c sn to dl (Inl (Http m), w1)"
  by (simp_all add: wait_outcome_def)

lemma found_healthy:
  assumes "\<not> dl \<le> cc_now c w" and "health_query c sn to dl i w = (Inr resp, w1)" and "is_success resp"
    and "resp_json (dec_health c) resp = Inr entries" and "find is_real entries = Some en"
  shows "healthy_answer c sn to dl (entry_endpoint en) w1"
proof -
  have "en \<in> set entries" "is_real en" using find_SomeD [OF assms(5)] by simp_all
  then show ?thesis
    unfolding healthy_answer_def is_real_def entry_endpoint_def endpoint_new_def
    using assms by (intro exI [of _ i] exI [of _ w] exI [of _ resp] exI [of _ entries] exI [of _ en]) simp
qed

lemma wait_loop_sound:
  assumes "wait_loop c sn to dl i w = Some z"
  shows "wait_outcome c sn to dl z"
proof (rule wait_loop.raw_induct [where P = "\<lambda>c sn to dl i w z. wait_outcome c sn to dl z", OF _ assms], goal_cases)
  case (1 loop c sn to dl i w z)
  show ?case
  proof (cases "dl \<le> cc_now c w")
    case True
    then show ?thesis using 1(2) by (auto simp: wait_outcome_def)
  next
    case False
    obtain r w1 where q: "health_query c sn to dl i w = (r, w1)" by force
    show ?thesis
    proof (cases r)
      case (Inl e)
      then show ?thesis using 1(2) False q query_error by (fastforce simp: wait_outcome_def)
    next
      case (Inr resp)
      show ?thesis using 1(2) [unfolded q Inr] False 1(1) found_healthy [OF False q [unfolded Inr]]
        by (auto simp: wait_outcome_simps dest!: resp_json_error split: if_splits sum.splits option.splits)
    qed
  qed
qed

text \<open>
  C22: What the wait returns is right. An endpoint it returns is the address and port of an
  instance that a successful query, sent before the deadline, listed as healthy and that does not
  carry the tag of the proxy's own fallback registration; a timeout names the service and is
  reported only once the deadline has passed; the only other errors are those of the HTTP client.
\<close>

theorem wait_sound:
  assumes "wait_for_healthy_service c sn timeout w = Some z"
  shows "case z of
       (Inr e, w1) \<Rightarrow> (\<exists>i v resp entries en. cc_now c v < cc_now c w + timeout \<and>
          health_query c sn timeout (cc_now c w + timeout) i v = (Inr resp, w1) \<and> is_success resp \<and>
          resp_json (dec_health c) resp = Inr entries \<and> en \<in> set entries \<and>
          FALLBACK_TAG \<notin> set (si_tags (he_service en)) \<and>
          e = \<lparr>host = si_address (he_service en), port = si_port (he_service en)\<rparr>)
     | (Inl (WakeTimeout k n), w1) \<Rightarrow> k = service_str sn \<and> n = as_secs timeout \<and> cc_now c w + timeout \<le> cc_now c w1
     | (Inl (Http m), w1) \<Rightarrow> True
     | _ \<Rightarrow> False"
proof -
  have o: "wait_outcome c sn timeout (cc_now c w + timeout) z"
    using assms wait_loop_sound by (simp add: wait_for_healthy_service_def)
  then show ?thesis
    by (cases z; cases "fst z") (fastforce simp: wait_outcome_def healthy_answer_def split: nscale_error.splits)+
qed

definition demo_entry :: "string \<Rightarrow> string list \<Rightarrow> health_entry" where
  "demo_entry addr tags = \<lparr>he_service = \<lparr>si_id = addr, si_address = addr, si_port = 80, si_tags = tags\<rparr>\<rparr>"

definition demo_consul :: "nat consul_client" where
  "demo_consul = scripted
     [\<lparr>resp_status = 200, resp_headers = [''X-Consul-Index'' \<mapsto> ''42''], resp_text = Inr ''1''\<rparr>,
      \<lparr>resp_status = 200, resp_headers = Map.empty, resp_text = Inr ''2''\<rparr>]
     (\<lambda>b. Inr (demo_entry ''10.0.0.1'' [FALLBACK_TAG] # (if b = ''2'' then [demo_entry ''10.0.0.9'' []] else [])))"

theorem wait_sound_witness:
  "wait_for_healthy_service demo_consul (ServiceName ''web'') 5 0 = Some (Inr \<lparr>host = ''10.0.0.9'', port = 80\<rparr>, 2) \<and>
   (\<exists>i v resp. health_query demo_consul (ServiceName ''web'') 5 5 i v = (Inr resp, 2) \<and> is_success resp)"
proof -
  have w: "wait_for_healthy_service demo_consul (ServiceName ''web'') 5 0 = Some (Inr \<lparr>host = ''10.0.0.9'', port = 80\<rparr>, 2)"
    by (simp add: wait_for_healthy_service_def wait_loop.simps demo_consul_def scripted_def consul_new_def health_query_def
        consul_send_def io_map_err_def Let_def is_success_def resp_json_def demo_entry_def is_real_def
        entry_endpoint_def endpoint_new_def)
  moreover have "cc_now demo_consul 0 = 0" by (simp add: demo_consul_def scripted_def consul_new_def)
  ultimately show ?thesis using wait_sound [OF w] by auto
qed

end
