(* ===== verification/Forward.thy ===== *)
theory Forward
  imports Core
begin

text \<open>
  Requests and responses of the proxy and their forwarding to a backend
  (\<^verbatim>\<open>crates/nscale-proxy/src/proxy.rs\<close>), and the label of a \<^verbatim>\<open>Host\<close> header that names the job
  (\<^verbatim>\<open>middleware.rs\<close> and \<^verbatim>\<open>handler.rs\<close>).

  A header map is the list of its entries; names are lower-case, as \<^verbatim>\<open>HeaderName\<close> keeps them, and a
  value is its bytes. The HTTP clients (reqwest for ordinary requests, hyper for protocol upgrades)
  are parameters: what the code hands to them is written out. Bodies are streamed by the libraries
  and are byte strings here.
\<close>

type_synonym header_map = "(string \<times> string) list"

record proxy_request =
  pr_method :: string
  pr_path :: "string option"
  pr_headers :: header_map
  pr_body :: string

record backend_response =
  br_status :: nat
  br_headers :: header_map
  br_body :: string

text \<open>What the handlers answer: a text, a bare status, or what the backend sent.\<close>

datatype response =
    TextResponse nat string
  | StatusResponse nat
  | Forwarded backend_response

fun response_status :: "response \<Rightarrow> nat" where
  "response_status (TextResponse n _) = n"
| "response_status (StatusResponse n) = n"
| "response_status (Forwarded r) = br_status r"

subsection \<open>Header values\<close>

definition visible_ascii :: "char \<Rightarrow> bool" where
  "visible_ascii c \<longleftrightarrow> (let n = of_char c :: nat in (32 \<le> n \<and> n < 127) \<or> n = 9)"

text \<open>\<^verbatim>\<open>HeaderValue::to_str\<close>\<close>

definition to_str :: "string \<Rightarrow> string option" where
  "to_str v = (if list_all visible_ascii v then Some v else None)"

definition header_get :: "string \<Rightarrow> header_map \<Rightarrow> string option" where
  "header_get n hs = map_of hs n"

definition header_get_all :: "string \<Rightarrow> header_map \<Rightarrow> string list" where
  "header_get_all n hs = map snd (filter (\<lambda>h. fst h = n) hs)"

text \<open>\<^verbatim>\<open>HeaderMap::insert\<close> replaces every value of the name.\<close>

fun header_insert :: "string \<Rightarrow> string \<Rightarrow> header_map \<Rightarrow> header_map" where
  "header_insert n v [] = [(n, v)]"
| "header_insert n v ((m, u) # hs) =
     (if m = n then (n, v) # filter (\<lambda>h. fst h \<noteq> n) hs else (m, u) # header_insert n v hs)"

definition eq_ignore_ascii_case :: "string \<Rightarrow> string \<Rightarrow> bool" where
  "eq_ignore_ascii_case a b \<longleftrightarrow> ascii_lower a = ascii_lower b"

definition value_has_token :: "string \<Rightarrow> string \<Rightarrow> bool" where
  "value_has_token token v \<longleftrightarrow> list_ex (\<lambda>part. eq_ignore_ascii_case (trim part) token) (split_on CHR '','' v)"

definition header_contains_token :: "header_map \<Rightarrow> string \<Rightarrow> string \<Rightarrow> bool" where
  "header_contains_token hs n token \<longleftrightarrow>
     list_ex (\<lambda>v. case to_str v of None \<Rightarrow> False | Some s \<Rightarrow> value_has_token token s) (header_get_all n hs)"

definition is_websocket_upgrade :: "proxy_request \<Rightarrow> bool" where
  "is_websocket_upgrade req \<longleftrightarrow>
     header_contains_token (pr_headers req) ''connection'' ''upgrade'' \<and>
     header_contains_token (pr_headers req) ''upgrade'' ''websocket''"

subsection \<open>The label of the host\<close>

definition first_label :: "string \<Rightarrow> string" where
  "first_label h = split_next CHR '':'' (split_next CHR ''.'' h)"

definition extract_job_id_from_host :: "string \<Rightarrow> string option" where
  "extract_job_id_from_host h = (if first_label h = [] then None else Some (first_label h))"

subsection \<open>Errors of forwarding\<close>

text \<open>The errors of the libraries, as far as the code asks them.\<close>

record transport_error =
  te_connect :: bool
  te_timeout :: bool
  te_status :: "nat option"

datatype forward_error =
    Transport transport_error
  | ResponseBuild string
  | UpgradeConnect bool
  | UpgradeHandshake string
  | UpgradeRequest string

fun status_code :: "forward_error \<Rightarrow> nat" where
  "status_code (Transport _) = 502"
| "status_code (UpgradeConnect _) = 502"
| "status_code (UpgradeHandshake _) = 502"
| "status_code (UpgradeRequest _) = 502"
| "status_code (ResponseBuild _) = 500"

fun is_retryable_transport :: "forward_error \<Rightarrow> bool" where
  "is_retryable_transport (Transport e) \<longleftrightarrow> te_connect e \<or> te_timeout e"
| "is_retryable_transport (UpgradeConnect _) \<longleftrightarrow> True"
| "is_retryable_transport (UpgradeHandshake _) \<longleftrightarrow> True"
| "is_retryable_transport (ResponseBuild _) \<longleftrightarrow> False"
| "is_retryable_transport (UpgradeRequest _) \<longleftrightarrow> False"

fun is_connect :: "forward_error \<Rightarrow> bool" where
  "is_connect (Transport e) \<longleftrightarrow> te_connect e"
| "is_connect (UpgradeConnect _) \<longleftrightarrow> True"
| "is_connect (UpgradeHandshake _) \<longleftrightarrow> True"
| "is_connect (ResponseBuild _) \<longleftrightarrow> False"
| "is_connect (UpgradeRequest _) \<longleftrightarrow> False"

fun is_timeout :: "forward_error \<Rightarrow> bool" where
  "is_timeout (Transport e) \<longleftrightarrow> te_timeout e"
| "is_timeout (UpgradeConnect timed_out) \<longleftrightarrow> timed_out"
| "is_timeout (ResponseBuild _) \<longleftrightarrow> False"
| "is_timeout (UpgradeHandshake _) \<longleftrightarrow> False"
| "is_timeout (UpgradeRequest _) \<longleftrightarrow> False"

fun error_response_status :: "forward_error \<Rightarrow> nat option" where
  "error_response_status (Transport e) = te_status e"
| "error_response_status _ = None"

subsection \<open>Forwarding\<close>

record outbound =
  out_method :: string
  out_url :: string
  out_headers :: header_map
  out_body :: string

text \<open>
  The clients: sending with reqwest, building the answer, and for an upgrade connecting, the
  handshake of the connection and sending with hyper.
\<close>

record 'w forward_client =
  fc_send :: "outbound \<Rightarrow> ('w, transport_error, backend_response) io"
  fc_build :: "backend_response \<Rightarrow> string + backend_response"
  fc_connect :: "string \<Rightarrow> ('w, bool, unit) io"
  fc_handshake :: "('w, string, unit) io"
  fc_upgrade :: "outbound \<Rightarrow> ('w, string, backend_response) io"

definition HOP_BY_HOP :: "string list" where
  "HOP_BY_HOP = [''host'', ''connection'', ''keep-alive'', ''transfer-encoding'', ''te'', ''trailer'',
     ''upgrade'', ''proxy-authorization'', ''proxy-connection'']"

definition path_and_query :: "proxy_request \<Rightarrow> string" where
  "path_and_query req = (case pr_path req of None \<Rightarrow> ''/'' | Some pq \<Rightarrow> pq)"

definition outbound_of :: "endpoint \<Rightarrow> proxy_request \<Rightarrow> outbound" where
  "outbound_of backend req =
     \<lparr>out_method = pr_method req, out_url = base_url ''http'' backend @ path_and_query req,
      out_headers = filter (\<lambda>h. fst h \<notin> set HOP_BY_HOP) (pr_headers req), out_body = pr_body req\<rparr>"

text \<open>\<^verbatim>\<open>StatusCode::from_u16(..).unwrap_or(BAD_GATEWAY)\<close>\<close>

definition status_from_u16 :: "nat \<Rightarrow> nat" where
  "status_from_u16 n = (if 100 \<le> n \<and> n < 1000 then n else 502)"

definition forward_request ::
  "'w forward_client \<Rightarrow> endpoint \<Rightarrow> proxy_request \<Rightarrow> ('w, forward_error, backend_response) io" where
  "forward_request fc backend req =
     io_bind (io_map_err Transport (fc_send fc (outbound_of backend req))) (\<lambda>r.
       io_map_err ResponseBuild (io_lift (fc_build fc (r\<lparr>br_status := status_from_u16 (br_status r)\<rparr>))))"

definition upgrade_request :: "endpoint \<Rightarrow> proxy_request \<Rightarrow> outbound" where
  "upgrade_request backend req =
     \<lparr>out_method = pr_method req, out_url = path_and_query req,
      out_headers = header_insert ''host'' (address backend) (pr_headers req), out_body = pr_body req\<rparr>"

text \<open>
  The answer of an upgrade, and whether the tunnel has been started and holds the guard: on every
  other answer, and on every error, the guard is dropped.
\<close>

definition forward_websocket_upgrade ::
  "'w forward_client \<Rightarrow> endpoint \<Rightarrow> proxy_request \<Rightarrow> ('w, forward_error, backend_response \<times> bool) io" where
  "forward_websocket_upgrade fc backend req =
     io_bind (io_map_err UpgradeConnect (fc_connect fc (address backend))) (\<lambda>_.
     io_bind (io_map_err UpgradeHandshake (fc_handshake fc)) (\<lambda>_.
     io_bind (io_map_err UpgradeRequest (fc_upgrade fc (upgrade_request backend req))) (\<lambda>r.
       io_return (r, br_status r = 101))))"

subsection \<open>Properties\<close>

lemma retryable_iff: "is_retryable_transport e \<longleftrightarrow> is_connect e \<or> is_timeout e"
  by (cases e) auto

lemma first_label_takeWhile: "first_label h = takeWhile (\<lambda>c. c \<noteq> CHR ''.'' \<and> c \<noteq> CHR '':'') h"
  unfolding first_label_def split_next_def by (induction h) auto

text \<open>
  The label of the host. The job identifier read from a \<^verbatim>\<open>Host\<close> header is the non-empty
  beginning of the value up to the first dot or colon or the end; there is none exactly when the
  value is empty or starts with a dot or a colon. The middleware and the handler read the same label.
\<close>

theorem host_label:
  "(extract_job_id_from_host h = Some l \<longleftrightarrow>
     l \<noteq> [] \<and> first_label h = l \<and> CHR ''.'' \<notin> set l \<and> CHR '':'' \<notin> set l \<and>
     (\<exists>r. h = l @ r \<and> (r = [] \<or> hd r = CHR ''.'' \<or> hd r = CHR '':''))) \<and>
   (extract_job_id_from_host h = None \<longleftrightarrow> h = [] \<or> hd h = CHR ''.'' \<or> hd h = CHR '':'')"
proof -
  let ?P = "\<lambda>c. c \<noteq> CHR ''.'' \<and> c \<noteq> CHR '':''"
  have t: "h = first_label h @ dropWhile ?P h" by (simp add: first_label_takeWhile)
  have d: "dropWhile ?P h = [] \<or> \<not> ?P (hd (dropWhile ?P h))" using hd_dropWhile [of ?P h] by blast
  have n: "first_label h = [] \<longleftrightarrow> h = [] \<or> hd h = CHR ''.'' \<or> hd h = CHR '':''"
    by (cases h) (auto simp: first_label_takeWhile)
  have s: "CHR ''.'' \<notin> set (first_label h) \<and> CHR '':'' \<notin> set (first_label h)"
    by (auto simp: first_label_takeWhile dest: set_takeWhileD)
  have r: "\<exists>r. h = first_label h @ r \<and> (r = [] \<or> hd r = CHR ''.'' \<or> hd r = CHR '':'')" using t d by blast
  show ?thesis using n s r by (auto simp: extract_job_id_from_host_def)
qed

text \<open>
  Tokens of list-valued headers. A header contains a token exactly when one of its values, in
  visible ASCII, has the token as an element of its comma-separated list, compared without regard
  to case and to white space around the element.
\<close>

theorem token_found:
  "header_contains_token hs n token \<longleftrightarrow>
     (\<exists>a p b. (n, a @ p @ b) \<in> set hs \<and> list_all visible_ascii (a @ p @ b) \<and>
        (a = [] \<or> last a = CHR '','') \<and> (b = [] \<or> hd b = CHR '','') \<and> CHR '','' \<notin> set p \<and>
        ascii_lower (trim p) = ascii_lower token)"
proof -
  have "value_has_token token v \<longleftrightarrow>
      (\<exists>a p b. v = a @ p @ b \<and> (a = [] \<or> last a = CHR '','') \<and> (b = [] \<or> hd b = CHR '','') \<and>
         CHR '','' \<notin> set p \<and> ascii_lower (trim p) = ascii_lower token)" for v
    unfolding value_has_token_def eq_ignore_ascii_case_def list_ex_iff Bex_def in_split_on_iff by blast
  moreover have "header_contains_token hs n token \<longleftrightarrow>
      (\<exists>v. (n, v) \<in> set hs \<and> list_all visible_ascii v \<and> value_has_token token v)"
    by (force simp: header_contains_token_def header_get_all_def list_ex_iff to_str_def split: option.splits if_splits)
  ultimately show ?thesis by (simp only: ) blast
qed

text \<open>
  The hop-by-hop headers never reach the backend, every other header does, in order and with all
  its values, and method, body, path and query are those of the request.
\<close>

lemma outbound_faithful:
  "out_method (outbound_of e req) = pr_method req \<and> out_body (outbound_of e req) = pr_body req \<and>
   out_url (outbound_of e req) = ''http://'' @ address e @ path_and_query req \<and>
   header_get_all n (out_headers (outbound_of e req)) =
     (if n \<in> set HOP_BY_HOP then [] else header_get_all n (pr_headers req))"
  by (auto simp: outbound_of_def base_url_def address_def header_get_all_def filter_empty_conv
      intro!: arg_cong [where f = "map snd"] filter_cong)

text \<open>
  Any method will do: the test for an upgrade looks at two headers only, so that a \<^verbatim>\<open>POST\<close> request
  without a WebSocket key counts as a valid WebSocket upgrade request.
\<close>

lemma websocket_any_method:
  "is_websocket_upgrade \<lparr>pr_method = ''POST'', pr_path = None,
     pr_headers = [(''connection'', ''keep-alive, Upgrade''), (''upgrade'', ''WebSocket'')], pr_body = ''x''\<rparr>"
  by code_simp

end
