(* ===== verification/Handler.thy ===== *)
theory Handler
  imports Controller Wake_Sequential Forward
begin

text \<open>
  The request path of \<^verbatim>\<open>crates/nscale-proxy\<close>: the activity layer (\<^verbatim>\<open>middleware.rs\<close>) around the
  handler (\<^verbatim>\<open>handler.rs\<close>), which looks the job up, wakes it, forwards the request and retries.

  The handler works on the node it shares with the scale-down controller. The call to the
  coordinator is a field of the state, so that what is proved holds for every way the call may
  go; \<open>node_ensure_running\<close> is the call without interference. The heartbeat task runs beside the
  request and is modelled by the times at which it records activity.
\<close>

subsection \<open>The coordinator's calls on a node\<close>

definition node_ensure_running ::
  "'w wake_env \<Rightarrow> job_registration \<Rightarrow> 'w node \<Rightarrow> endpoint result \<times> 'w node" where
  "node_ensure_running env reg s =
     (case ensure_running env reg (nd_coord s) (nd_world s) of
        (r, c, w) \<Rightarrow> (r, s\<lparr>nd_coord := c, nd_world := w\<rparr>))"

definition node_refresh_endpoint ::
  "'w orchestrator \<Rightarrow> job_registration \<Rightarrow> endpoint \<Rightarrow> 'w node \<Rightarrow> endpoint_refresh result \<times> 'w node" where
  "node_refresh_endpoint orch reg current s =
     (case refresh_endpoint orch reg current (nd_coord s) (nd_world s) of
        (r, c, w) \<Rightarrow> (r, s\<lparr>nd_coord := c, nd_world := w\<rparr>))"

subsection \<open>State\<close>

record 'w app_state =
  as_wake :: "job_registration \<Rightarrow> 'w node \<Rightarrow> endpoint result \<times> 'w node"
  as_orchestrator :: "'w orchestrator"
  as_registry :: "'w job_registry"
  as_client :: "'w forward_client"
  as_store :: "'w activity_store"
  as_missing :: "'w missing_job_tracker"
  as_heartbeat_interval :: duration
  as_auto_enabled :: bool
  as_auto_threshold :: u32
  as_sleep :: "duration \<Rightarrow> 'w \<Rightarrow> 'w"

definition TRANSIENT_RETRY_BACKOFF_MS :: "nat list" where
  "TRANSIENT_RETRY_BACKOFF_MS = [100, 250]"

definition replayable_method :: "string \<Rightarrow> string option" where
  "replayable_method m = (if m = ''GET'' then Some ''GET'' else if m = ''HEAD'' then Some ''HEAD'' else None)"

definition build_retry_request :: "string \<Rightarrow> string \<Rightarrow> proxy_request" where
  "build_retry_request m uri = \<lparr>pr_method = m, pr_path = Some uri, pr_headers = [], pr_body = []\<rparr>"

subsection \<open>Missing jobs\<close>

definition proxy_clear_missing :: "'w app_state \<Rightarrow> job_id \<Rightarrow> 'w node \<Rightarrow> 'w node" where
  "proxy_clear_missing st j s =
     (if \<not> as_auto_enabled st then s else try_world (clear_not_found (as_missing st) j) s)"

definition proxy_cleanup_missing :: "'w app_state \<Rightarrow> job_id \<Rightarrow> 'w node \<Rightarrow> unit result \<times> 'w node" where
  "proxy_cleanup_missing st j s0 =
     (let s1 = node_mark_dormant j s0;
          s2 = try_world (remove_activity (as_store st) j) s1
      in case on_world (deregister (as_registry st) j) s2 of
           (Inl e, s3) \<Rightarrow> (Inl e, s3)
         | (Inr _, s3) \<Rightarrow> (Inr (), try_world (clear_not_found (as_missing st) j) s3))"

definition proxy_handle_missing :: "'w app_state \<Rightarrow> job_id \<Rightarrow> string \<Rightarrow> 'w node \<Rightarrow> response \<times> 'w node" where
  "proxy_handle_missing st j source s =
     (if \<not> as_auto_enabled st then (TextResponse 503 (''service missing in Nomad during '' @ source), s)
      else case on_world (increment_not_found (as_missing st) j) s of
             (Inl _, s1) \<Rightarrow> (TextResponse 503 ''service unavailable while tracking stale registration'', s1)
           | (Inr n, s1) \<Rightarrow>
               if as_auto_threshold st \<le> n then
                 (case proxy_cleanup_missing st j s1 of
                    (Inr _, s2) \<Rightarrow> (TextResponse 404 ''service not registered'', s2)
                  | (Inl e, s2) \<Rightarrow>
                      (TextResponse 503 (''service missing in Nomad and cleanup failed: '' @ error_to_string e), s2))
               else (TextResponse 503 (''service missing in Nomad ('' @ show_nat (unat n) @ ''/'' @
                       show_nat (unat (as_auto_threshold st)) @ '')''), s1))"

subsection \<open>Forwarding and retries\<close>

definition node_forward ::
  "'w app_state \<Rightarrow> endpoint \<Rightarrow> proxy_request \<Rightarrow> 'w node \<Rightarrow> (forward_error + backend_response) \<times> 'w node" where
  "node_forward st e req = on_world (forward_request (as_client st) e req)"

definition node_sleep :: "'w app_state \<Rightarrow> nat \<Rightarrow> 'w node \<Rightarrow> 'w node" where
  "node_sleep st ms s = s\<lparr>nd_world := as_sleep st (from_millis ms) (nd_world s)\<rparr>"

text \<open>The loop over the back-off delays: the answer that ended it, or the last error.\<close>

fun retry_transient ::
  "'w app_state \<Rightarrow> endpoint \<Rightarrow> proxy_request \<Rightarrow> nat list \<Rightarrow> forward_error \<Rightarrow> 'w node \<Rightarrow>
   (forward_error + response) \<times> 'w node" where
  "retry_transient st e req [] err s = (Inl err, s)"
| "retry_transient st e req (delay_ms # rest) err s =
     (case node_forward st e req (node_sleep st delay_ms s) of
        (Inr resp, s1) \<Rightarrow> (Inr (Forwarded resp), s1)
      | (Inl retry_err, s1) \<Rightarrow>
          if is_retryable_transport retry_err then retry_transient st e req rest retry_err s1
          else (Inr (StatusResponse (status_code retry_err)), s1))"

text \<open>A forward whose outcome is the answer.\<close>

definition forward_last :: "'w app_state \<Rightarrow> endpoint \<Rightarrow> proxy_request \<Rightarrow> 'w node \<Rightarrow> response \<times> 'w node" where
  "forward_last st e req s =
     (case node_forward st e req s of
        (Inr resp, s1) \<Rightarrow> (Forwarded resp, s1)
      | (Inl err, s1) \<Rightarrow> (StatusResponse (status_code err), s1))"

text \<open>After the transient retries: refresh the endpoint, and wake again if it is gone.\<close>

definition after_retries ::
  "'w app_state \<Rightarrow> job_registration \<Rightarrow> endpoint \<Rightarrow> proxy_request \<Rightarrow> forward_error \<Rightarrow> 'w node \<Rightarrow> response \<times> 'w node" where
  "after_retries st reg e retry_req err s =
     (case node_refresh_endpoint (as_orchestrator st) reg e s of
        (Inr (Confirmed _), s1) \<Rightarrow> (StatusResponse (status_code err), proxy_clear_missing st (job_id reg) s1)
      | (Inr (Updated e1), s1) \<Rightarrow> forward_last st e1 retry_req (proxy_clear_missing st (job_id reg) s1)
      | (Inr Missing, s1) \<Rightarrow>
          (case as_wake st reg s1 of
             (Inr e2, s2) \<Rightarrow> forward_last st e2 retry_req (proxy_clear_missing st (job_id reg) s2)
           | (Inl (JobNotFound _), s2) \<Rightarrow> proxy_handle_missing st (job_id reg) ''rewake'' s2
           | (Inl x, s2) \<Rightarrow> (TextResponse 503 (''retry wake error: '' @ error_to_string x), s2))
      | (Inl (JobNotFound _), s1) \<Rightarrow> proxy_handle_missing st (job_id reg) ''refresh'' s1
      | (Inl _, s1) \<Rightarrow> (StatusResponse 502, s1))"

definition proxy_forward ::
  "'w app_state \<Rightarrow> job_registration \<Rightarrow> endpoint \<Rightarrow> proxy_request \<Rightarrow> 'w node \<Rightarrow> response \<times> 'w node" where
  "proxy_forward st reg e req s =
     (case node_forward st e req s of
        (Inr resp, s1) \<Rightarrow> (Forwarded resp, s1)
      | (Inl err, s1) \<Rightarrow>
          if \<not> is_retryable_transport err then (StatusResponse (status_code err), s1)
          else (case replayable_method (pr_method req) of
                  None \<Rightarrow> (StatusResponse (status_code err), s1)
                | Some m \<Rightarrow>
                    let retry_req = build_retry_request m (path_and_query req) in
                    case retry_transient st e retry_req TRANSIENT_RETRY_BACKOFF_MS err s1 of
                      (Inr resp, s2) \<Rightarrow> (resp, s2)
                    | (Inl last_err, s2) \<Rightarrow> after_retries st reg e retry_req last_err s2))"

subsection \<open>The handler\<close>

definition node_track :: "job_id \<Rightarrow> 'w node \<Rightarrow> in_flight_guard \<times> 'w node" where
  "node_track j s = (case track (job_str j) (nd_flights s) of (g, f) \<Rightarrow> (g, s\<lparr>nd_flights := f\<rparr>))"

definition node_drop :: "in_flight_guard \<Rightarrow> 'w node \<Rightarrow> 'w node" where
  "node_drop g s = s\<lparr>nd_flights := drop_guard g (nd_flights s)\<rparr>"

text \<open>
  From the tracking of the request on: the answer, and the guard when a WebSocket tunnel took it
  over; otherwise the guard is dropped when the handler returns.
\<close>

definition proxy_tracked ::
  "'w app_state \<Rightarrow> job_registration \<Rightarrow> endpoint \<Rightarrow> proxy_request \<Rightarrow> 'w node \<Rightarrow>
   (response \<times> in_flight_guard option) \<times> 'w node" where
  "proxy_tracked st reg e req s0 =
     (case node_track (job_id reg) s0 of
        (g, s) \<Rightarrow>
          if is_websocket_upgrade req then
            (case on_world (forward_websocket_upgrade (as_client st) e req) s of
               (Inr (resp, True), s1) \<Rightarrow> ((Forwarded resp, Some g), s1)
             | (Inr (resp, False), s1) \<Rightarrow> ((Forwarded resp, None), node_drop g s1)
             | (Inl err, s1) \<Rightarrow> ((StatusResponse (status_code err), None), node_drop g s1))
          else (case proxy_forward st reg e req s of (resp, s1) \<Rightarrow> ((resp, None), node_drop g s1)))"

definition proxy_handler ::
  "'w app_state \<Rightarrow> proxy_request \<Rightarrow> 'w node \<Rightarrow> (response \<times> in_flight_guard option) \<times> 'w node" where
  "proxy_handler st req s =
     (case header_get ''host'' (pr_headers req) of
        None \<Rightarrow> ((TextResponse 400 ''missing Host header'', None), s)
      | Some v \<Rightarrow>
          let host_value = (case to_str v of None \<Rightarrow> [] | Some h \<Rightarrow> h);
              lookup_id = JobId (first_label host_value)
          in case on_world (get (as_registry st) lookup_id) s of
               (Inl _, s1) \<Rightarrow> ((TextResponse 500 ''registry error'', None), s1)
             | (Inr None, s1) \<Rightarrow> ((TextResponse 404 ''service not registered'', None), s1)
             | (Inr (Some reg), s1) \<Rightarrow>
                 (case as_wake st reg s1 of
                    (Inr e, s2) \<Rightarrow> proxy_tracked st reg e req (proxy_clear_missing st (job_id reg) s2)
                  | (Inl (JobNotFound _), s2) \<Rightarrow>
                      (case proxy_handle_missing st (job_id reg) ''wake'' s2 of (resp, s3) \<Rightarrow> ((resp, None), s3))
                  | (Inl x, s2) \<Rightarrow> ((TextResponse 503 (''wake error: '' @ error_to_string x), None), s2)))"

text \<open>The tunnel of an upgraded connection ends.\<close>

definition tunnel_closed :: "in_flight_guard option \<Rightarrow> 'w node \<Rightarrow> 'w node" where
  "tunnel_closed go s = (case go of None \<Rightarrow> s | Some g \<Rightarrow> node_drop g s)"

subsection \<open>The activity layer\<close>

definition request_job :: "proxy_request \<Rightarrow> job_id option" where
  "request_job req =
     map_option JobId (Option.bind (Option.bind (header_get ''host'' (pr_headers req)) to_str) extract_job_id_from_host)"

definition record_for :: "'w activity_store \<Rightarrow> job_id option \<Rightarrow> 'w node \<Rightarrow> 'w node" where
  "record_for store jo s = (case jo of None \<Rightarrow> s | Some j \<Rightarrow> try_world (record_activity store j) s)"

text \<open>The second record is spawned; it is run when the inner service has returned.\<close>

definition activity_service ::
  "'w activity_store \<Rightarrow> (proxy_request \<Rightarrow> 'w node \<Rightarrow> 'r \<times> 'w node) \<Rightarrow> proxy_request \<Rightarrow> 'w node \<Rightarrow> 'r \<times> 'w node" where
  "activity_service store inner req s =
     (case inner req (record_for store (request_job req) s) of
        (resp, s1) \<Rightarrow> (resp, record_for store (request_job req) s1))"

text \<open>The proxy router: the handler under the activity layer.\<close>

definition serve :: "'w app_state \<Rightarrow> proxy_request \<Rightarrow> 'w node \<Rightarrow> (response \<times> in_flight_guard option) \<times> 'w node" where
  "serve st = activity_service (as_store st) (proxy_handler st)"

subsection \<open>The heartbeat\<close>

text \<open>
  The times at which the heartbeat of a request that starts at \<open>start\<close> and ends (its token is
  cancelled) at \<open>stop\<close> records activity: one interval apart, the first immediate tick skipped, before
  the request ends and, for an ordinary request, before the deadline.
\<close>

definition heartbeat_deadline :: "duration \<Rightarrow> bool \<Rightarrow> instant \<Rightarrow> instant option" where
  "heartbeat_deadline interval is_websocket start =
     (if is_websocket then None else Some (start + interval * 6 + from_secs 60))"

definition heartbeat_end :: "duration \<Rightarrow> bool \<Rightarrow> instant \<Rightarrow> instant \<Rightarrow> instant" where
  "heartbeat_end interval is_websocket start stop =
     (case heartbeat_deadline interval is_websocket start of None \<Rightarrow> stop | Some d \<Rightarrow> min d stop)"

definition heartbeats :: "duration \<Rightarrow> bool \<Rightarrow> instant \<Rightarrow> instant \<Rightarrow> instant list" where
  "heartbeats interval is_websocket start stop =
     (let final = heartbeat_end interval is_websocket start stop
      in if interval = 0 then []
         else map (\<lambda>k. start + k * interval) [1 ..< Suc ((final - start - 1) div interval)])"

end
