(* ===== verification/Handler_Properties.thy ===== *)
theory Handler_Properties
  imports Handler Controller_Properties Config
begin

text \<open>
  The properties of the request path: every request gives its in-flight guard back, what is sent to
  the backend and how often, what happens to a job that is missing in Nomad, and how the heartbeat
  keeps a job from looking idle.
\<close>

subsection \<open>The in-flight guard\<close>

lemma node_sleep_frame [simp]:
  "nd_coord (node_sleep st ms s) = nd_coord s" "nd_flights (node_sleep st ms s) = nd_flights s"
  by (simp_all add: node_sleep_def)

lemma node_forward_frame [simp]:
  "nd_coord (snd (node_forward st e req s)) = nd_coord s" "nd_flights (snd (node_forward st e req s)) = nd_flights s"
  by (simp_all add: node_forward_def)

lemma node_forward_same: "node_forward st e req s = (r, t) \<Longrightarrow> nd_coord t = nd_coord s \<and> nd_flights t = nd_flights s"
  using on_world_same by (auto simp: node_forward_def)

lemma node_refresh_flights [simp]: "nd_flights (snd (node_refresh_endpoint orch reg e s)) = nd_flights s"
  by (simp add: node_refresh_endpoint_def split: prod.splits)

lemma proxy_clear_missing_frame [simp]:
  "nd_coord (proxy_clear_missing st j s) = nd_coord s" "nd_flights (proxy_clear_missing st j s) = nd_flights s"
  by (simp_all add: proxy_clear_missing_def)

lemma proxy_cleanup_flights [simp]: "nd_flights (snd (proxy_cleanup_missing st j s)) = nd_flights s"
  using on_world_same by (fastforce simp: proxy_cleanup_missing_def Let_def split: prod.splits sum.splits)

lemma proxy_handle_missing_flights [simp]: "nd_flights (snd (proxy_handle_missing st j src s)) = nd_flights s"
proof -
  have "nd_flights s2 = nd_flights s1" if "proxy_cleanup_missing st j s1 = (r, s2)" for r s1 s2
    using proxy_cleanup_flights [of st j s1] that by simp
  then show ?thesis
    using on_world_same by (fastforce simp: proxy_handle_missing_def split: prod.splits sum.splits)
qed

lemma retry_transient_flights [simp]: "nd_flights (snd (retry_transient st e req ds err s)) = nd_flights s"
proof (induction ds arbitrary: err s)
  case (Cons d ds)
  then show ?case by (auto dest!: node_forward_same split: prod.splits sum.splits)
qed simp

lemma forward_last_flights [simp]: "nd_flights (snd (forward_last st e req s)) = nd_flights s"
  by (auto simp: forward_last_def dest!: node_forward_same split: prod.splits sum.splits)

lemma record_for_flights [simp]: "nd_flights (record_for store jo s) = nd_flights s"
  by (simp add: record_for_def split: option.splits)

text \<open>
  What a request does to the tracker: nothing, or it takes one guard, which it gives back or leaves
  with the tunnel of its connection.
\<close>

definition flights_served :: "tracker \<Rightarrow> in_flight_guard option \<Rightarrow> tracker \<Rightarrow> bool" where
  "flights_served f tunnel f' \<longleftrightarrow> (tunnel = None \<and> f' = f) \<or>
     (\<exists>j g f1. track j f = (g, f1) \<and> (tunnel = None \<and> f' = drop_guard g f1 \<or> tunnel = Some g \<and> f' = f1))"

text \<open>What the handler relies on of the coordinator: the call leaves the tracker alone.\<close>

locale wake_service =
  fixes ensure :: "job_registration \<Rightarrow> 'w node \<Rightarrow> endpoint result \<times> 'w node"
  assumes ensure_flights: "nd_flights (snd (ensure reg s)) = nd_flights s"
begin

lemma after_retries_flights:
  assumes "as_wake st = ensure"
  shows "nd_flights (snd (after_retries st reg e rq err s)) = nd_flights s"
proof -
  obtain r s1 where r: "node_refresh_endpoint (as_orchestrator st) reg e s = (r, s1)" by force
  have f1: "nd_flights s1 = nd_flights s" using node_refresh_flights [of "as_orchestrator st" reg e s] r by simp
  obtain q s2 where q: "as_wake st reg s1 = (q, s2)" by force
  have f2: "nd_flights s2 = nd_flights s1" using ensure_flights [of reg s1] q assms by simp
  show ?thesis
    using r f1 q f2 by (auto simp: after_retries_def split: sum.splits endpoint_refresh.splits nscale_error.splits)
qed

lemma proxy_forward_flights:
  assumes "as_wake st = ensure"
  shows "nd_flights (snd (proxy_forward st reg e req s)) = nd_flights s"
proof -
  obtain r s1 where r: "node_forward st e req s = (r, s1)" by force
  have f1: "nd_flights s1 = nd_flights s" using node_forward_frame(2) [of st e req s] r by simp
  have "nd_flights s2 = nd_flights s1" if "retry_transient st e rq ds err s1 = (q, s2)" for rq ds err q s2
    using retry_transient_flights [of st e rq ds err s1] that by simp
  then show ?thesis
    using r f1 after_retries_flights [OF assms]
    by (fastforce simp: proxy_forward_def Let_def split: sum.splits option.splits prod.splits)
qed

text \<open>The guard taken by a request is back when the handler is done, or its tunnel has it.\<close>

lemma tracked_flights:
  assumes w: "as_wake st = ensure" and h: "proxy_tracked st reg e req s = ((resp, go), t)"
  shows "flights_served (nd_flights s) go (nd_flights t)"
proof -
  obtain g f where g: "track (job_str (job_id reg)) (nd_flights s) = (g, f)" by force
  have "(go = None \<and> nd_flights t = drop_guard g f) \<or> (go = Some g \<and> nd_flights t = f)"
    using h g proxy_forward_flights [OF w, of reg e req "s\<lparr>nd_flights := f\<rparr>"]
    by (auto simp: proxy_tracked_def node_track_def node_drop_def dest!: on_world_same
        split: if_splits prod.splits sum.splits bool.splits)
  then show ?thesis using g by (auto simp: flights_served_def)
qed

lemma handler_flights:
  assumes w: "as_wake st = ensure" and h: "proxy_handler st req s = ((resp, go), t)"
  shows "flights_served (nd_flights s) go (nd_flights t)"
proof (cases "\<exists>reg e s2. proxy_tracked st reg e req s2 = ((resp, go), t) \<and> nd_flights s2 = nd_flights s")
  case True
  then show ?thesis using tracked_flights [OF w] by metis
next
  case False
  have "nd_flights t = nd_flights s \<and> go = None"
  proof (cases "header_get ''host'' (pr_headers req)")
    case None
    then show ?thesis using h by (auto simp: proxy_handler_def)
  next
    case (Some v)
    let ?j = "JobId (first_label (case to_str v of None \<Rightarrow> [] | Some h \<Rightarrow> h))"
    obtain r s1 where r: "on_world (get (as_registry st) ?j) s = (r, s1)" by force
    have f1: "nd_flights s1 = nd_flights s" using on_world_same [OF r] by simp
    show ?thesis
    proof (cases "\<exists>reg. r = Inr (Some reg)")
      case True
      then obtain reg where reg: "r = Inr (Some reg)" by blast
      obtain q s2 where q: "as_wake st reg s1 = (q, s2)" by force
      have f2: "nd_flights s2 = nd_flights s" using ensure_flights [of reg s1] q w f1 by simp
      have "nd_flights s3 = nd_flights s2" if "proxy_handle_missing st j src s2 = (x, s3)" for j src x s3
        using proxy_handle_missing_flights [of st j src s2] that by simp
      then show ?thesis using h Some r reg q f2 False
        by (fastforce simp: proxy_handler_def Let_def split: sum.splits prod.splits nscale_error.splits)
    next
      case False
      then show ?thesis using h Some r f1
        by (auto simp: proxy_handler_def Let_def split: sum.splits option.splits)
    qed
  qed
  then show ?thesis by (auto simp: flights_served_def)
qed

lemma serve_flights:
  assumes "as_wake st = ensure" and "serve st req s = ((resp, go), t)"
  shows "flights_served (nd_flights s) go (nd_flights t)"
proof -
  obtain t1 where h: "proxy_handler st req (record_for (as_store st) (request_job req) s) = ((resp, go), t1)"
    and t: "t = record_for (as_store st) (request_job req) t1"
    using assms(2) by (auto simp: serve_def activity_service_def split: prod.splits)
  from handler_flights [OF assms(1) h] show ?thesis by (simp add: t)
qed

end

interpretation alone: wake_service "node_ensure_running env" for env
  by unfold_locales (simp add: node_ensure_running_def split: prod.splits)


subsection \<open>What is sent to the backend\<close>

text \<open>
  An observer of the requests handed to the backend: sending appends to it, and nothing else the
  handler calls touches it.
\<close>

definition send_log :: "'w app_state \<Rightarrow> ('w \<Rightarrow> outbound list) \<Rightarrow> bool" where
  "send_log st L \<longleftrightarrow>
     (\<forall>rq w. L (snd (fc_send (as_client st) rq w)) = L w @ [rq]) \<and>
     (\<forall>a. keeps L (fc_connect (as_client st) a)) \<and> keeps L (fc_handshake (as_client st)) \<and>
     (\<forall>rq. keeps L (fc_upgrade (as_client st) rq)) \<and>
     (\<forall>d w. L (as_sleep st d w) = L w) \<and>
     (\<forall>reg s. L (nd_world (snd (as_wake st reg s))) = L (nd_world s)) \<and>
     (\<forall>j. keeps L (get_healthy_endpoint (as_orchestrator st) j)) \<and>
     (\<forall>j. keeps L (get (as_registry st) j)) \<and> (\<forall>j. keeps L (deregister (as_registry st) j)) \<and>
     (\<forall>j. keeps L (record_activity (as_store st) j)) \<and> (\<forall>j. keeps L (remove_activity (as_store st) j)) \<and>
     (\<forall>j. keeps L (increment_not_found (as_missing st) j)) \<and> (\<forall>j. keeps L (clear_not_found (as_missing st) j))"

abbreviation nlog :: "('w \<Rightarrow> outbound list) \<Rightarrow> 'w node \<Rightarrow> outbound list" where
  "nlog L s \<equiv> L (nd_world s)"

lemma on_world_log: "keeps L m \<Longrightarrow> on_world m s = (r, t) \<Longrightarrow> nlog L t = nlog L s"
  by (auto simp: on_world_def keeps_def split: prod.splits) (metis snd_conv)

lemma try_world_log: "keeps L m \<Longrightarrow> nlog L (try_world m s) = nlog L s"
  by (simp add: keeps_def)

lemma node_forward_log:
  assumes "send_log st L" and "node_forward st e req s = (r, t)"
  shows "nlog L t = nlog L s @ [outbound_of e req]"
proof -
  have "snd (forward_request (as_client st) e req w) = snd (fc_send (as_client st) (outbound_of e req) w)" for w
    by (simp add: forward_request_def io_bind_def io_map_err_def io_lift_def io_return_def io_fail_def
        split: prod.splits sum.splits)
  then show ?thesis
    using assms by (auto simp: send_log_def node_forward_def on_world_def split: prod.splits) (metis snd_conv)
qed

lemma proxy_clear_missing_log: "send_log st L \<Longrightarrow> nlog L (proxy_clear_missing st j s) = nlog L s"
  by (simp add: send_log_def proxy_clear_missing_def try_world_log del: try_world_frame)

lemma proxy_cleanup_log:
  assumes "send_log st L" and "proxy_cleanup_missing st j s = (r, t)"
  shows "nlog L t = nlog L s"
proof -
  let ?s2 = "try_world (remove_activity (as_store st) j) (node_mark_dormant j s)"
  obtain q s3 where q: "on_world (deregister (as_registry st) j) ?s2 = (q, s3)" by force
  have "nlog L s3 = nlog L ?s2" using assms(1) on_world_log [OF _ q, of L] by (simp add: send_log_def)
  moreover have "nlog L ?s2 = nlog L s"
    using assms(1) try_world_log [of L "remove_activity (as_store st) j" "node_mark_dormant j s"]
    by (simp add: send_log_def del: try_world_frame)
  moreover have "nlog L (try_world (clear_not_found (as_missing st) j) s3) = nlog L s3"
    using assms(1) by (simp add: send_log_def try_world_log del: try_world_frame)
  ultimately show ?thesis using assms(2) q by (auto simp: proxy_cleanup_missing_def Let_def split: sum.splits)
qed

lemma proxy_handle_missing_log:
  assumes "send_log st L" and "proxy_handle_missing st j src s = (r, t)"
  shows "nlog L t = nlog L s"
proof -
  obtain q s1 where q: "on_world (increment_not_found (as_missing st) j) s = (q, s1)" by force
  have "nlog L s1 = nlog L s" using assms(1) on_world_log [OF _ q, of L] by (simp add: send_log_def)
  then show ?thesis
    using assms q proxy_cleanup_log [OF assms(1)]
    by (fastforce simp: proxy_handle_missing_def split: sum.splits if_splits prod.splits)
qed

lemma retry_transient_log:
  assumes "send_log st L"
  shows "retry_transient st e req ds err s = (r, t) \<Longrightarrow>
    \<exists>k \<le> length ds. nlog L t = nlog L s @ replicate k (outbound_of e req)"
proof (induction ds arbitrary: err s)
  case (Cons d ds)
  obtain q s1 where q: "node_forward st e req (node_sleep st d s) = (q, s1)" by force
  have "nlog L (node_sleep st d s) = nlog L s" using assms by (simp add: send_log_def node_sleep_def)
  then have l: "nlog L s1 = nlog L s @ [outbound_of e req]" using node_forward_log [OF assms q] by simp
  then have stop: ?case if "t = s1" using that by (intro exI [of _ 1]) simp
  show ?case
  proof (cases "\<exists>x. q = Inl x \<and> is_retryable_transport x")
    case True
    then obtain x where "retry_transient st e req ds x s1 = (r, t)" using Cons.prems q by auto
    from Cons.IH [OF this] obtain k where "k \<le> length ds" "nlog L t = nlog L s1 @ replicate k (outbound_of e req)" by blast
    then show ?thesis using l by (intro exI [of _ "Suc k"]) simp
  next
    case False
    then show ?thesis using Cons.prems q stop by (auto split: sum.splits if_splits)
  qed
qed simp

lemma forward_last_log:
  assumes "send_log st L" and "forward_last st e req s = (r, t)"
  shows "nlog L t = nlog L s @ [outbound_of e req]"
  using assms node_forward_log [OF assms(1)] by (auto simp: forward_last_def split: prod.splits sum.splits)

lemma node_refresh_log:
  assumes "send_log st L" and "node_refresh_endpoint (as_orchestrator st) reg e s = (r, t)"
  shows "nlog L t = nlog L s"
proof -
  have "L (snd (get_healthy_endpoint (as_orchestrator st) j w)) = L w" for j w
    using assms(1) by (simp add: send_log_def keeps_def)
  then show ?thesis
    using assms(2)
    by (auto simp: node_refresh_endpoint_def refresh_endpoint_def split: prod.splits sum.splits) (metis snd_conv)+
qed

lemma after_retries_log:
  assumes "send_log st L" and "after_retries st reg e rq err s = (r, t)"
  shows "\<exists>es. length es \<le> 1 \<and> nlog L t = nlog L s @ map (\<lambda>e. outbound_of e rq) es"
proof -
  obtain q s1 where q: "node_refresh_endpoint (as_orchestrator st) reg e s = (q, s1)" by force
  have l1: "nlog L s1 = nlog L s" by (rule node_refresh_log [OF assms(1) q])
  obtain v s2 where v: "as_wake st reg s1 = (v, s2)" by force
  have "L (nd_world (snd (as_wake st reg s1))) = nlog L s1" using assms(1) by (simp add: send_log_def)
  then have l2: "nlog L s2 = nlog L s" using v l1 by simp
  have "nlog L t = nlog L s \<or> (\<exists>e2. nlog L t = nlog L s @ [outbound_of e2 rq])"
    using assms(2) q v l1 l2 forward_last_log [OF assms(1)] proxy_handle_missing_log [OF assms(1)]
      proxy_clear_missing_log [OF assms(1)]
    by (fastforce simp: after_retries_def split: sum.splits endpoint_refresh.splits nscale_error.splits)
  then show ?thesis
    by (elim disjE exE) (rule exI [of _ "[]"], simp, rule exI [of _ "[_]"], simp)
qed

definition retry_of :: "proxy_request \<Rightarrow> proxy_request" where
  "retry_of req = build_retry_request (pr_method req) (path_and_query req)"

lemma proxy_forward_log:
  assumes "send_log st L" and "proxy_forward st reg e req s = (r, t)"
  shows "\<exists>es. nlog L t = nlog L s @ outbound_of e req # map (\<lambda>e. outbound_of e (retry_of req)) es \<and>
    length es \<le> 3 \<and> (es \<noteq> [] \<longrightarrow> pr_method req \<in> {''GET'', ''HEAD''})"
proof -
  obtain q s1 where q: "node_forward st e req s = (q, s1)" by force
  have l1: "nlog L s1 = nlog L s @ [outbound_of e req]" by (rule node_forward_log [OF assms(1) q])
  show ?thesis
  proof (cases "\<exists>err m. q = Inl err \<and> is_retryable_transport err \<and> replayable_method (pr_method req) = Some m")
    case False
    then have "t = s1" using assms(2) q by (auto simp: proxy_forward_def split: sum.splits if_splits option.splits)
    then show ?thesis using l1 by (intro exI [of _ "[]"]) simp
  next
    case True
    then obtain err m where m: "q = Inl err" "is_retryable_transport err" "replayable_method (pr_method req) = Some m" by blast
    have rm: "m = pr_method req" "pr_method req \<in> {''GET'', ''HEAD''}"
      using m(3) by (auto simp: replayable_method_def split: if_splits)
    obtain v s2 where v: "retry_transient st e (retry_of req) TRANSIENT_RETRY_BACKOFF_MS err s1 = (v, s2)" by force
    obtain k where k: "k \<le> 2" "nlog L s2 = nlog L s1 @ replicate k (outbound_of e (retry_of req))"
      using retry_transient_log [OF assms(1) v] by (auto simp: TRANSIENT_RETRY_BACKOFF_MS_def)
    have "t = s2 \<or> (\<exists>x. after_retries st reg e (retry_of req) x s2 = (r, t))"
      using assms(2) q m v rm by (auto simp: proxy_forward_def retry_of_def Let_def split: sum.splits)
    then obtain es where "length es \<le> 1" "nlog L t = nlog L s2 @ map (\<lambda>e. outbound_of e (retry_of req)) es"
      using after_retries_log [OF assms(1)] by (metis append_Nil2 le0 list.simps(8) list.size(3))
    then show ?thesis using l1 k rm by (intro exI [of _ "replicate k e @ es"]) (auto simp: map_replicate)
  qed
qed

lemma record_for_log: "send_log st L \<Longrightarrow> nlog L (record_for (as_store st) jo s) = nlog L s"
  by (auto simp: send_log_def record_for_def try_world_log simp del: try_world_frame split: option.splits)

lemma proxy_tracked_log:
  assumes "send_log st L" and "proxy_tracked st reg e req s = (r, t)"
  shows "nlog L t = nlog L s \<or> (\<exists>x u s1. nlog L s1 = nlog L s \<and> nlog L u = nlog L t \<and> proxy_forward st reg e req s1 = (x, u))"
proof -
  obtain g f where "track (job_str (job_id reg)) (nd_flights s) = (g, f)" by force
  then obtain s1 where g: "node_track (job_id reg) s = (g, s1)" "nlog L s1 = nlog L s"
    by (simp add: node_track_def)
  have "keeps L (forward_websocket_upgrade (as_client st) e req)"
    using assms(1) unfolding forward_websocket_upgrade_def send_log_def by (auto intro!: keeps_rules)
  from on_world_log [OF this] have "is_websocket_upgrade req \<Longrightarrow> nlog L t = nlog L s"
    using assms(2) g by (auto simp: proxy_tracked_def node_drop_def split: prod.splits sum.splits bool.splits)
  moreover have "\<not> is_websocket_upgrade req \<Longrightarrow> \<exists>x u. nlog L u = nlog L t \<and> proxy_forward st reg e req s1 = (x, u)"
    using assms(2) g by (auto simp: proxy_tracked_def node_drop_def split: prod.splits)
  ultimately show ?thesis using g(2) by blast
qed

lemma proxy_handler_log:
  assumes "send_log st L" and "proxy_handler st req s = (r, t)"
  shows "nlog L t = nlog L s \<or>
    (\<exists>reg e x u s1. nlog L s1 = nlog L s \<and> nlog L u = nlog L t \<and> proxy_forward st reg e req s1 = (x, u))"
proof (cases "header_get ''host'' (pr_headers req)")
  case None
  then show ?thesis using assms(2) by (auto simp: proxy_handler_def)
next
  case (Some v)
  let ?j = "JobId (first_label (case to_str v of None \<Rightarrow> [] | Some h \<Rightarrow> h))"
  obtain q s1 where q: "on_world (get (as_registry st) ?j) s = (q, s1)" by force
  have l1: "nlog L s1 = nlog L s" using assms(1) on_world_log [OF _ q, of L] by (simp add: send_log_def)
  show ?thesis
  proof (cases "\<exists>reg. q = Inr (Some reg)")
    case False
    then show ?thesis using assms(2) Some q l1 by (auto simp: proxy_handler_def Let_def split: sum.splits option.splits)
  next
    case True
    then obtain reg where reg: "q = Inr (Some reg)" by blast
    obtain z s2 where z: "as_wake st reg s1 = (z, s2)" by force
    have "L (nd_world (snd (as_wake st reg s1))) = nlog L s1" using assms(1) by (simp add: send_log_def)
    then have l2: "nlog L s2 = nlog L s" using z l1 by simp
    have "(\<exists>e. proxy_tracked st reg e req (proxy_clear_missing st (job_id reg) s2) = (r, t)) \<or> nlog L t = nlog L s"
      using assms(2) Some q reg z l2 proxy_handle_missing_log [OF assms(1)]
      by (fastforce simp: proxy_handler_def Let_def split: sum.splits prod.splits nscale_error.splits)
    then show ?thesis
      using proxy_tracked_log [OF assms(1)] proxy_clear_missing_log [OF assms(1)] l2 by metis
  qed
qed


subsection \<open>A simulated proxy\<close>

text \<open>
  The in-memory servers, the log of what was sent, and a backend that fails to connect a given
  number of times. The endpoint of the job is cached.
\<close>

record proxy_sim = mem_node +
  sent :: "outbound list"
  px_fail :: nat

definition px_client :: "proxy_sim forward_client" where
  "px_client =
     \<lparr>fc_send = (\<lambda>rq w. let w1 = w\<lparr>sent := sent w @ [rq]\<rparr> in
        if px_fail w = 0 then (Inr \<lparr>br_status = 200, br_headers = [], br_body = ''ok''\<rparr>, w1)
        else (Inl \<lparr>te_connect = True, te_timeout = False, te_status = None\<rparr>, w1\<lparr>px_fail := px_fail w - 1\<rparr>)),
      fc_build = Inr, fc_connect = (\<lambda>a. io_return ()), fc_handshake = io_return (),
      fc_upgrade = (\<lambda>rq. io_return \<lparr>br_status = 101, br_headers = [], br_body = []\<rparr>)\<rparr>"

definition px_orchestrator :: "proxy_sim orchestrator" where
  "px_orchestrator =
     \<lparr>scale_up = (\<lambda>j g n. io_return ()), scale_down = (\<lambda>j g. io_return ()), get_job_count = (\<lambda>j g. io_return 1),
      get_healthy_endpoint = (\<lambda>j. io_return None)\<rparr>"

definition px_env :: "proxy_sim wake_env" where
  "px_env =
     \<lparr>we_orchestrator = px_orchestrator,
      we_discovery = \<lparr>register_fallback = (\<lambda>s e. io_return ()), deregister_fallback = (\<lambda>s. io_return ()),
        wait_for_healthy = (\<lambda>s d. io_return \<lparr>host = ''10.0.0.9'', port = 80\<rparr>)\<rparr>,
      we_now = m_now, we_sleep = (\<lambda>d w. w\<lparr>m_now := m_now w + d\<rparr>)\<rparr>"

definition px_state :: "proxy_sim app_state" where
  "px_state =
     \<lparr>as_wake = node_ensure_running px_env, as_orchestrator = px_orchestrator,
      as_registry = registry_new mem_redis demo_codec, as_client = px_client,
      as_store = redis_activity_impl (mem_store ''n1''), as_missing = redis_missing_impl mem_redis,
      as_heartbeat_interval = from_secs 100, as_auto_enabled = True, as_auto_threshold = 3,
      as_sleep = (\<lambda>d w. w\<lparr>m_now := m_now w + d\<rparr>)\<rparr>"

definition px_world :: "nat \<Rightarrow> proxy_sim" where
  "px_world n = \<lparr>m_zset = [], m_hash = [((REGISTRY_BY_SERVICE_KEY, ''web''), shop_code), ((REGISTRY_BY_JOB_KEY, ''shop''), shop_code)],
     m_ctr = [], m_lock = [], m_now = 0, m_kv = [], sent = [], px_fail = n\<rparr>"

definition px_node :: "nat \<Rightarrow> proxy_sim node" where
  "px_node n = \<lparr>nd_coord = insert_endpoint ''shop'' \<lparr>host = ''10.0.0.7'', port = 80\<rparr> (coordinator_new 1 60),
     nd_flights = tracker_new, nd_deferred = Map.empty, nd_counts = Map.empty, nd_world = px_world n\<rparr>"

definition px_get :: proxy_request where
  "px_get = \<lparr>pr_method = ''GET'', pr_path = Some ''/cart'',
     pr_headers = [(''host'', ''web.example.com''), (''authorization'', ''Bearer t'')], pr_body = []\<rparr>"

lemma mem_redis_sent: "redis_keeps mem_redis sent"
  by (simp add: redis_keeps_def keeps_def mem_redis_def)

lemma px_store_keeps:
  "keeps sent (record_activity (as_store px_state) j)" "keeps sent (remove_activity (as_store px_state) j)"
  "keeps sent (increment_not_found (as_missing px_state) j)" "keeps sent (clear_not_found (as_missing px_state) j)"
  by (simp_all add: px_state_def redis_activity_impl_def redis_missing_impl_def redis_record_activity_def
      redis_remove_activity_def redis_increment_not_found_def redis_clear_not_found_def mem_store_def mem_redis_def
      mem_eval_def keeps_def io_bind_def io_map_err_def io_return_def io_fail_def split: option.splits)

lemma px_registry_keeps: "keeps sent (get (as_registry px_state) j)" "keeps sent (deregister (as_registry px_state) j)"
proof -
  have r: "redis_keeps (reg_client (as_registry px_state)) sent" "durable (as_registry px_state) = None"
    by (simp_all add: px_state_def registry_new_def mem_redis_sent)
  then show "keeps sent (get (as_registry px_state) j)" "keeps sent (deregister (as_registry px_state) j)"
    unfolding get_def deregister_def get_durable_def by (auto intro!: keeps_rules registry_keeps)
qed

lemma px_send_log: "send_log px_state sent"
proof -
  have "sent (nd_world (snd (as_wake px_state reg s))) = sent (nd_world s)" for reg s
    by (simp add: px_state_def node_ensure_running_def ensure_running_def wake_and_wait_def run_wake_task_def px_env_def
        px_orchestrator_def io_bind_def io_return_def io_fail_def Let_def split: prod.splits option.splits)
  moreover have "keeps sent (get_healthy_endpoint (as_orchestrator px_state) j)" for j
    by (simp add: px_state_def px_orchestrator_def keeps_return)
  moreover have "keeps sent (fc_connect (as_client px_state) a)" "keeps sent (fc_handshake (as_client px_state))"
    "keeps sent (fc_upgrade (as_client px_state) rq)"
    "sent (snd (fc_send (as_client px_state) rq w)) = sent w @ [rq]" "sent (as_sleep px_state d w) = sent w" for a rq w d
    by (simp_all add: px_state_def px_client_def keeps_return Let_def)
  ultimately show ?thesis by (simp add: send_log_def px_store_keeps px_registry_keeps)
qed

text \<open>The steps of a request in the simulated proxy.\<close>

lemma px_job: "request_job px_get = Some (JobId ''web'')" "header_get ''host'' (pr_headers px_get) = Some ''web.example.com''"
  "to_str ''web.example.com'' = Some ''web.example.com''" "first_label ''web.example.com'' = ''web''"
  "\<not> is_websocket_upgrade px_get"
  by code_simp+

lemma px_record: "\<exists>z. record_for (as_store px_state) (Some j) s = s\<lparr>nd_world := (nd_world s)\<lparr>m_zset := z\<rparr>\<rparr>"
  by (simp add: record_for_def try_world_def on_world_def px_state_def redis_activity_impl_def redis_record_activity_def
      mem_store_def mem_redis_def io_bind_def io_map_err_def io_return_def) blast

lemma px_lookup: "get (as_registry px_state) (JobId ''web'') ((px_world n)\<lparr>m_zset := z\<rparr>) = (Inr (Some shop), (px_world n)\<lparr>m_zset := z\<rparr>)"
  by (simp add: px_state_def registry_new_def get_def get_from_hash_def from_str_def mem_redis_def px_world_def shop_code_def
      shop_def demo_codec_def demo_dec_def io_bind_def io_return_def io_map_err_def io_lift_def)

lemma px_warm:
  "nd_coord s = nd_coord (px_node n) \<Longrightarrow> as_wake px_state shop s = (Inr \<lparr>host = ''10.0.0.7'', port = 80\<rparr>, s)"
  by (simp add: px_state_def node_ensure_running_def ensure_running_def px_node_def insert_endpoint_def reg_key_def shop_def)

lemma px_clear: "\<exists>c. proxy_clear_missing px_state j s = s\<lparr>nd_world := (nd_world s)\<lparr>m_ctr := c\<rparr>\<rparr>"
  by (simp add: proxy_clear_missing_def try_world_def on_world_def px_state_def redis_missing_impl_def redis_clear_not_found_def
      mem_redis_def mem_eval_def io_bind_def io_map_err_def io_return_def) blast

lemma px_forward_one_failure:
  assumes "px_fail (nd_world s) = 1" and "sent (nd_world s) = []"
  shows "\<exists>t. proxy_forward px_state shop e px_get s =
      (Forwarded \<lparr>br_status = 200, br_headers = [], br_body = ''ok''\<rparr>, t) \<and>
     sent (nd_world t) = [outbound_of e px_get, outbound_of e (build_retry_request ''GET'' ''/cart'')]"
proof -
  have m: "pr_method px_get = ''GET''" "path_and_query px_get = ''/cart''" by (simp_all add: px_get_def path_and_query_def)
  show ?thesis using assms
    by (simp add: proxy_forward_def node_forward_def on_world_def forward_request_def px_state_def px_client_def
        io_bind_def io_map_err_def io_lift_def io_return_def Let_def m replayable_method_def
        TRANSIENT_RETRY_BACKOFF_MS_def node_sleep_def status_from_u16_def)
qed

lemma px_served:
  "\<exists>t. serve px_state px_get (px_node 1) = ((Forwarded \<lparr>br_status = 200, br_headers = [], br_body = ''ok''\<rparr>, None), t) \<and>
     sent (nd_world t) = [outbound_of \<lparr>host = ''10.0.0.7'', port = 80\<rparr> px_get,
       outbound_of \<lparr>host = ''10.0.0.7'', port = 80\<rparr> (build_retry_request ''GET'' ''/cart'')]"
proof -
  let ?e = "\<lparr>host = ''10.0.0.7'', port = 80\<rparr>"
  obtain z where z: "record_for (as_store px_state) (request_job px_get) (px_node 1) =
      (px_node 1)\<lparr>nd_world := (px_world 1)\<lparr>m_zset := z\<rparr>\<rparr>"
    using px_record [of "JobId ''web''" "px_node 1"] by (auto simp: px_job px_node_def)
  define s1 where "s1 = (px_node 1)\<lparr>nd_world := (px_world 1)\<lparr>m_zset := z\<rparr>\<rparr>"
  obtain c where c: "proxy_clear_missing px_state (job_id shop) s1 = s1\<lparr>nd_world := (nd_world s1)\<lparr>m_ctr := c\<rparr>\<rparr>"
    using px_clear [of "job_id shop" s1] by auto
  define s2 where "s2 = s1\<lparr>nd_world := (nd_world s1)\<lparr>m_ctr := c\<rparr>\<rparr>"
  obtain g f where tr: "track (job_str (job_id shop)) (nd_flights s1) = (g, f)" by force
  have "px_fail (nd_world (s2\<lparr>nd_flights := f\<rparr>)) = 1" "sent (nd_world (s2\<lparr>nd_flights := f\<rparr>)) = []"
    by (simp_all add: s2_def s1_def px_world_def)
  from px_forward_one_failure [OF this] obtain t where
    t: "proxy_forward px_state shop ?e px_get (s2\<lparr>nd_flights := f\<rparr>) =
      (Forwarded \<lparr>br_status = 200, br_headers = [], br_body = ''ok''\<rparr>, t)"
      "sent (nd_world t) = [outbound_of ?e px_get, outbound_of ?e (build_retry_request ''GET'' ''/cart'')]"
    by blast
  have g1: "on_world (get (as_registry px_state) (JobId ''web'')) s1 = (Inr (Some shop), s1)"
    by (simp add: on_world_def px_lookup s1_def)
  have w1: "as_wake px_state shop s1 = (Inr ?e, s1)" by (rule px_warm [of _ 1]) (simp add: s1_def)
  have h: "proxy_handler px_state px_get s1 = ((Forwarded \<lparr>br_status = 200, br_headers = [], br_body = ''ok''\<rparr>, None), node_drop g t)"
    using t(1) tr by (simp add: proxy_handler_def px_job Let_def g1 w1 c s2_def [symmetric] proxy_tracked_def node_track_def)
  obtain z2 where "record_for (as_store px_state) (request_job px_get) (node_drop g t) =
      (node_drop g t)\<lparr>nd_world := (nd_world (node_drop g t))\<lparr>m_zset := z2\<rparr>\<rparr>"
    using px_record [of "JobId ''web''" "node_drop g t"] by (auto simp: px_job)
  moreover have "record_for (as_store px_state) (request_job px_get) (px_node 1) = s1" using z by (simp only: s1_def)
  ultimately show ?thesis using h t(2) by (simp add: serve_def activity_service_def node_drop_def)
qed



text \<open>
  A retried request loses its headers. A \<^verbatim>\<open>GET\<close> request with an \<^verbatim>\<open>Authorization\<close> header whose first
  connection attempt fails is answered by the backend's reply to a second attempt that carries no
  header at all.
\<close>

theorem retry_loses_headers:
  "header_get_all ''authorization'' (pr_headers px_get) = [''Bearer t''] \<and>
   (\<exists>t. serve px_state px_get (px_node 1) =
       ((Forwarded \<lparr>br_status = 200, br_headers = [], br_body = ''ok''\<rparr>, None), t) \<and>
     map out_headers (sent (nd_world t)) = [[(''authorization'', ''Bearer t'')], []])"
  using px_served
  by (auto simp: outbound_of_def build_retry_request_def px_get_def HOP_BY_HOP_def header_get_all_def)

subsection \<open>Missing jobs\<close>

text \<open>
  The proxy deregisters a missing job at the threshold. With the Redis tracker and registry, a
  missing job is answered with 503 and nothing changes but the count of consecutive misses while
  that count stays below the threshold; when it reaches the threshold and Redis carries the removal
  out, the answer is 404, every cached entry that leads to the job is gone and the coordinator has
  no endpoint for it.
\<close>

theorem proxy_auto_deregister:
  assumes "as_auto_enabled st" and "as_missing st = redis_missing_impl R" and "counter_laws R V"
    and "durable (as_registry st) = None" and "hash_laws (reg_client (as_registry st)) V"
    and "redis_increment_not_found R j (nd_world s) = (Inr n, w1)"
    and "proxy_cleanup_missing st j (s\<lparr>nd_world := w1\<rparr>) = (Inr (), s1)"
  shows "uint n = ctr (V (nd_world s)) (missing_key j) + 1 \<and>
    (case proxy_handle_missing st j source s of (resp, t) \<Rightarrow>
       if n < as_auto_threshold st then response_status resp = 503 \<and> t = s\<lparr>nd_world := w1\<rparr>
       else response_status resp = 404 \<and> t = s1 \<and>
            forgotten j (reg_codec (as_registry st)) (V (nd_world s1)) (nd_coord s1))"
proof -
  let ?s2 = "try_world (remove_activity (as_store st) j) (node_mark_dormant j (s\<lparr>nd_world := w1\<rparr>))"
  obtain u s3 where d: "on_world (deregister (as_registry st) j) ?s2 = (Inr u, s3)"
    and s1: "s1 = try_world (redis_clear_not_found R j) s3"
    using assms(2,7)
    by (auto simp: proxy_cleanup_missing_def redis_missing_impl_def Let_def split: prod.splits sum.splits)
  have f: "forgotten j (reg_codec (as_registry st)) (V (nd_world s1)) (nd_coord s1)"
    unfolding s1 using cleanup_forgets [OF assms(3-5) d, of "nd_coord s"] by simp
  have inc: "on_world (increment_not_found (as_missing st) j) s = (Inr n, s\<lparr>nd_world := w1\<rparr>)"
    using assms(2,6) by (simp add: on_world_def redis_missing_impl_def)
  have "uint n = ctr (V (nd_world s)) (missing_key j) + 1"
    using mis.incr_ok [OF assms(3,6)] by (simp add: missing_view_def)
  then show ?thesis using assms(1,7) inc f by (auto simp: proxy_handle_missing_def not_less)
qed

lemma px_deregister:
  assumes "m_hash w = m_hash (px_world 0)"
  shows "\<exists>w1. deregister (as_registry px_state) (JobId ''shop'') w = (Inr (), w1)"
  using assms
  by (simp add: px_state_def registry_new_def deregister_def get_def get_from_hash_def remove_cached_registration_def
      evict_service_entry_def px_world_def shop_code_def from_str_def demo_codec_def demo_dec_def
      mem_redis_def subkeys_def io_bind_def io_map_err_def io_return_def io_lift_def)

theorem proxy_auto_deregister_witness:
  "\<exists>w1 s1. redis_increment_not_found mem_redis (JobId ''shop'') ((px_world 0)\<lparr>m_ctr := [(missing_key (JobId ''shop''), 2)]\<rparr>) = (Inr 3, w1) \<and>
     proxy_cleanup_missing px_state (JobId ''shop'') ((px_node 0)\<lparr>nd_world := w1\<rparr>) = (Inr (), s1) \<and>
     response_status (fst (proxy_handle_missing px_state (JobId ''shop'') ''wake''
       ((px_node 0)\<lparr>nd_world := (px_world 0)\<lparr>m_ctr := [(missing_key (JobId ''shop''), 2)]\<rparr>\<rparr>))) = 404"
proof -
  let ?w = "(px_world 0)\<lparr>m_ctr := [(missing_key (JobId ''shop''), 2)]\<rparr>"
  let ?w1 = "(px_world 0)\<lparr>m_ctr := [(missing_key (JobId ''shop''), 3), (missing_key (JobId ''shop''), 2)]\<rparr>"
  let ?s = "(px_node 0)\<lparr>nd_world := ?w\<rparr>"
  have a: "as_auto_enabled px_state" "as_missing px_state = redis_missing_impl mem_redis"
    "counter_laws (mem_redis :: proxy_sim redis) mem_view" "durable (as_registry px_state) = None"
    "hash_laws (reg_client (as_registry px_state)) mem_view"
    by (simp_all add: px_state_def registry_new_def mem_counter_laws mem_hash_laws)
  have i: "redis_increment_not_found mem_redis (JobId ''shop'') (nd_world ?s) = (Inr 3, ?w1)"
    by (simp add: px_world_def redis_increment_not_found_def mem_redis_def mem_eval_def counter_of_def io_bind_def
        io_map_err_def io_return_def u32_try_from_def)
  obtain s1 where c: "proxy_cleanup_missing px_state (JobId ''shop'') (?s\<lparr>nd_world := ?w1\<rparr>) = (Inr (), s1)"
  proof -
    let ?t = "try_world (remove_activity (as_store px_state) (JobId ''shop'')) (node_mark_dormant (JobId ''shop'') (?s\<lparr>nd_world := ?w1\<rparr>))"
    have "m_hash (nd_world ?t) = m_hash (px_world 0)"
      by (simp add: px_state_def redis_activity_impl_def redis_remove_activity_def mem_store_def mem_redis_def io_bind_def
          io_map_err_def io_return_def)
    then obtain s3 where "on_world (deregister (as_registry px_state) (JobId ''shop'')) ?t = (Inr (), s3)"
      using px_deregister [of "nd_world ?t"] by (force simp: on_world_def)
    then show ?thesis using that by (simp add: proxy_cleanup_missing_def)
  qed
  have "as_auto_threshold px_state = 3" by (simp add: px_state_def)
  with proxy_auto_deregister [OF a i c, of "''wake''"] i c show ?thesis by (auto split: prod.splits)
qed

subsection \<open>The heartbeat\<close>

lemma heartbeat_interval_pos:
  assumes "idle_timeout_secs c \<noteq> 0"
  shows "0 < heartbeat_interval_of c \<and> 3 * heartbeat_interval_of c \<le> idle_timeout c"
proof -
  have "1 \<le> unat (idle_timeout_secs c)" using assms by (simp add: Suc_le_eq unat_gt_0)
  then have "1000000000 \<le> idle_timeout c" by (simp add: idle_timeout_def from_secs_def nanos_per_sec_def)
  then show ?thesis by (simp add: heartbeat_interval_of_def)
qed

lemma heartbeat_recent:
  assumes "0 < i" and "start \<le> t" and "t < heartbeat_end i ws start stop"
  shows "\<exists>b \<in> insert start (set (heartbeats i ws start stop)). b \<le> t \<and> t < b + i"
proof -
  let ?k = "(t - start) div i"
  have "t - start \<le> heartbeat_end i ws start stop - start - 1" using assms(2,3) by linarith
  then have k: "?k \<le> (heartbeat_end i ws start stop - start - 1) div i" by (rule div_le_mono)
  have "?k * i \<le> t - start" by simp
  moreover have "t - start < i + ?k * i" using assms(1) by (simp add: dividend_less_div_times)
  ultimately have b: "start + ?k * i \<le> t" "t < start + ?k * i + i" using assms(2) by linarith+
  have "start + ?k * i \<in> insert start (set (heartbeats i ws start stop))"
  proof (cases "?k = 0")
    case False
    then have "?k \<in> set [1 ..< Suc ((heartbeat_end i ws start stop - start - 1) div i)]" using k by (auto simp: le_less)
    then show ?thesis using assms(1) by (auto simp: heartbeats_def Let_def)
  qed simp
  with b show ?thesis by blast
qed

lemma heartbeat_count:
  assumes "0 < i"
  shows "length (heartbeats i False start stop) \<le> 6 + from_secs 60 div i"
proof -
  have "heartbeat_end i False start stop - start - 1 \<le> i * 6 + from_secs 60"
    by (simp add: heartbeat_end_def heartbeat_deadline_def)
  then have "(heartbeat_end i False start stop - start - 1) div i \<le> (i * 6 + from_secs 60) div i" by (rule div_le_mono)
  also have "\<dots> = 6 + from_secs 60 div i" using assms by simp
  finally show ?thesis using assms by (simp add: heartbeats_def Let_def)
qed



end
