(* ===== verification/Admin.thy ===== *)
theory Admin
  imports Controller Nomad_Client Job_Mutator "HOL-Library.Char_ord" "HOL-Library.List_Lexorder"
begin

text \<open>
  The admin API of \<^verbatim>\<open>src/main.rs\<close>: job submission, purge, registration and bulk registration, and
  the two probes, over the node they share with the proxy and the controller. An answer is its
  status with a text, a JSON value, or the submission report; the order of the members of a JSON
  object does not matter.
\<close>

record 'w admin_state =
  ad_registry :: "'w job_registry"
  ad_store :: "'w activity_store"
  ad_nomad :: "'w nomad_client"
  ad_missing :: "'w missing_job_tracker"
  ad_file_provider :: string

record submit_job_request =
  hcl :: string
  variables :: "string option"

record registration_failure =
  rf_service_name :: string
  rf_error :: string

record submit_job_report =
  sj_job_id :: string
  sj_eval_id :: string
  sj_modify_index :: u64
  sj_warnings :: "string option"
  managed_services :: "job_registration list"
  registration_failures :: "registration_failure list"

datatype admin_response =
    AdminText nat string
  | AdminJson nat json
  | AdminSubmitted nat submit_job_report

fun admin_status :: "admin_response \<Rightarrow> nat" where
  "admin_status (AdminText n _) = n"
| "admin_status (AdminJson n _) = n"
| "admin_status (AdminSubmitted n _) = n"

definition jnum :: "nat \<Rightarrow> json" where
  "jnum n = JNumber (show_nat n)"

definition healthz :: string where
  "healthz = ''ok''"

definition admin_error_status :: "nscale_error \<Rightarrow> nat" where
  "admin_error_status e = (case e of Http _ \<Rightarrow> 502 | _ \<Rightarrow> 400)"

definition error_json :: "nscale_error \<Rightarrow> json" where
  "error_json e = JObject [(''error'', JString (error_to_string e))]"

definition readyz :: "'w admin_state \<Rightarrow> 'w node \<Rightarrow> admin_response \<times> 'w node" where
  "readyz st s =
     (case on_world (list_all_registrations (ad_registry st)) s of
        (Inr _, s1) \<Rightarrow> (AdminText 200 ''ready'', s1)
      | (Inl e, s1) \<Rightarrow> (AdminText 503 (''not ready: '' @ error_to_string e), s1))"

subsection \<open>Purge\<close>

text \<open>A call whose error becomes a warning.\<close>

definition warn_world :: "string \<Rightarrow> ('w, unit) call \<Rightarrow> 'w node \<Rightarrow> string list \<times> 'w node" where
  "warn_world what m s =
     (case on_world m s of (Inr _, s1) \<Rightarrow> ([], s1) | (Inl e, s1) \<Rightarrow> ([what @ error_to_string e], s1))"

definition cleanup_admin_job_state ::
  "'w admin_state \<Rightarrow> job_id \<Rightarrow> 'w node \<Rightarrow> string list result \<times> 'w node" where
  "cleanup_admin_job_state st j s0 =
     (case warn_world ''failed to remove activity: '' (remove_activity (ad_store st) j) (node_mark_dormant j s0) of
        (w1, s1) \<Rightarrow>
          (case on_world (deregister (ad_registry st) j) s1 of
             (Inl e, s2) \<Rightarrow> (Inl e, s2)
           | (Inr _, s2) \<Rightarrow>
               (case warn_world ''failed to clear missing-job counter: '' (clear_not_found (ad_missing st) j) s2 of
                  (w2, s3) \<Rightarrow> (Inr (w1 @ w2), s3))))"

text \<open>The part after Nomad has answered.\<close>

definition finish_purge ::
  "'w admin_state \<Rightarrow> string \<Rightarrow> bool \<Rightarrow> usize \<Rightarrow> bool \<Rightarrow> json \<Rightarrow> 'w node \<Rightarrow> admin_response \<times> 'w node" where
  "finish_purge st name force in_flight purged eval s =
     (case cleanup_admin_job_state st (JobId name) s of
        (Inl e, s1) \<Rightarrow> (AdminJson 500 (JObject [(''error'', JString (error_to_string e)),
            (''job_id'', JString name), (''purged'', JBool purged)]), s1)
      | (Inr warnings, s1) \<Rightarrow> (AdminJson 200 (JObject [(''job_id'', JString name), (''purged'', JBool purged),
            (''force'', JBool force), (''in_flight'', jnum (unat in_flight)),
            (''eval_id'', eval), (''warnings'', JArray (map JString warnings))]), s1))"

definition admin_purge_job ::
  "'w admin_state \<Rightarrow> string \<Rightarrow> bool \<Rightarrow> 'w node \<Rightarrow> admin_response \<times> 'w node" where
  "admin_purge_job st name force s =
     (let in_flight = count name (nd_flights s) in
      if 0 < in_flight \<and> \<not> force then
        (AdminJson 409 (JObject
           [(''error'', JString ''job has in-flight proxied requests; retry with force=true to purge anyway''),
            (''job_id'', JString name), (''in_flight'', jnum (unat in_flight))]), s)
      else
        (case on_world (stop_and_purge_job (ad_nomad st) (JobId name)) s of
           (Inr r, s1) \<Rightarrow> finish_purge st name force in_flight True (JString (stop_eval_id r)) s1
         | (Inl (JobNotFound _), s1) \<Rightarrow> finish_purge st name force in_flight False JNull s1
         | (Inl e, s1) \<Rightarrow> (AdminJson 502 (JObject [(''error'', JString (error_to_string e)),
             (''job_id'', JString name)]), s1)))"

subsection \<open>Submission\<close>

text \<open>The loop over the managed services: the ids registered and the failures, in order.\<close>

fun register_each ::
  "'w admin_state \<Rightarrow> job_registration list \<Rightarrow> 'w node \<Rightarrow> (string list \<times> registration_failure list) \<times> 'w node" where
  "register_each st [] s = (([], []), s)"
| "register_each st (reg # regs) s =
     (case on_world (register (ad_registry st) reg) s of
        (Inr _, s1) \<Rightarrow>
          (case register_each st regs s1 of ((ids, fs), s2) \<Rightarrow> ((job_str (job_id reg) # ids, fs), s2))
      | (Inl e, s1) \<Rightarrow>
          (case register_each st regs s1 of
             ((ids, fs), s2) \<Rightarrow>
               ((ids, \<lparr>rf_service_name = service_str (service_name reg), rf_error = error_to_string e\<rparr> # fs), s2)))"

text \<open>A \<^verbatim>\<open>BTreeSet\<close> of strings is iterated in ascending order, each once.\<close>

definition btree_order :: "string list \<Rightarrow> string list" where
  "btree_order ids = sort (remdups ids)"

definition seed_activity :: "'w admin_state \<Rightarrow> string list \<Rightarrow> 'w node \<Rightarrow> 'w node" where
  "seed_activity st ids s = fold (\<lambda>i. try_world (record_activity (ad_store st) (JobId i))) ids s"

definition no_services :: json where
  "no_services = JObject [(''error'', JString ''parsed job does not contain any Traefik-enabled services for nscale'')]"

definition admin_submit_job ::
  "'w admin_state \<Rightarrow> submit_job_request \<Rightarrow> 'w node \<Rightarrow> admin_response \<times> 'w node" where
  "admin_submit_job st rq s =
     (case on_world (parse_job (ad_nomad st) (hcl rq) (variables rq)) s of
        (Inl e, s1) \<Rightarrow> (AdminJson (admin_error_status e) (error_json e), s1)
      | (Inr parsed, s1) \<Rightarrow>
          (case inject_nscale_tags parsed (ad_file_provider st) of
             Inl e \<Rightarrow> (AdminJson 400 (error_json e), s1)
           | Inr (job, services) \<Rightarrow>
               (case services of
                  [] \<Rightarrow> (AdminJson 400 no_services, s1)
                | first # _ \<Rightarrow>
                    (case on_world (submit_job (ad_nomad st) job) s1 of
                       (Inl e, s2) \<Rightarrow> (AdminJson (admin_error_status e) (error_json e), s2)
                     | (Inr resp, s2) \<Rightarrow>
                         (case register_each st services s2 of
                            ((ids, fs), s3) \<Rightarrow>
                              (AdminSubmitted (if fs = [] then 201 else 207)
                                 \<lparr>sj_job_id = job_str (job_id first), sj_eval_id = submit_eval_id resp,
                                  sj_modify_index = submit_modify_index resp,
                                  sj_warnings = (case submit_warnings resp of
                                      Some w \<Rightarrow> if w = [] then None else Some w | None \<Rightarrow> None),
                                  managed_services = services, registration_failures = fs\<rparr>,
                               seed_activity st (btree_order ids) s3))))))"

subsection \<open>Registration\<close>

definition admin_register :: "'w admin_state \<Rightarrow> job_registration \<Rightarrow> 'w node \<Rightarrow> admin_response \<times> 'w node" where
  "admin_register st reg s =
     (case on_world (register (ad_registry st) reg) s of
        (Inr _, s1) \<Rightarrow> (AdminText 201 ''registered'', try_world (record_activity (ad_store st) (job_id reg)) s1)
      | (Inl e, s1) \<Rightarrow> (AdminText 500 (''error: '' @ error_to_string e), s1))"

fun sync_each :: "'w admin_state \<Rightarrow> job_registration list \<Rightarrow> u32 \<Rightarrow> u32 \<Rightarrow> 'w node \<Rightarrow> (u32 \<times> u32) \<times> 'w node" where
  "sync_each st [] n m s = ((n, m), s)"
| "sync_each st (reg # regs) n m s =
     (case on_world (register (ad_registry st) reg) s of
        (Inr _, s1) \<Rightarrow> sync_each st regs (n + 1) m (try_world (record_activity (ad_store st) (job_id reg)) s1)
      | (Inl _, s1) \<Rightarrow> sync_each st regs n (m + 1) s1)"

definition admin_sync :: "'w admin_state \<Rightarrow> job_registration list \<Rightarrow> 'w node \<Rightarrow> admin_response \<times> 'w node" where
  "admin_sync st regs s =
     (case sync_each st regs 0 0 s of
        ((ok, failed), s1) \<Rightarrow>
          (AdminJson 200 (JObject [(''synced'', jnum (unat ok)), (''failed'', jnum (unat failed)),
             (''total'', jnum (length regs))]), s1))"

end
