(* ===== verification/Admin_Properties.thy ===== *)
theory Admin_Properties
  imports Admin Controller_Properties
begin

text \<open>
  The properties of the admin API: a purge respects requests in flight and leaves nothing that
  leads to the job, a submission registers every managed service, a bulk registration counts.
\<close>

subsection \<open>Purge\<close>

lemma finish_purge_status:
  "admin_status (fst (finish_purge st name force n purged eval s)) \<in> {200, 500}"
  by (auto simp: finish_purge_def split: prod.splits sum.splits)

lemma in_flight_pos: "0 < count j f \<longleftrightarrow> has_in_flight j f"
  by (simp add: has_in_flight_count word_neq_0_conv)

lemma purge_cases:
  obtains (conflict) b where "has_in_flight name (nd_flights s)" "\<not> force"
      "admin_purge_job st name force s = (AdminJson 409 b, s)"
  | (finish) r purged eval s1 where "\<not> (has_in_flight name (nd_flights s) \<and> \<not> force)"
      "on_world (stop_and_purge_job (ad_nomad st) (JobId name)) s = (r, s1)"
      "admin_purge_job st name force s = finish_purge st name force (count name (nd_flights s)) purged eval s1"
  | (failed) b s1 where "\<not> (has_in_flight name (nd_flights s) \<and> \<not> force)"
      "admin_purge_job st name force s = (AdminJson 502 b, s1)"
proof (cases "has_in_flight name (nd_flights s) \<and> \<not> force")
  case True
  then show thesis using conflict by (auto simp: admin_purge_job_def in_flight_pos)
next
  case False
  obtain r s1 where r: "on_world (stop_and_purge_job (ad_nomad st) (JobId name)) s = (r, s1)" by force
  have c: "\<not> (0 < count name (nd_flights s) \<and> \<not> force)" using False by (simp add: in_flight_pos)
  show thesis
  proof (cases r)
    case (Inr x)
    then show thesis using c r finish [OF False r] unfolding admin_purge_job_def Let_def if_not_P [OF c] by simp
  next
    case (Inl e)
    show thesis
    proof (cases "is_job_not_found e")
      case True
      then show thesis using r Inl finish [OF False r] unfolding admin_purge_job_def Let_def if_not_P [OF c]
        by (auto simp: is_job_not_found_iff)
    next
      case nf: False
      with r Inl show thesis using failed [OF False] unfolding admin_purge_job_def Let_def if_not_P [OF c]
        by (cases e) auto
    qed
  qed
qed

text \<open>
  A purge respects requests in flight. A purge without force of a job with requests in flight,
  and no other, is answered with a conflict; such a purge changes nothing and does not consult Nomad.
\<close>

theorem purge_guarded:
  "(admin_status (fst (admin_purge_job st name force s)) = 409 \<longleftrightarrow> has_in_flight name (nd_flights s) \<and> \<not> force) \<and>
   (admin_status (fst (admin_purge_job st name force s)) = 409 \<longrightarrow> snd (admin_purge_job st name force s) = s)"
proof (cases rule: purge_cases [of name s force st])
  case (finish r purged eval s1)
  have "admin_status (fst (admin_purge_job st name force s)) \<noteq> 409"
    using finish_purge_status [of st name force "count name (nd_flights s)" purged eval s1] finish(3) by auto
  with finish(1) show ?thesis by blast
qed auto

text \<open>The clean-up, seen from the registry.\<close>

lemma warn_world_same:
  "warn_world what m s = (ws, t) \<Longrightarrow> nd_coord t = nd_coord s \<and> nd_world t = snd (m (nd_world s))"
  by (auto simp: warn_world_def on_world_def split: prod.splits sum.splits)

lemma mark_dormant_gone [simp]:
  "endpoints (mark_dormant j c) (job_str j) = None" "jobs (mark_dormant j c) (job_str j) = None"
  by (simp_all add: mark_dormant_def remove_job_def on_state_def remove_endpoint_def put_state_def split: option.splits)

lemma cleanup_admin_ok:
  assumes "cleanup_admin_job_state st j s = (Inr ws, t)"
  obtains w1 w2 where "deregister (ad_registry st) j w1 = (Inr (), w2)"
    "nd_world t = snd (clear_not_found (ad_missing st) j w2)" "nd_coord t = mark_dormant j (nd_coord s)"
proof -
  obtain x s1 where a: "warn_world ''failed to remove activity: '' (remove_activity (ad_store st) j) (node_mark_dormant j s) = (x, s1)"
    by force
  obtain u s2 where d: "on_world (deregister (ad_registry st) j) s1 = (Inr u, s2)"
    using assms a by (cases "on_world (deregister (ad_registry st) j) s1"; cases "fst (on_world (deregister (ad_registry st) j) s1)")
      (auto simp: cleanup_admin_job_state_def)
  obtain y s3 where c: "warn_world ''failed to clear missing-job counter: '' (clear_not_found (ad_missing st) j) s2 = (y, s3)" by force
  have t: "t = s3" using assms a d c by (simp add: cleanup_admin_job_state_def)
  show thesis
    using that [of "nd_world s1" "nd_world s2"] on_worldD [OF d] on_world_same [OF d] warn_world_same [OF a] warn_world_same [OF c] t
    by simp
qed


subsection \<open>A simulated admin API\<close>

definition demo_nomad :: "json \<Rightarrow> 'w nomad_client" where
  "demo_nomad job = nomad_client_new
     \<lparr>http_send = (\<lambda>_. io_return \<lparr>resp_status = 200, resp_headers = Map.empty, resp_text = Inr []\<rparr>), status_text = show_nat\<rparr>
     \<lparr>dec_value = (\<lambda>_. Inr job),
      dec_submit = (\<lambda>_. Inr \<lparr>submit_eval_id = ''ev'', submit_modify_index = 7, submit_warnings = Some []\<rparr>),
      dec_stop = (\<lambda>_. Inr \<lparr>stop_eval_id = ''ev'', eval_create_index = 1, stop_modify_index = 2\<rparr>),
      dec_job = (\<lambda>_. Inl []), dec_allocs = (\<lambda>_. Inr []), dec_scale = (\<lambda>_. Inr \<lparr>sc_warnings = []\<rparr>)\<rparr>
     ''http://nomad:4646/''"

definition demo_admin :: "mem_node admin_state" where
  "demo_admin = \<lparr>ad_registry = demo_registry, ad_store = redis_activity_impl (mem_store ''n1''),
     ad_nomad = demo_nomad demo_job, ad_missing = redis_missing_impl mem_redis, ad_file_provider = ''nscale@file''\<rparr>"

definition demo_node :: "mem_node \<Rightarrow> mem_node node" where
  "demo_node w = \<lparr>nd_coord = coordinator_new 1 60, nd_flights = tracker_new, nd_deferred = Map.empty,
     nd_counts = Map.empty, nd_world = w\<rparr>"

theorem purge_guarded_witness:
  "let s = (demo_node node_shop)\<lparr>nd_flights := snd (track ''shop'' tracker_new)\<rparr> in
   admin_status (fst (admin_purge_job demo_admin ''shop'' False s)) = 409 \<and>
   snd (admin_purge_job demo_admin ''shop'' False s) = s"
proof -
  have "has_in_flight ''shop'' (snd (track ''shop'' tracker_new))"
    by (simp add: track_def entry_or_insert_def fetch_add_def tracker_new_def has_in_flight_def)
  with purge_guarded [of demo_admin "''shop''" False "(demo_node node_shop)\<lparr>nd_flights := snd (track ''shop'' tracker_new)\<rparr>"]
  show ?thesis by (simp add: Let_def)
qed


subsection \<open>Submission\<close>

text \<open>A registry whose cache behaves as Redis documents, with or without a durable registry behind it.\<close>

definition registry_ok :: "'w job_registry \<Rightarrow> ('w \<Rightarrow> redis_view) \<Rightarrow> bool" where
  "registry_ok R V \<longleftrightarrow> hash_laws (reg_client R) V \<and> codec_ok (reg_codec R) \<and>
     (\<forall>d reg. durable R = Some d \<longrightarrow> keeps V (store_registration d reg))"

lemma register_cached:
  assumes "registry_ok R V" and "register R reg w = (Inr u, w')"
  shows "cached_jobs (reg_codec R) (V w') = (cached_jobs (reg_codec R) (V w))(job_str (job_id reg) \<mapsto> reg)"
    and "cached_services (reg_codec R) (V w') = (cached_services (reg_codec R) (V w))(service_str (service_name reg) \<mapsto> reg)"
proof -
  obtain x w1 where d: "(case durable R of None \<Rightarrow> io_return () | Some d \<Rightarrow> store_registration d reg) w = (Inr x, w1)"
    and c: "cache_registration R reg w1 = (Inr u, w')"
    using assms(2) by (auto simp: register_def io_iff)
  have "V w1 = V w"
    using d assms(1) by (cases "durable R") (auto simp: registry_ok_def io_iff dest: keepsD)
  then show "cached_jobs (reg_codec R) (V w') = (cached_jobs (reg_codec R) (V w))(job_str (job_id reg) \<mapsto> reg)"
    and "cached_services (reg_codec R) (V w') = (cached_services (reg_codec R) (V w))(service_str (service_name reg) \<mapsto> reg)"
    using cache_registration_ok [OF _ _ c, of V] assms(1) by (simp_all add: registry_ok_def)
qed

lemma register_each_ok:
  assumes "registry_ok (ad_registry st) V"
  shows "register_each st regs s = ((ids, []), t) \<Longrightarrow>
    cached_jobs (reg_codec (ad_registry st)) (V (nd_world t)) =
      fold (\<lambda>r m. m(job_str (job_id r) \<mapsto> r)) regs (cached_jobs (reg_codec (ad_registry st)) (V (nd_world s))) \<and>
    cached_services (reg_codec (ad_registry st)) (V (nd_world t)) =
      fold (\<lambda>r m. m(service_str (service_name r) \<mapsto> r)) regs (cached_services (reg_codec (ad_registry st)) (V (nd_world s)))"
proof (induction regs arbitrary: s ids)
  case (Cons reg regs)
  then obtain u s1 ids' where r: "on_world (register (ad_registry st) reg) s = (Inr u, s1)"
    and e: "register_each st regs s1 = ((ids', []), t)"
    by (auto split: prod.splits sum.splits)
  have "register (ad_registry st) reg (nd_world s) = (Inr u, nd_world s1)" using on_worldD [OF r] by blast
  from register_cached [OF assms this] Cons.IH [OF e] show ?case by simp
qed simp

lemma fold_upd_some:
  "r \<in> set rs \<Longrightarrow> \<exists>q \<in> set rs. key q = key r \<and> fold (\<lambda>r m. m(key r \<mapsto> r)) rs m (key r) = Some q"
  by (induction rs arbitrary: m rule: rev_induct) auto

lemma record_activity_hash:
  assumes "zset_laws (act_client act) V"
  shows "hash (V (snd (redis_record_activity act j w))) = hash (V w)"
proof -
  have "wrote V (zset_put ACTIVITY_KEY (job_str j) (Some (now_epoch act w))) w
      (r_zadd (act_client act) ACTIVITY_KEY (now_epoch act w) (job_str j) w)"
    using assms by (simp add: zset_laws_def)
  then show ?thesis
    by (auto simp: redis_record_activity_def io_map_err_state wrote_def zset_put_def split: prod.splits sum.splits)
qed

lemma seed_activity_hash:
  assumes "ad_store st = redis_activity_impl act" and "zset_laws (act_client act) V"
  shows "hash (V (nd_world (seed_activity st ids s))) = hash (V (nd_world s))"
  unfolding seed_activity_def
  by (induction ids arbitrary: s) (simp_all add: assms redis_activity_impl_def record_activity_hash)

text \<open>
  C33: A submission registers every managed service. When a submission is answered with 201, the
  mutator returned the managed services of the report for the job Nomad parsed, none of them failed
  to register, and the cache finds each under its service name, and under its job's id.
\<close>

theorem submit_registers:
  assumes "registry_ok (ad_registry st) V" and "ad_store st = redis_activity_impl act" and "zset_laws (act_client act) V"
    and "admin_submit_job st rq s = (AdminSubmitted 201 rep, t)"
  shows "(\<exists>parsed s1 job. on_world (parse_job (ad_nomad st) (hcl rq) (variables rq)) s = (Inr parsed, s1) \<and>
      inject_nscale_tags parsed (ad_file_provider st) = Inr (job, managed_services rep)) \<and>
    registration_failures rep = [] \<and>
    (\<forall>reg \<in> set (managed_services rep).
       (\<exists>r \<in> set (managed_services rep). service_name r = service_name reg \<and>
          cached_services (reg_codec (ad_registry st)) (V (nd_world t)) (service_str (service_name reg)) = Some r) \<and>
       (\<exists>r \<in> set (managed_services rep). job_id r = job_id reg \<and>
          cached_jobs (reg_codec (ad_registry st)) (V (nd_world t)) (job_str (job_id reg)) = Some r))"
proof -
  obtain parsed s1 job services resp s2 ids s3 where
    p: "on_world (parse_job (ad_nomad st) (hcl rq) (variables rq)) s = (Inr parsed, s1)"
    and i: "inject_nscale_tags parsed (ad_file_provider st) = Inr (job, services)"
    and g: "register_each st services s2 = ((ids, []), s3)"
    and r: "managed_services rep = services" "registration_failures rep = []" "t = seed_activity st (btree_order ids) s3"
    using assms(4)
    by (auto simp: admin_submit_job_def simp del: register_each.simps split: prod.splits sum.splits list.splits if_splits)
  let ?C = "reg_codec (ad_registry st)"
  have h: "hash (V (nd_world t)) = hash (V (nd_world s3))" using seed_activity_hash [OF assms(2,3)] r(3) by simp
  have "cached_services ?C (V (nd_world t)) = cached_services ?C (V (nd_world s3))"
    "cached_jobs ?C (V (nd_world t)) = cached_jobs ?C (V (nd_world s3))"
    using h by (simp_all add: cached_jobs_def [abs_def] cached_services_def [abs_def])
  note c = this register_each_ok [OF assms(1) g]
  have "\<exists>q \<in> set services. service_name q = service_name reg \<and>
      cached_services ?C (V (nd_world t)) (service_str (service_name reg)) = Some q"
    if "reg \<in> set services" for reg
    using fold_upd_some [OF that, of "\<lambda>r. service_str (service_name r)" "cached_services ?C (V (nd_world s2))"] c
    by (auto intro: service_name.expand)
  moreover have "\<exists>q \<in> set services. job_id q = job_id reg \<and>
      cached_jobs ?C (V (nd_world t)) (job_str (job_id reg)) = Some q"
    if "reg \<in> set services" for reg
    using fold_upd_some [OF that, of "\<lambda>r. job_str (job_id r)" "cached_jobs ?C (V (nd_world s2))"] c
    by (auto intro: job_id.expand)
  ultimately show ?thesis using p i r by blast
qed

lemma demo_registry_ok: "registry_ok (ad_registry demo_admin) mem_view"
proof -
  have "keeps mem_view (store_registration (etcd_durable demo_etcd) reg)" for reg
    using etcd.keeps_redis(1) [OF etcd.fitsD(2) [OF etcd_backed_fits [OF demo_backed]]] by simp
  then show ?thesis
    using demo_parts demo_backed by (auto simp: registry_ok_def demo_admin_def etcd_backed_def)
qed

theorem submit_registers_witness:
  "\<exists>rep t. admin_submit_job demo_admin \<lparr>hcl = ''job'', variables = None\<rparr> (demo_node node_empty) = (AdminSubmitted 201 rep, t) \<and>
     managed_services rep = [shop] \<and> registration_failures rep = [] \<and>
     (\<exists>r \<in> {shop}. cached_services demo_codec (mem_view (nd_world t)) ''web'' = Some r)"
proof -
  have p: "on_world (parse_job (ad_nomad demo_admin) x v) s = (Inr demo_job, s)" for x v and s :: "mem_node node"
    by (simp add: parse_job_def nomad_send_def demo_admin_def demo_nomad_def nomad_client_new_def io_bind_def
        io_map_err_def io_return_def io_lift_def ensure_success_def is_success_def resp_json_def on_world_def)
  obtain resp where q: "\<And>s :: mem_node node. on_world (submit_job (ad_nomad demo_admin) demo_job_out) s = (Inr resp, s)"
    by (simp add: submit_job_def nomad_send_def demo_admin_def demo_nomad_def nomad_client_new_def io_bind_def
        io_map_err_def io_return_def io_lift_def ensure_success_def is_success_def resp_json_def on_world_def)
  have f: "ad_file_provider demo_admin = ''nscale@file''" "demo_job_regs = [shop]" "ad_registry demo_admin = demo_registry"
    by (simp_all add: demo_admin_def demo_job_regs_def shop_def)
  have g: "register_each demo_admin [shop] (demo_node node_empty) = (([''shop''], []), demo_node node_shop)"
    using demo_register by (simp add: f on_world_def demo_node_def) (simp add: shop_def)
  obtain rep t where s: "admin_submit_job demo_admin \<lparr>hcl = ''job'', variables = None\<rparr> (demo_node node_empty) = (AdminSubmitted 201 rep, t)"
      "managed_services rep = [shop]" "registration_failures rep = []"
    by (simp add: admin_submit_job_def p f demo_job_inject q g del: register_each.simps)
  have a: "ad_store demo_admin = redis_activity_impl (mem_store ''n1'')"
    "zset_laws (act_client (mem_store ''n1'' :: mem_node redis_activity_store)) mem_view"
    by (simp_all add: demo_admin_def mem_store_def mem_zset_laws)
  have "reg_codec (ad_registry demo_admin) = demo_codec" "service_name shop = ServiceName ''web''"
    by (simp_all add: f demo_registry_def with_durable_def shop_def)
  with submit_registers [OF demo_registry_ok a s(1)] s show ?thesis by auto
qed

subsection \<open>Bulk registration\<close>

lemma sync_each_counts:
  "length regs + k + l < 2 ^ 32 \<Longrightarrow> sync_each st regs (of_nat k) (of_nat l) s = ((n, m), t) \<Longrightarrow>
   \<exists>i \<le> length regs. unat n = k + i \<and> unat m = l + (length regs - i)"
proof (induction regs arbitrary: k l s)
  case Nil
  then have "k < 2 ^ 32" "l < 2 ^ 32" by simp_all
  with Nil show ?case by (auto simp: unat_of_nat)
next
  case (Cons reg regs)
  obtain r s1 where r: "on_world (register (ad_registry st) reg) s = (r, s1)" by force
  show ?case
  proof (cases r)
    case (Inl e)
    then have e: "sync_each st regs (of_nat k) (of_nat (Suc l)) s1 = ((n, m), t)"
      using Cons.prems(2) r by (simp add: add.commute)
    from Cons.prems(1) have "length regs + k + Suc l < 2 ^ 32" by simp
    from Cons.IH [OF this e] obtain i where "i \<le> length regs" "unat n = k + i" "unat m = Suc l + (length regs - i)" by blast
    then show ?thesis by (intro exI [of _ i]) auto
  next
    case (Inr x)
    then have e: "sync_each st regs (of_nat (Suc k)) (of_nat l) (try_world (record_activity (ad_store st) (job_id reg)) s1) = ((n, m), t)"
      using Cons.prems(2) r by (simp add: add.commute)
    from Cons.prems(1) have "length regs + Suc k + l < 2 ^ 32" by simp
    from Cons.IH [OF this e] obtain i where "i \<le> length regs" "unat n = Suc k + i" "unat m = l + (length regs - i)" by blast
    then show ?thesis by (intro exI [of _ "Suc i"]) auto
  qed
qed

text \<open>
  A bulk registration accounts for every entry. With fewer than \<open>2 ^ 32\<close> entries, the numbers
  of synced and failed registrations it reports add up to the total it reports, the number of entries.
\<close>

theorem sync_accounts:
  assumes "length regs < 2 ^ 32"
  shows "\<exists>i \<le> length regs. fst (admin_sync st regs s) =
    AdminJson 200 (JObject [(''synced'', JNumber (show_nat i)), (''failed'', JNumber (show_nat (length regs - i))),
      (''total'', JNumber (show_nat (length regs)))])"
proof -
  obtain n m t where e: "sync_each st regs (of_nat 0) (of_nat 0) s = ((n, m), t)"
    by (cases "sync_each st regs (of_nat 0) (of_nat 0) s") force
  from sync_each_counts [OF _ e] assms obtain i where "i \<le> length regs" "unat n = i" "unat m = length regs - i" by auto
  then show ?thesis using e by (intro exI [of _ i]) (simp add: admin_sync_def jnum_def)
qed

theorem sync_accounts_witness:
  "length [shop] < 2 ^ 32 \<and> (\<exists>i \<le> 1. fst (admin_sync demo_admin [shop] (demo_node node_empty)) =
    AdminJson 200 (JObject [(''synced'', JNumber (show_nat i)), (''failed'', JNumber (show_nat (1 - i))),
      (''total'', JNumber (show_nat 1))]))"
  using sync_accounts [of "[shop]" demo_admin "demo_node node_empty"] by simp

end
