(* ===== verification/Startup.thy ===== *)
theory Startup
  imports Handler Admin Event_Processor Consul Etcd Config Mem_Etcd
begin

text \<open>
  The start of the process, \<^verbatim>\<open>main\<close> of \<^verbatim>\<open>src/main.rs\<close>: waiting for Redis, building and filling the
  registry, and wiring the coordinator, the proxy, the scale-down controller, the event processor
  and the admin API to the shared parts.

  What the libraries provide is a \<open>runtime\<close>: connecting to Redis and etcd, the HTTP clients for the
  given token, the codecs, the clock and the sleep. A branch that ends the process is a value of
  \<open>startup_failure\<close>. \<open>Launch\<close> has what comes before and around it.
\<close>

record 'w runtime =
  rt_redis :: "string \<Rightarrow> ('w, 'w redis_activity_store) call"
  rt_etcd :: "string list \<Rightarrow> ('w, string, 'w etcd_kv) io"
  rt_codec :: reg_codec
  rt_nomad :: "string option \<Rightarrow> 'w http"
  rt_nomad_dec :: nomad_decoders
  rt_consul :: "string option \<Rightarrow> 'w http"
  rt_health_dec :: "string \<Rightarrow> string + health_entry list"
  rt_probe :: "'w http"
  rt_forward :: "duration \<Rightarrow> 'w forward_client"
  rt_now :: "'w \<Rightarrow> instant"
  rt_sleep :: "duration \<Rightarrow> 'w \<Rightarrow> 'w"
  rt_cancelled :: "'w \<Rightarrow> bool"

datatype startup_failure =
    RedisUnreachable nscale_error
  | NoEtcdEndpoints
  | EtcdUnreachable nscale_error

subsection \<open>Waiting for Redis\<close>

definition max_retries :: nat where
  "max_retries = 30"

text \<open>The loop, after \<open>attempt\<close> failed attempts.\<close>

function connect_store ::
  "'w runtime \<Rightarrow> string \<Rightarrow> nat \<Rightarrow> ('w, startup_failure, 'w redis_activity_store) io" where
  "connect_store rt addr attempt w =
     (case rt_redis rt addr w of
        (Inr store, w1) \<Rightarrow> (Inr store, w1)
      | (Inl e, w1) \<Rightarrow>
          if max_retries \<le> attempt + 1 then (Inl (RedisUnreachable e), w1)
          else connect_store rt addr (attempt + 1) (rt_sleep rt (from_secs 1) w1))"
  by pat_completeness auto
termination by (relation "measure (\<lambda>(_, _, attempt, _). max_retries - attempt)") auto

declare connect_store.simps [simp del]

subsection \<open>The registry\<close>

text \<open>\<^verbatim>\<open>EtcdClient::new\<close>\<close>

definition etcd_connect :: "'w runtime \<Rightarrow> string list \<Rightarrow> string \<Rightarrow> ('w, 'w etcd_client) call" where
  "etcd_connect rt eps pfx =
     io_bind (io_map_err Store (rt_etcd rt eps)) (\<lambda>kv. io_return (etcd_client_new kv (rt_codec rt) pfx))"

text \<open>A failed hydration of the cache is logged; the registry is used all the same.\<close>

definition build_registry ::
  "'w runtime \<Rightarrow> registry_config \<Rightarrow> 'w redis \<Rightarrow> ('w, startup_failure, 'w job_registry) io" where
  "build_registry rt cfg redis =
     (if durable_enabled cfg then
        let eps = etcd_endpoint_list cfg in
        if eps = [] then io_fail NoEtcdEndpoints
        else io_bind (io_map_err EtcdUnreachable (etcd_connect rt eps (etcd_key_prefix cfg))) (\<lambda>client.
          let registry = with_durable redis (rt_codec rt) (etcd_durable client) in
          (\<lambda>w. (Inr registry, snd (sync_from_durable registry w))))
      else io_return (registry_new redis (rt_codec rt)))"

subsection \<open>Wiring\<close>

record 'w process =
  ps_app :: "'w app_state"
  ps_controller :: "'w controller"
  ps_events :: "'w event_processor"
  ps_admin :: "'w admin_state"

definition nomad_of :: "'w runtime \<Rightarrow> nomad_config \<Rightarrow> 'w nomad_client" where
  "nomad_of rt cfg = nomad_client_new (rt_nomad rt (nomad_token cfg)) (rt_nomad_dec rt) (nomad_addr cfg)"

definition consul_of :: "'w runtime \<Rightarrow> consul_config \<Rightarrow> 'w consul_client" where
  "consul_of rt cfg =
     consul_new (rt_consul rt (consul_token cfg)) (rt_health_dec rt) (rt_now rt) (rt_sleep rt) (consul_addr cfg)"

definition coordinator_of :: "config \<Rightarrow> coordinator" where
  "coordinator_of cfg =
     coordinator_new (unat (concurrency (nomad_cfg cfg))) (unat (wake_timeout_secs (scaling_cfg cfg)))"

definition wake_env_of :: "'w runtime \<Rightarrow> config \<Rightarrow> 'w wake_env" where
  "wake_env_of rt cfg =
     \<lparr>we_orchestrator = nomad_orchestrator (nomad_of rt (nomad_cfg cfg)),
      we_discovery = consul_discovery (consul_of rt (consul_cfg cfg)),
      we_now = rt_now rt, we_sleep = rt_sleep rt\<rparr>"

definition app_of :: "'w runtime \<Rightarrow> config \<Rightarrow> 'w redis_activity_store \<Rightarrow> 'w job_registry \<Rightarrow> 'w app_state" where
  "app_of rt cfg store registry =
     \<lparr>as_wake = node_ensure_running (wake_env_of rt cfg),
      as_orchestrator = nomad_orchestrator (nomad_of rt (nomad_cfg cfg)),
      as_registry = registry, as_client = rt_forward rt (request_timeout (proxy_cfg cfg)),
      as_store = redis_activity_impl store, as_missing = redis_missing_impl (act_client store),
      as_heartbeat_interval = heartbeat_interval_of (scaling_cfg cfg),
      as_auto_enabled = auto_enabled (auto_deregister (scaling_cfg cfg)),
      as_auto_threshold = not_found_threshold (auto_deregister (scaling_cfg cfg)),
      as_sleep = rt_sleep rt\<rparr>"

definition probe_of :: "'w runtime \<Rightarrow> config \<Rightarrow> 'w traffic_probe option" where
  "probe_of rt cfg = map_option (\<lambda>tc. traffic_probe_new (rt_probe rt) (metrics_url tc) (provider tc)) (traefik_cfg cfg)"

definition controller_of ::
  "'w runtime \<Rightarrow> config \<Rightarrow> 'w redis_activity_store \<Rightarrow> 'w job_registry \<Rightarrow> 'w controller" where
  "controller_of rt cfg store registry =
     controller_new (nomad_orchestrator (nomad_of rt (nomad_cfg cfg))) (redis_activity_impl store) registry
       (probe_of rt cfg) (redis_missing_impl (act_client store))
       (idle_timeout (scaling_cfg cfg)) (scale_down_interval (scaling_cfg cfg))
       (auto_enabled (auto_deregister (scaling_cfg cfg))) (not_found_threshold (auto_deregister (scaling_cfg cfg)))
       (rt_now rt) (rt_cancelled rt)"

definition admin_of :: "'w runtime \<Rightarrow> config \<Rightarrow> 'w redis_activity_store \<Rightarrow> 'w job_registry \<Rightarrow> 'w admin_state" where
  "admin_of rt cfg store registry =
     \<lparr>ad_registry = registry, ad_store = redis_activity_impl store, ad_nomad = nomad_of rt (nomad_cfg cfg),
      ad_missing = redis_missing_impl (act_client store), ad_file_provider = file_provider_service (routing_cfg cfg)\<rparr>"

definition event_config :: "config \<Rightarrow> event_stream_config" where
  "event_config cfg =
     \<lparr>es_addr = nomad_addr (nomad_cfg cfg), es_token = nomad_token (nomad_cfg cfg),
      es_topics = [''Allocation''], initial_index = 0\<rparr>"

definition process_of :: "'w runtime \<Rightarrow> config \<Rightarrow> 'w redis_activity_store \<Rightarrow> 'w job_registry \<Rightarrow> 'w process" where
  "process_of rt cfg store registry =
     \<lparr>ps_app = app_of rt cfg store registry, ps_controller = controller_of rt cfg store registry,
      ps_events = \<lparr>ep_store = redis_activity_impl store, ep_registry = registry\<rparr>,
      ps_admin = admin_of rt cfg store registry\<rparr>"

definition node_of :: "config \<Rightarrow> 'w \<Rightarrow> 'w node" where
  "node_of cfg w =
     \<lparr>nd_coord = coordinator_of cfg, nd_flights = tracker_new, nd_deferred = Map.empty,
      nd_counts = Map.empty, nd_world = w\<rparr>"

text \<open>\<^verbatim>\<open>main\<close> up to the start of the servers: the parts, and the state they share.\<close>

definition boot :: "'w runtime \<Rightarrow> config \<Rightarrow> 'w \<Rightarrow> startup_failure + 'w process \<times> 'w node" where
  "boot rt cfg w =
     (case connect_store rt (redis_url (redis_cfg cfg)) 0 w of
        (Inl e, _) \<Rightarrow> Inl e
      | (Inr store, w1) \<Rightarrow>
          (case build_registry rt (registry_cfg cfg) (act_client store) w1 of
             (Inl e, _) \<Rightarrow> Inl e
           | (Inr registry, w2) \<Rightarrow> Inr (process_of rt cfg store registry, node_of cfg w2)))"

subsection \<open>Properties of the start\<close>

text \<open>The world in which an attempt after \<open>n\<close> failed ones is made.\<close>

primrec attempt_world :: "'w runtime \<Rightarrow> string \<Rightarrow> 'w \<Rightarrow> nat \<Rightarrow> 'w" where
  "attempt_world rt addr w 0 = w"
| "attempt_world rt addr w (Suc n) = rt_sleep rt (from_secs 1) (snd (rt_redis rt addr (attempt_world rt addr w n)))"

definition attempt_result :: "'w runtime \<Rightarrow> string \<Rightarrow> 'w \<Rightarrow> nat \<Rightarrow> ('w redis_activity_store) result" where
  "attempt_result rt addr w n = fst (rt_redis rt addr (attempt_world rt addr w n))"

lemma connect_store_from:
  assumes "n + d = 29" and "\<forall>m < n. \<exists>e. attempt_result rt addr w m = Inl e"
  shows "case connect_store rt addr n (attempt_world rt addr w n) of
      (Inr store, v) \<Rightarrow> \<exists>k < 30. (\<forall>m < k. \<exists>e. attempt_result rt addr w m = Inl e) \<and>
        rt_redis rt addr (attempt_world rt addr w k) = (Inr store, v)
    | (Inl f, v) \<Rightarrow> (\<forall>m < 30. \<exists>e. attempt_result rt addr w m = Inl e) \<and>
        (\<exists>e. f = RedisUnreachable e \<and> attempt_result rt addr w 29 = Inl e)"
  using assms
proof (induction d arbitrary: n)
  case (0 n)
  then have n: "n = 29" by simp
  have less30: "m < 30 \<longleftrightarrow> m < 29 \<or> m = 29" for m :: nat by arith
  obtain r v where r: "rt_redis rt addr (attempt_world rt addr w 29) = (r, v)" by force
  show ?case
  proof (cases r)
    case (Inl e)
    then show ?thesis using 0 r
      by (simp add: n connect_store.simps [of rt addr 29] max_retries_def attempt_result_def less30 all_conj_distrib
          imp_disjL)
  next
    case (Inr store)
    then show ?thesis using 0 r by (auto simp: n connect_store.simps [of rt addr 29] intro!: exI [of _ 29])
  qed
next
  case (Suc d n)
  obtain r v where r: "rt_redis rt addr (attempt_world rt addr w n) = (r, v)" by force
  show ?case
  proof (cases r)
    case (Inl e)
    then have "attempt_result rt addr w n = Inl e" using r by (simp add: attempt_result_def)
    then have "\<forall>m < Suc n. \<exists>e. attempt_result rt addr w m = Inl e" using Suc.prems(2) by (auto simp: less_Suc_eq)
    from Suc.IH [OF _ this] Suc.prems(1) show ?thesis
      using r Inl by (simp add: connect_store.simps [of rt addr n] max_retries_def)
  next
    case (Inr store)
    then show ?thesis using r Suc.prems by (auto simp: connect_store.simps [of rt addr n] intro!: exI [of _ n])
  qed
qed

text \<open>
  The wait for Redis ends. Whatever Redis does, the loop returns: with the store of the first
  attempt that succeeds, if one of the first thirty does, and otherwise with the error of the
  thirtieth; the attempts are one second apart and there is no thirty-first.
\<close>

theorem connect_store_outcome:
  "case connect_store rt addr 0 w of
     (Inr store, v) \<Rightarrow> \<exists>k < 30. (\<forall>m < k. \<exists>e. attempt_result rt addr w m = Inl e) \<and>
       rt_redis rt addr (attempt_world rt addr w k) = (Inr store, v)
   | (Inl f, v) \<Rightarrow> (\<forall>m < 30. \<exists>e. attempt_result rt addr w m = Inl e) \<and>
       (\<exists>e. f = RedisUnreachable e \<and> attempt_result rt addr w 29 = Inl e)"
  using connect_store_from [of 0 29 rt addr w] by simp

text \<open>
  A runtime on the in-memory servers: Redis refuses connections for the first two seconds, Nomad
  accepts everything, Consul always has one healthy instance, and backends accept upgrades.
\<close>

definition ok_http :: "'w http" where
  "ok_http = \<lparr>http_send = (\<lambda>_. io_return \<lparr>resp_status = 200, resp_headers = Map.empty, resp_text = Inr []\<rparr>),
     status_text = show_nat\<rparr>"

definition demo_runtime :: "mem_node runtime" where
  "demo_runtime =
     \<lparr>rt_redis = (\<lambda>_ w. if m_now w < 2 * 10 ^ 9 then (Inl (Store ''refused''), w) else (Inr (mem_store ''n1''), w)),
      rt_etcd = (\<lambda>_. io_return mem_etcd), rt_codec = demo_codec, rt_nomad = (\<lambda>_. ok_http),
      rt_nomad_dec = \<lparr>dec_value = (\<lambda>_. Inl []), dec_submit = (\<lambda>_. Inl []), dec_stop = (\<lambda>_. Inl []),
        dec_job = (\<lambda>_. Inl []), dec_allocs = (\<lambda>_. Inr []), dec_scale = (\<lambda>_. Inr \<lparr>sc_warnings = []\<rparr>)\<rparr>,
      rt_consul = (\<lambda>_. ok_http),
      rt_health_dec = (\<lambda>_. Inr [\<lparr>he_service = \<lparr>si_id = ''i'', si_address = ''10.0.0.9'', si_port = 80, si_tags = []\<rparr>\<rparr>]),
      rt_probe = ok_http,
      rt_forward = (\<lambda>_. \<lparr>fc_send = (\<lambda>_. io_return \<lparr>br_status = 200, br_headers = [], br_body = ''ok''\<rparr>), fc_build = Inr,
        fc_connect = (\<lambda>_. io_return ()), fc_handshake = io_return (),
        fc_upgrade = (\<lambda>_. io_return \<lparr>br_status = 101, br_headers = [], br_body = []\<rparr>)\<rparr>),
      rt_now = m_now, rt_sleep = (\<lambda>d w. w\<lparr>m_now := m_now w + d\<rparr>), rt_cancelled = (\<lambda>_. False)\<rparr>"

lemma demo_connect:
  "connect_store demo_runtime addr 0 node_empty = (Inr (mem_store ''n1''), node_empty\<lparr>m_now := 2 * 10 ^ 9\<rparr>)"
  by (simp add: connect_store.simps demo_runtime_def node_empty_def max_retries_def from_secs_def nanos_per_sec_def)

theorem connect_store_outcome_witness:
  "\<exists>k < 30. (\<forall>m < k. \<exists>e. attempt_result demo_runtime ''redis://r'' node_empty m = Inl e) \<and>
     rt_redis demo_runtime ''redis://r'' (attempt_world demo_runtime ''redis://r'' node_empty k) =
       (Inr (mem_store ''n1''), node_empty\<lparr>m_now := 2 * 10 ^ 9\<rparr>)"
  using connect_store_outcome [of demo_runtime "''redis://r''" node_empty] by (simp add: demo_connect)

end
