(* ===== verification/Process.thy ===== *)
theory Process
  imports Startup Handler_Properties Admin_Properties
begin

text \<open>
  The running process: the proxy, the scale-down controller, the event processor and the admin API
  act on the node they share, one operation after another, in any order, from the state in which
  \<^verbatim>\<open>main\<close> has started them. The open WebSocket tunnels hold the in-flight guards of their requests.

  The invariant ties the parts together: the in-flight counters, which the controller and the purge
  handler read, count the open tunnels.
\<close>

record 'w system =
  sys_events :: "'w ep_state"
  sys_tunnels :: "in_flight_guard list"

datatype process_op =
    ServeRequest proxy_request
  | CloseTunnel nat
  | ScaleDownTick
  | NomadEvent nomad_event
  | SubmitJob submit_job_request
  | PurgeJob string bool
  | RegisterJob job_registration
  | SyncJobs "job_registration list"
  | ReadyProbe

abbreviation sys_node :: "'w system \<Rightarrow> 'w node" where
  "sys_node s \<equiv> ep_node (sys_events s)"

definition on_node :: "('w node \<Rightarrow> 'a \<times> 'w node) \<Rightarrow> 'w system \<Rightarrow> 'w system" where
  "on_node f s = s\<lparr>sys_events := (sys_events s)\<lparr>ep_node := snd (f (sys_node s))\<rparr>\<rparr>"

definition serve_step :: "'w app_state \<Rightarrow> proxy_request \<Rightarrow> 'w system \<Rightarrow> 'w system" where
  "serve_step st req s =
     (case serve st req (sys_node s) of
        ((_, tunnel), n) \<Rightarrow>
          s\<lparr>sys_events := (sys_events s)\<lparr>ep_node := n\<rparr>,
            sys_tunnels := sys_tunnels s @ (case tunnel of None \<Rightarrow> [] | Some g \<Rightarrow> [g])\<rparr>)"

definition close_step :: "nat \<Rightarrow> 'w system \<Rightarrow> 'w system" where
  "close_step i s =
     (if i < length (sys_tunnels s)
      then s\<lparr>sys_events := (sys_events s)\<lparr>ep_node := tunnel_closed (Some (sys_tunnels s ! i)) (sys_node s)\<rparr>,
             sys_tunnels := take i (sys_tunnels s) @ drop (Suc i) (sys_tunnels s)\<rparr>
      else s)"

fun process_step :: "'w process \<Rightarrow> process_op \<Rightarrow> 'w system \<Rightarrow> 'w system" where
  "process_step p (ServeRequest req) s = serve_step (ps_app p) req s"
| "process_step p (CloseTunnel i) s = close_step i s"
| "process_step p ScaleDownTick s = on_node (tick (ps_controller p)) s"
| "process_step p (NomadEvent ev) s = s\<lparr>sys_events := snd (handle_event (ps_events p) ev (sys_events s))\<rparr>"
| "process_step p (SubmitJob rq) s = on_node (admin_submit_job (ps_admin p) rq) s"
| "process_step p (PurgeJob name force) s = on_node (admin_purge_job (ps_admin p) name force) s"
| "process_step p (RegisterJob reg) s = on_node (admin_register (ps_admin p) reg) s"
| "process_step p (SyncJobs regs) s = on_node (admin_sync (ps_admin p) regs) s"
| "process_step p ReadyProbe s = on_node (readyz (ps_admin p)) s"

inductive process_reachable :: "'w runtime \<Rightarrow> config \<Rightarrow> 'w process \<Rightarrow> 'w system \<Rightarrow> bool" for rt cfg where
  start: "boot rt cfg w = Inr (p, n) \<Longrightarrow> process_reachable rt cfg p \<lparr>sys_events = ep_new n, sys_tunnels = []\<rparr>"
| step: "process_reachable rt cfg p s \<Longrightarrow> process_reachable rt cfg p (process_step p op s)"

subsection \<open>Who touches the in-flight tracker\<close>

lemma on_world_flights: "on_world m s = (r, t) \<Longrightarrow> nd_flights t = nd_flights s"
  using on_world_same by blast

lemma handle_missing_job_flights [simp]: "nd_flights (handle_missing_job ct j s) = nd_flights s"
proof -
  have "nd_flights (snd (cleanup_missing_job_state ct j u)) = nd_flights u" for u
    by (auto simp: cleanup_missing_job_state_def Let_def dest!: on_world_flights split: prod.splits sum.splits)
  then show ?thesis
    by (auto simp: handle_missing_job_def dest!: on_world_flights split: prod.splits sum.splits)
qed

lemma handle_scale_down_result_flights [simp]: "nd_flights (handle_scale_down_result ct j r s) = nd_flights s"
  by (simp add: handle_scale_down_result_def split: sum.splits nscale_error.splits)

lemma scale_down_registered_flights [simp]: "nd_flights (scale_down_registered ct j s) = nd_flights s"
  by (auto simp: scale_down_registered_def clear_missing_job_counter_def dest!: on_world_flights
      split: prod.splits sum.splits option.splits nscale_error.splits)

lemma check_traffic_flights: "check_traffic ct j s = (b, t) \<Longrightarrow> nd_flights t = nd_flights s"
  by (auto simp: check_traffic_def split: option.splits prod.splits sum.splits bool.splits)

lemma scale_down_job_flights [simp]: "nd_flights (scale_down_job ct j s) = nd_flights s"
  by (auto simp: scale_down_job_def dest!: check_traffic_flights check_deferred_frame(2) split: prod.splits bool.splits)

lemma scale_down_all_flights [simp]: "nd_flights (scale_down_all ct js s) = nd_flights s"
  by (induction js arbitrary: s) auto

lemma tick_flights: "nd_flights (snd (tick ct s)) = nd_flights s"
proof -
  have "nd_flights (snd (tick_locked ct u)) = nd_flights u" for u
    by (auto simp: tick_locked_def dest!: on_world_flights split: prod.splits sum.splits)
  then show ?thesis
    by (auto simp: tick_def drop_lock_guard_def dest!: on_world_flights split: prod.splits sum.splits bool.splits)
      (metis snd_conv)
qed

lemma handle_event_flights: "nd_flights (ep_node (snd (handle_event ep ev s))) = nd_flights (ep_node s)"
  by (auto simp: handle_event_def handle_allocation_event_def alloc_running_def alloc_stopped_def Let_def
      dest!: on_world_flights split: option.splits prod.splits sum.splits alloc_change.splits)

lemma warn_world_flights: "warn_world what m s = (ws, t) \<Longrightarrow> nd_flights t = nd_flights s"
  by (auto simp: warn_world_def dest!: on_world_flights split: prod.splits sum.splits)

lemma cleanup_admin_flights: "cleanup_admin_job_state st j s = (r, t) \<Longrightarrow> nd_flights t = nd_flights s"
  by (auto simp: cleanup_admin_job_state_def dest!: on_world_flights warn_world_flights split: prod.splits sum.splits)

lemma finish_purge_flights [simp]: "nd_flights (snd (finish_purge st name force n purged eval s)) = nd_flights s"
  by (auto simp: finish_purge_def dest!: cleanup_admin_flights split: prod.splits sum.splits)

lemma purge_flights: "nd_flights (snd (admin_purge_job st name force s)) = nd_flights s"
  by (auto simp: admin_purge_job_def Let_def dest!: on_world_flights split: prod.splits sum.splits nscale_error.splits)

lemma register_each_flights: "register_each st regs s = (r, t) \<Longrightarrow> nd_flights t = nd_flights s"
  by (induction regs arbitrary: s r) (fastforce dest!: on_world_flights split: prod.splits sum.splits)+

lemma seed_activity_flights [simp]: "nd_flights (seed_activity st ids s) = nd_flights s"
  unfolding seed_activity_def by (induction ids arbitrary: s) auto

lemma submit_flights: "nd_flights (snd (admin_submit_job st rq s)) = nd_flights s"
  by (auto simp: admin_submit_job_def dest!: on_world_flights register_each_flights
      split: prod.splits sum.splits list.splits)

lemma sync_each_flights: "sync_each st regs n m s = (r, t) \<Longrightarrow> nd_flights t = nd_flights s"
  by (induction regs arbitrary: n m s r) (fastforce dest!: on_world_flights split: prod.splits sum.splits)+

lemma sync_flights: "nd_flights (snd (admin_sync st regs s)) = nd_flights s"
  by (auto simp: admin_sync_def dest!: sync_each_flights split: prod.splits)

lemma register_flights: "nd_flights (snd (admin_register st reg s)) = nd_flights s"
  by (auto simp: admin_register_def dest!: on_world_flights split: prod.splits sum.splits)

lemma readyz_flights: "nd_flights (snd (readyz st s)) = nd_flights s"
  by (auto simp: readyz_def dest!: on_world_flights split: prod.splits sum.splits)

lemmas op_flights = tick_flights handle_event_flights purge_flights submit_flights sync_flights register_flights readyz_flights

subsection \<open>The counters count the tunnels\<close>

definition tunnels_ok :: "'w system \<Rightarrow> bool" where
  "tunnels_ok s \<longleftrightarrow> (\<exists>hs. sys_tunnels s = map fst hs \<and> fl.consistent (nd_flights (sys_node s), hs))"

text \<open>The open tunnels of a job.\<close>

definition tunnels_of :: "string \<Rightarrow> 'w system \<Rightarrow> in_flight_guard list" where
  "tunnels_of k s = filter (\<lambda>g. guards_job (nd_flights (sys_node s)) g k) (sys_tunnels s)"

lemma served_consistent:
  assumes "flights_served f tunnel f'" and "fl.consistent (f, hs)"
  shows "\<exists>hs'. map fst hs' = map fst hs @ (case tunnel of None \<Rightarrow> [] | Some g \<Rightarrow> [g]) \<and> fl.consistent (f', hs')"
proof -
  consider "tunnel = None" "f' = f" | j g f1 where "track j f = (g, f1)" "tunnel = None" "f' = drop_guard g f1"
    | j g f1 where "track j f = (g, f1)" "tunnel = Some g" "f' = f1"
    using assms(1) by (auto simp: flights_served_def)
  then show ?thesis
  proof cases
    case 1
    then show ?thesis using assms(2) by auto
  next
    case (2 j g f1)
    from fl.consistent_release [OF fl.consistent_take [OF assms(2) 2(1)], of "length hs"] 2 show ?thesis
      by (auto simp: nth_append)
  next
    case (3 j g f1)
    from fl.consistent_take [OF assms(2) 3(1)] 3 show ?thesis by (intro exI [of _ "hs @ [(g, j)]"]) simp
  qed
qed

lemma tunnels_ok_serve:
  assumes "tunnels_ok s" and "as_wake st = node_ensure_running env"
  shows "tunnels_ok (serve_step st req s)"
proof -
  obtain resp tunnel n where v: "serve st req (sys_node s) = ((resp, tunnel), n)" by (metis prod.exhaust)
  from assms(1) served_consistent [OF alone.serve_flights [OF assms(2) v]] show ?thesis
    by (auto simp: tunnels_ok_def serve_step_def v) metis
qed

lemma tunnels_ok_close: "tunnels_ok s \<Longrightarrow> tunnels_ok (close_step i s)"
proof -
  assume ok: "tunnels_ok s"
  then obtain hs where hs: "sys_tunnels s = map fst hs" "fl.consistent (nd_flights (sys_node s), hs)"
    by (auto simp: tunnels_ok_def)
  show ?thesis
  proof (cases "i < length hs")
    case True
    with fl.consistent_release [OF hs(2) True] hs(1) show ?thesis
      by (auto simp: tunnels_ok_def close_step_def tunnel_closed_def node_drop_def take_map drop_map
          intro!: exI [of _ "take i hs @ drop (Suc i) hs"])
  qed (use ok hs(1) in \<open>simp add: close_step_def\<close>)
qed

lemma tunnels_ok_frame:
  "tunnels_ok s \<Longrightarrow> nd_flights (sys_node t) = nd_flights (sys_node s) \<Longrightarrow> sys_tunnels t = sys_tunnels s \<Longrightarrow> tunnels_ok t"
  by (simp add: tunnels_ok_def)

lemma boot_app: "boot rt cfg w = Inr (p, n) \<Longrightarrow> as_wake (ps_app p) = node_ensure_running (wake_env_of rt cfg) \<and> nd_flights n = tracker_new"
  by (auto simp: boot_def process_of_def app_of_def node_of_def split: prod.splits sum.splits)

lemma process_inv:
  "process_reachable rt cfg p s \<Longrightarrow> as_wake (ps_app p) = node_ensure_running (wake_env_of rt cfg) \<and> tunnels_ok s"
proof (induction rule: process_reachable.induct)
  case (start w p n)
  have "fl.consistent (tracker_new, [])" by (simp add: fl.consistent_def fl.new_wf fl.new_counted)
  with boot_app [OF start] show ?case by (auto simp: tunnels_ok_def ep_new_def)
next
  case (step p s op)
  show ?case
  proof (cases op)
    case (ServeRequest req)
    then show ?thesis using step.IH by (auto intro: tunnels_ok_serve)
  next
    case (CloseTunnel i)
    then show ?thesis using step.IH by (auto intro: tunnels_ok_close)
  qed (use step.IH in \<open>auto elim!: tunnels_ok_frame simp: on_node_def op_flights\<close>)
qed

lemma count_tunnels:
  assumes "tunnels_ok s"
  shows "count k (nd_flights (sys_node s)) = of_nat (length (tunnels_of k s))"
proof -
  let ?f = "nd_flights (sys_node s)"
  obtain hs where hs: "sys_tunnels s = map fst hs" "fl.consistent (?f, hs)"
    using assms by (auto simp: tunnels_ok_def)
  have "guards_job ?f (fst h) k \<longleftrightarrow> snd h = k" if "h \<in> set hs" for h
    using hs(2) that by (fastforce simp: fl.consistent_def guards_job_def tracker_wf_def)
  then have "filter (\<lambda>h. guards_job ?f (fst h) k) hs = filter (\<lambda>h. snd h = k) hs" by (rule filter_cong [OF refl])
  then show ?thesis using hs by (simp add: tunnels_of_def fl.consistent_def filter_map comp_def)
qed

lemma unat_count_tunnels:
  assumes "tunnels_ok s" and "length (sys_tunnels s) < 2 ^ 64"
  shows "unat (count k (nd_flights (sys_node s))) = length (tunnels_of k s)"
proof -
  have "length (tunnels_of k s) \<le> length (sys_tunnels s)" by (simp add: tunnels_of_def)
  then have "length (tunnels_of k s) < 2 ^ 64" using assms(2) by linarith
  then show ?thesis using count_tunnels [OF assms(1)] by (simp add: unsigned_of_nat take_bit_nat_eq_self)
qed

subsection \<open>A run of the process\<close>

definition demo_process :: "mem_node process" where
  "demo_process = process_of demo_runtime default_config (mem_store ''n1'') (registry_new mem_redis demo_codec)"

definition demo_start :: "mem_node system" where
  "demo_start = \<lparr>sys_events = ep_new (node_of default_config (node_empty\<lparr>m_now := 2 * 10 ^ 9\<rparr>)), sys_tunnels = []\<rparr>"

definition demo_upgrade :: proxy_request where
  "demo_upgrade = \<lparr>pr_method = ''GET'', pr_path = Some ''/live'',
     pr_headers = [(''host'', ''web.example.com''), (''connection'', ''Upgrade''), (''upgrade'', ''websocket'')], pr_body = []\<rparr>"

lemma demo_boots:
  "boot demo_runtime default_config node_empty =
     Inr (demo_process, node_of default_config (node_empty\<lparr>m_now := 2 * 10 ^ 9\<rparr>))"
proof -
  have "rt_codec demo_runtime = demo_codec" "\<not> durable_enabled (registry_cfg default_config)"
    "act_client (mem_store ''n1'' :: mem_node redis_activity_store) = mem_redis"
    by (simp_all add: demo_runtime_def default_config_def default_registry_def mem_store_def)
  then show ?thesis by (simp add: boot_def demo_connect build_registry_def demo_process_def io_return_def)
qed

lemma demo_boot: "process_reachable demo_runtime default_config demo_process demo_start"
  using process_reachable.start [OF demo_boots] by (simp add: demo_start_def)

lemma demo_upgrade_reads:
  "request_job demo_upgrade = Some (JobId ''web'')" "header_get ''host'' (pr_headers demo_upgrade) = Some ''web.example.com''"
  "to_str ''web.example.com'' = Some ''web.example.com''" "first_label ''web.example.com'' = ''web''"
  "is_websocket_upgrade demo_upgrade"
  by code_simp+

text \<open>The job is registered, woken and asked for an upgrade.\<close>

definition demo_cached :: "mem_node \<Rightarrow> bool" where
  "demo_cached w \<longleftrightarrow>
     m_hash w = [((REGISTRY_BY_SERVICE_KEY, ''web''), shop_code), ((REGISTRY_BY_JOB_KEY, ''shop''), shop_code)]"

lemma demo_register_step:
  assumes "m_hash (nd_world s) = []"
  shows "demo_cached (nd_world (snd (admin_register (ps_admin demo_process) shop s)))"
    and "nd_coord (snd (admin_register (ps_admin demo_process) shop s)) = nd_coord s"
  using assms
  by (simp_all add: admin_register_def demo_process_def process_of_def admin_of_def registry_run registry_new_def on_world_def
      try_world_def redis_activity_impl_def redis_record_activity_def mem_store_def demo_cached_def)

lemma demo_lookup: "demo_cached w \<Longrightarrow> get (registry_new mem_redis demo_codec) (JobId ''web'') w = (Inr (Some shop), w)"
  by (simp add: registry_run registry_new_def demo_cached_def)

lemma demo_scale_up: "nomad_scale_up (nomad_of demo_runtime cfg) j g n w = (Inr (), w)"
  by (simp add: nomad_scale_up_def nomad_send_def nomad_of_def nomad_client_new_def demo_runtime_def ok_http_def
      io_bind_def io_map_err_def io_return_def io_lift_def is_success_def resp_json_def Let_def)

lemma demo_wait:
  "0 < timeout \<Longrightarrow> wait_for_healthy_service (consul_of demo_runtime cfg) sn timeout w = Some (Inr \<lparr>host = ''10.0.0.9'', port = 80\<rparr>, w)"
  by (simp add: wait_for_healthy_service_def wait_loop.simps consul_of_def consul_new_def demo_runtime_def ok_http_def
      health_query_def consul_send_def io_map_err_def io_return_def Let_def is_success_def resp_json_def is_real_def
      entry_endpoint_def endpoint_new_def)

lemma demo_wake:
  assumes "nd_coord s = coordinator_of default_config"
  shows "\<exists>c. as_wake (ps_app demo_process) shop s = (Inr \<lparr>host = ''10.0.0.9'', port = 80\<rparr>, s\<lparr>nd_coord := c\<rparr>)"
proof -
  have c: "coordinator_of default_config = coordinator_new 50 60"
    by (simp add: coordinator_of_def default_config_def default_scaling_def)
  have t: "run_wake_task (wake_env_of demo_runtime default_config) shop c w = (Inr \<lparr>host = ''10.0.0.9'', port = 80\<rparr>, w)"
    if "\<not> sem_closed c" "wake_timeout c = 60" for c w
    using that by (simp add: run_wake_task_def wake_env_of_def nomad_orchestrator_def demo_scale_up consul_discovery_def
        demo_wait timeout_of_def nanos_per_sec_def io_bind_def)
  show ?thesis
    by (simp add: demo_process_def process_of_def app_of_def node_ensure_running_def ensure_running_def assms c
        coordinator_new_def entry_state_def state_defs try_start_wake_def wake_and_wait_def t put_state_def
        timeout_of_def nanos_per_sec_def broadcast_of_def settle_def Let_def) blast
qed

lemma demo_serve_upgrade:
  assumes "demo_cached (nd_world s)" and "nd_coord s = coordinator_of default_config"
  shows "\<exists>resp g t f. serve (ps_app demo_process) demo_upgrade s = ((resp, Some g), t) \<and>
     track ''shop'' (nd_flights s) = (g, f) \<and> nd_flights t = f"
proof -
  let ?st = "ps_app demo_process" and ?e = "\<lparr>host = ''10.0.0.9'', port = 80\<rparr>"
  define s1 where "s1 = record_for (as_store ?st) (request_job demo_upgrade) s"
  have s1: "demo_cached (nd_world s1)" "nd_coord s1 = coordinator_of default_config" "nd_flights s1 = nd_flights s"
    using assms
    by (simp_all add: s1_def record_for_def demo_upgrade_reads demo_process_def process_of_def app_of_def redis_activity_impl_def
        redis_record_activity_def mem_store_def mem_redis_def io_map_err_def io_bind_def io_return_def demo_cached_def)
  have l: "on_world (get (as_registry ?st) (JobId ''web'')) s1 = (Inr (Some shop), s1)"
    using demo_lookup [OF s1(1)] by (simp add: on_world_def demo_process_def process_of_def app_of_def)
  obtain c where w: "as_wake ?st shop s1 = (Inr ?e, s1\<lparr>nd_coord := c\<rparr>)" using demo_wake [OF s1(2)] by blast
  define s2 where "s2 = proxy_clear_missing ?st (job_id shop) (s1\<lparr>nd_coord := c\<rparr>)"
  have f2: "nd_flights s2 = nd_flights s" by (simp add: s2_def s1(3))
  obtain g f where g: "track ''shop'' (nd_flights s) = (g, f)" by force
  have u: "on_world (forward_websocket_upgrade (as_client ?st) ?e demo_upgrade) t =
      (Inr (\<lparr>br_status = 101, br_headers = [], br_body = []\<rparr>, True), t)" for t
    by (simp add: on_world_def forward_websocket_upgrade_def demo_process_def process_of_def app_of_def demo_runtime_def
        io_bind_def io_map_err_def io_return_def)
  have "proxy_tracked ?st shop ?e demo_upgrade s2 =
      ((Forwarded \<lparr>br_status = 101, br_headers = [], br_body = []\<rparr>, Some g), s2\<lparr>nd_flights := f\<rparr>)"
    using g f2 by (simp add: proxy_tracked_def node_track_def demo_upgrade_reads u shop_def)
  then have "proxy_handler ?st demo_upgrade s1 =
      ((Forwarded \<lparr>br_status = 101, br_headers = [], br_body = []\<rparr>, Some g), s2\<lparr>nd_flights := f\<rparr>)"
    by (simp add: proxy_handler_def demo_upgrade_reads l w s2_def)
  then show ?thesis using g by (simp add: serve_def activity_service_def s1_def)
qed

lemma demo_tunnel_open:
  "\<exists>s. process_reachable demo_runtime default_config demo_process s \<and> length (sys_tunnels s) = 1 \<and>
     length (tunnels_of ''shop'' s) = 1"
proof -
  define s where "s = process_step demo_process (RegisterJob shop) demo_start"
  have r: "process_reachable demo_runtime default_config demo_process s"
    unfolding s_def by (rule process_reachable.step [OF demo_boot])
  have "m_hash (nd_world (sys_node demo_start)) = []" "nd_coord (sys_node demo_start) = coordinator_of default_config"
    by (simp_all add: demo_start_def ep_new_def node_of_def node_empty_def)
  with demo_register_step [of "sys_node demo_start"]
  have s: "demo_cached (nd_world (sys_node s))" "nd_coord (sys_node s) = coordinator_of default_config" "sys_tunnels s = []"
    by (simp_all add: s_def on_node_def demo_start_def)
  from demo_serve_upgrade [OF s(1,2)] obtain resp g t f where
    v: "serve (ps_app demo_process) demo_upgrade (sys_node s) = ((resp, Some g), t)"
      "track ''shop'' (nd_flights (sys_node s)) = (g, f)" "nd_flights t = f" by blast
  let ?t = "process_step demo_process (ServeRequest demo_upgrade) s"
  have "tracker_wf (nd_flights (sys_node s))" using process_inv [OF r] by (auto simp: tunnels_ok_def fl.consistent_def)
  then have "guards_job f g ''shop''" using fl.take_owns v(2) by blast
  then have "sys_tunnels ?t = [g]" "tunnels_of ''shop'' ?t = [g]"
    using v s(3) by (simp_all add: serve_step_def tunnels_of_def)
  with process_reachable.step [OF r, of "ServeRequest demo_upgrade"] show ?thesis by (metis length_Cons list.size(3) One_nat_def)
qed

end
