(* ===== verification/Config_Load.thy ===== *)
theory Config_Load
  imports Config
begin

text \<open>
  \<^verbatim>\<open>Config::load\<close> of \<^verbatim>\<open>crates/nscale-core/src/config.rs\<close>: the built-in configuration, the file
  \<^verbatim>\<open>config/default.toml\<close> and the environment, merged in this order and read back into the records
  with the serde attributes of the source.

  Figment is a parameter: the settings its providers find, the merge, and the parser of socket addresses.
  A setting is a path of keys and a typed value. What is relied on is the documented behaviour of
  \<^verbatim>\<open>merge\<close>: the value of the later provider counts, setting by setting.
\<close>

datatype cfg_value = CStr string | CNum nat | CBool bool

type_synonym settings = "(string list \<times> cfg_value) list"

record figment =
  fg_toml_nested :: "string \<Rightarrow> string + settings"
  fg_env_split :: "string \<Rightarrow> string \<Rightarrow> settings"
  fg_merge :: "settings \<Rightarrow> settings \<Rightarrow> settings"
  fg_addr :: "string \<Rightarrow> (string \<times> u16) option"

subsection \<open>Reading a field\<close>

fun as_string :: "cfg_value \<Rightarrow> string option" where
  "as_string (CStr s) = Some s"
| "as_string _ = None"

fun as_bool :: "cfg_value \<Rightarrow> bool option" where
  "as_bool (CBool b) = Some b"
| "as_bool _ = None"

fun as_u64 :: "cfg_value \<Rightarrow> u64 option" where
  "as_u64 (CNum n) = (if n < 2 ^ 64 then Some (of_nat n) else None)"
| "as_u64 _ = None"

fun as_u32 :: "cfg_value \<Rightarrow> u32 option" where
  "as_u32 (CNum n) = (if n < 2 ^ 32 then Some (of_nat n) else None)"
| "as_u32 _ = None"

definition as_addr :: "figment \<Rightarrow> cfg_value \<Rightarrow> (string \<times> u16) option" where
  "as_addr fg v = Option.bind (as_string v) (fg_addr fg)"

text \<open>The error names the key, and whether it is missing or has the wrong type.\<close>

datatype config_error =
    MissingField "string list"
  | InvalidType "string list"
  | FileError string

text \<open>A field without a default is required; \<^verbatim>\<open>#[serde(default)]\<close> supplies one.\<close>

definition required :: "(cfg_value \<Rightarrow> 'a option) \<Rightarrow> settings \<Rightarrow> string list \<Rightarrow> config_error + 'a" where
  "required dec st p =
     (case map_of st p of
        None \<Rightarrow> Inl (MissingField p)
      | Some v \<Rightarrow> (case dec v of None \<Rightarrow> Inl (InvalidType p) | Some x \<Rightarrow> Inr x))"

definition with_default :: "'a \<Rightarrow> (cfg_value \<Rightarrow> 'a option) \<Rightarrow> settings \<Rightarrow> string list \<Rightarrow> config_error + 'a" where
  "with_default d dec st p = (if map_of st p = None then Inr d else required dec st p)"

definition optional :: "(cfg_value \<Rightarrow> 'a option) \<Rightarrow> settings \<Rightarrow> string list \<Rightarrow> config_error + 'a option" where
  "optional dec st p = with_default None (\<lambda>v. map_option Some (dec v)) st p"

definition and_then :: "'e + 'a \<Rightarrow> ('a \<Rightarrow> 'e + 'b) \<Rightarrow> 'e + 'b" where
  "and_then r f = (case r of Inl e \<Rightarrow> Inl e | Inr x \<Rightarrow> f x)"

text \<open>A field that is itself a record is required: some setting must be below its key.\<close>

definition has_section :: "settings \<Rightarrow> string \<Rightarrow> bool" where
  "has_section st k = list_ex (\<lambda>(p, _). take 1 p = [k]) st"

definition required_section :: "settings \<Rightarrow> string \<Rightarrow> (settings \<Rightarrow> config_error + 'a) \<Rightarrow> config_error + 'a" where
  "required_section st k read = (if has_section st k then read st else Inl (MissingField [k]))"

subsection \<open>The records\<close>

definition read_nomad :: "settings \<Rightarrow> config_error + nomad_config" where
  "read_nomad st =
     and_then (required as_string st [''nomad'', ''addr'']) (\<lambda>a.
     and_then (optional as_string st [''nomad'', ''token'']) (\<lambda>t.
     and_then (with_default 50 as_u64 st [''nomad'', ''concurrency'']) (\<lambda>n.
       Inr \<lparr>nomad_addr = a, nomad_token = t, concurrency = n\<rparr>)))"

definition read_consul :: "settings \<Rightarrow> config_error + consul_config" where
  "read_consul st =
     and_then (required as_string st [''consul'', ''addr'']) (\<lambda>a.
     and_then (optional as_string st [''consul'', ''token'']) (\<lambda>t.
       Inr \<lparr>consul_addr = a, consul_token = t\<rparr>))"

definition read_redis :: "settings \<Rightarrow> config_error + redis_config" where
  "read_redis st = and_then (required as_string st [''redis'', ''url'']) (\<lambda>u. Inr \<lparr>redis_url = u\<rparr>)"

definition read_registry :: "settings \<Rightarrow> config_error + registry_config" where
  "read_registry st =
     and_then (with_default False as_bool st [''registry'', ''durable_enabled'']) (\<lambda>d.
     and_then (with_default ''http://localhost:2379'' as_string st [''registry'', ''etcd_endpoints'']) (\<lambda>e.
     and_then (with_default ''/nscale/registrations'' as_string st [''registry'', ''etcd_key_prefix'']) (\<lambda>k.
     and_then (with_default 5 as_u64 st [''registry'', ''etcd_watch_backoff_secs'']) (\<lambda>b.
       Inr \<lparr>durable_enabled = d, etcd_endpoints = e, etcd_key_prefix = k, etcd_watch_backoff_secs = b\<rparr>))))"

definition read_auto_deregister :: "settings \<Rightarrow> config_error + auto_deregister_config" where
  "read_auto_deregister st =
     and_then (with_default True as_bool st [''scaling'', ''auto_deregister'', ''enabled'']) (\<lambda>e.
     and_then (with_default 5 as_u32 st [''scaling'', ''auto_deregister'', ''not_found_threshold'']) (\<lambda>n.
       Inr \<lparr>auto_enabled = e, not_found_threshold = n\<rparr>))"

definition read_scaling :: "settings \<Rightarrow> config_error + scaling_config" where
  "read_scaling st =
     and_then (with_default 300 as_u64 st [''scaling'', ''idle_timeout_secs'']) (\<lambda>i.
     and_then (with_default 60 as_u64 st [''scaling'', ''wake_timeout_secs'']) (\<lambda>w.
     and_then (with_default 30 as_u64 st [''scaling'', ''scale_down_interval_secs'']) (\<lambda>s.
     and_then (with_default 120 as_u64 st [''scaling'', ''min_scale_down_age_secs'']) (\<lambda>m.
     and_then (read_auto_deregister st) (\<lambda>a.
       Inr \<lparr>idle_timeout_secs = i, wake_timeout_secs = w, scale_down_interval_secs = s,
            min_scale_down_age_secs = m, auto_deregister = a\<rparr>)))))"

definition read_proxy :: "settings \<Rightarrow> config_error + proxy_config" where
  "read_proxy st =
     and_then (with_default 30 as_u64 st [''proxy'', ''request_timeout_secs'']) (\<lambda>t.
     and_then (with_default 1000 as_u64 st [''proxy'', ''request_buffer_size'']) (\<lambda>b.
       Inr \<lparr>request_timeout_secs = t, request_buffer_size = b\<rparr>))"

definition read_routing :: "settings \<Rightarrow> config_error + routing_config" where
  "read_routing st =
     and_then (with_default ''s2z-nscale@file'' as_string st [''routing'', ''file_provider_service'']) (\<lambda>f.
       Inr \<lparr>file_provider_service = f\<rparr>)"

text \<open>The probe is configured when there is any setting for it; then its URL is required.\<close>

definition read_traefik :: "settings \<Rightarrow> config_error + traefik_config option" where
  "read_traefik st =
     (if has_section st ''traefik'' then
        and_then (required as_string st [''traefik'', ''metrics_url'']) (\<lambda>u.
        and_then (with_default ''consulcatalog'' as_string st [''traefik'', ''provider'']) (\<lambda>p.
          Inr (Some \<lparr>metrics_url = u, provider = p\<rparr>)))
      else Inr None)"

definition read_config :: "figment \<Rightarrow> settings \<Rightarrow> config_error + config" where
  "read_config fg st =
     and_then (required (as_addr fg) st [''listen_addr'']) (\<lambda>l.
     and_then (required (as_addr fg) st [''admin_addr'']) (\<lambda>a.
     and_then (required_section st ''nomad'' read_nomad) (\<lambda>n.
     and_then (required_section st ''consul'' read_consul) (\<lambda>c.
     and_then (required_section st ''redis'' read_redis) (\<lambda>r.
     and_then (required_section st ''scaling'' read_scaling) (\<lambda>s.
     and_then (required_section st ''proxy'' read_proxy) (\<lambda>p.
     and_then (read_registry st) (\<lambda>g.
     and_then (read_routing st) (\<lambda>f.
     and_then (read_traefik st) (\<lambda>t.
       Inr \<lparr>listen_addr = l, admin_addr = a, nomad_cfg = n, consul_cfg = c, redis_cfg = r, scaling_cfg = s,
            proxy_cfg = p, registry_cfg = g, routing_cfg = f, traefik_cfg = t\<rparr>))))))))))"

subsection \<open>Writing and loading\<close>

definition addr_text :: "string \<times> u16 \<Rightarrow> string" where
  "addr_text a = fst a @ '':'' @ show_nat (unat (snd a))"

definition optional_setting :: "string list \<Rightarrow> string option \<Rightarrow> settings" where
  "optional_setting p v = (case v of None \<Rightarrow> [] | Some s \<Rightarrow> [(p, CStr s)])"

text \<open>\<^verbatim>\<open>Serialized::defaults\<close>: the settings of a configuration, field by field.\<close>

definition settings_of :: "config \<Rightarrow> settings" where
  "settings_of c =
     [([''listen_addr''], CStr (addr_text (listen_addr c))), ([''admin_addr''], CStr (addr_text (admin_addr c))),
      ([''nomad'', ''addr''], CStr (nomad_addr (nomad_cfg c))),
      ([''nomad'', ''concurrency''], CNum (unat (concurrency (nomad_cfg c)))),
      ([''consul'', ''addr''], CStr (consul_addr (consul_cfg c))), ([''redis'', ''url''], CStr (redis_url (redis_cfg c))),
      ([''scaling'', ''idle_timeout_secs''], CNum (unat (idle_timeout_secs (scaling_cfg c)))),
      ([''scaling'', ''wake_timeout_secs''], CNum (unat (wake_timeout_secs (scaling_cfg c)))),
      ([''scaling'', ''scale_down_interval_secs''], CNum (unat (scale_down_interval_secs (scaling_cfg c)))),
      ([''scaling'', ''min_scale_down_age_secs''], CNum (unat (min_scale_down_age_secs (scaling_cfg c)))),
      ([''scaling'', ''auto_deregister'', ''enabled''], CBool (auto_enabled (auto_deregister (scaling_cfg c)))),
      ([''scaling'', ''auto_deregister'', ''not_found_threshold''],
        CNum (unat (not_found_threshold (auto_deregister (scaling_cfg c))))),
      ([''proxy'', ''request_timeout_secs''], CNum (unat (request_timeout_secs (proxy_cfg c)))),
      ([''proxy'', ''request_buffer_size''], CNum (unat (request_buffer_size (proxy_cfg c)))),
      ([''registry'', ''durable_enabled''], CBool (durable_enabled (registry_cfg c))),
      ([''registry'', ''etcd_endpoints''], CStr (etcd_endpoints (registry_cfg c))),
      ([''registry'', ''etcd_key_prefix''], CStr (etcd_key_prefix (registry_cfg c))),
      ([''registry'', ''etcd_watch_backoff_secs''], CNum (unat (etcd_watch_backoff_secs (registry_cfg c)))),
      ([''routing'', ''file_provider_service''], CStr (file_provider_service (routing_cfg c)))]
     @ optional_setting [''nomad'', ''token''] (nomad_token (nomad_cfg c))
     @ optional_setting [''consul'', ''token''] (consul_token (consul_cfg c))
     @ (case traefik_cfg c of
          None \<Rightarrow> []
        | Some t \<Rightarrow> [([''traefik'', ''metrics_url''], CStr (metrics_url t)), ([''traefik'', ''provider''], CStr (provider t))])"

definition load :: "figment \<Rightarrow> config_error + config" where
  "load fg =
     (case fg_toml_nested fg ''config/default.toml'' of
        Inl e \<Rightarrow> Inl (FileError e)
      | Inr file \<Rightarrow>
          read_config fg (fg_merge fg (fg_merge fg (settings_of default_config) file) (fg_env_split fg ''NSCALE_'' ''__'')))"

subsection \<open>Where a setting comes from\<close>

lemma and_then_Inr: "and_then r f = Inr y \<longleftrightarrow> (\<exists>x. r = Inr x \<and> f x = Inr y)"
  by (cases r) (simp_all add: and_then_def)

lemma required_section_Inr: "required_section st k f = Inr x \<longleftrightarrow> has_section st k \<and> f st = Inr x"
  by (simp add: required_section_def)

lemma required_Inr: "required dec st p = Inr x \<longleftrightarrow> (\<exists>v. map_of st p = Some v \<and> dec v = Some x)"
  by (auto simp: required_def split: option.splits)

lemma with_default_Inr:
  "with_default d dec st p = Inr x \<longleftrightarrow>
     (map_of st p = None \<and> x = d) \<or> (\<exists>v. map_of st p = Some v \<and> dec v = Some x)"
  by (auto simp: with_default_def required_Inr)

lemma as_Some:
  "as_string v = Some s \<longleftrightarrow> v = CStr s" "as_bool v = Some b \<longleftrightarrow> v = CBool b"
  "as_u64 v = Some x \<longleftrightarrow> v = CNum (unat x)" "as_u32 v = Some y \<longleftrightarrow> v = CNum (unat y)"
proof -
  show "as_string v = Some s \<longleftrightarrow> v = CStr s" "as_bool v = Some b \<longleftrightarrow> v = CBool b" by (cases v; auto)+
  show "as_u64 v = Some x \<longleftrightarrow> v = CNum (unat x)"
    using unsigned_less [of x] by (cases v) (auto simp: unsigned_of_nat take_bit_nat_eq_self)
  show "as_u32 v = Some y \<longleftrightarrow> v = CNum (unat y)"
    using unsigned_less [of y] by (cases v) (auto simp: unsigned_of_nat take_bit_nat_eq_self)
qed

lemma optional_Inr: "optional as_string st p = Inr x \<longleftrightarrow> map_of st p = map_option CStr x"
  by (cases x) (auto simp: optional_def with_default_Inr as_Some)

lemma given:
  "with_default d as_string st p = Inr x \<Longrightarrow> map_of st p \<noteq> None \<Longrightarrow> map_of st p = Some (CStr x)"
  "with_default b as_bool st p = Inr c \<Longrightarrow> map_of st p \<noteq> None \<Longrightarrow> map_of st p = Some (CBool c)"
  "with_default n as_u64 st p = Inr m \<Longrightarrow> map_of st p \<noteq> None \<Longrightarrow> map_of st p = Some (CNum (unat m))"
  "with_default i as_u32 st p = Inr j \<Longrightarrow> map_of st p \<noteq> None \<Longrightarrow> map_of st p = Some (CNum (unat j))"
  by (auto simp: with_default_Inr as_Some)

lemmas read_Inr = and_then_Inr required_Inr with_default_Inr optional_Inr as_Some

text \<open>The settings that every configuration has, apart from the two addresses, and the optional ones.\<close>

definition plain_paths :: "string list list" where
  "plain_paths = [[''nomad'', ''addr''], [''nomad'', ''concurrency''], [''consul'', ''addr''], [''redis'', ''url''],
     [''scaling'', ''idle_timeout_secs''], [''scaling'', ''wake_timeout_secs''], [''scaling'', ''scale_down_interval_secs''],
     [''scaling'', ''min_scale_down_age_secs''], [''scaling'', ''auto_deregister'', ''enabled''],
     [''scaling'', ''auto_deregister'', ''not_found_threshold''], [''proxy'', ''request_timeout_secs''],
     [''proxy'', ''request_buffer_size''], [''registry'', ''durable_enabled''], [''registry'', ''etcd_endpoints''],
     [''registry'', ''etcd_key_prefix''], [''registry'', ''etcd_watch_backoff_secs''], [''routing'', ''file_provider_service'']]"

definition optional_paths :: "string list list" where
  "optional_paths = [[''nomad'', ''token''], [''consul'', ''token''], [''traefik'', ''metrics_url'']]"

lemma default_has: "p \<in> set plain_paths \<Longrightarrow> map_of (settings_of default_config) p \<noteq> None"
  by (auto simp: plain_paths_def settings_of_def)

lemma read_nomad_settings:
  assumes "read_nomad st = Inr n"
  shows "map_of st [''nomad'', ''addr''] = Some (CStr (nomad_addr n))"
    "map_of st [''nomad'', ''concurrency''] \<noteq> None \<Longrightarrow>
       map_of st [''nomad'', ''concurrency''] = Some (CNum (unat (concurrency n)))"
    "map_of st [''nomad'', ''token''] = map_option CStr (nomad_token n)"
  using assms by (auto simp: read_nomad_def read_Inr)

lemma read_consul_settings:
  assumes "read_consul st = Inr c"
  shows "map_of st [''consul'', ''addr''] = Some (CStr (consul_addr c))"
    "map_of st [''consul'', ''token''] = map_option CStr (consul_token c)"
  using assms by (auto simp: read_consul_def read_Inr)

lemma read_registry_settings:
  assumes "read_registry st = Inr c"
  shows "map_of st [''registry'', ''durable_enabled''] \<noteq> None \<Longrightarrow>
       map_of st [''registry'', ''durable_enabled''] = Some (CBool (durable_enabled c))"
    "map_of st [''registry'', ''etcd_endpoints''] \<noteq> None \<Longrightarrow>
       map_of st [''registry'', ''etcd_endpoints''] = Some (CStr (etcd_endpoints c))"
    "map_of st [''registry'', ''etcd_key_prefix''] \<noteq> None \<Longrightarrow>
       map_of st [''registry'', ''etcd_key_prefix''] = Some (CStr (etcd_key_prefix c))"
    "map_of st [''registry'', ''etcd_watch_backoff_secs''] \<noteq> None \<Longrightarrow>
       map_of st [''registry'', ''etcd_watch_backoff_secs''] = Some (CNum (unat (etcd_watch_backoff_secs c)))"
  using assms by (auto simp: read_registry_def and_then_Inr dest: given)

lemma read_scaling_settings:
  assumes "read_scaling st = Inr c"
  shows "map_of st [''scaling'', ''idle_timeout_secs''] \<noteq> None \<Longrightarrow>
       map_of st [''scaling'', ''idle_timeout_secs''] = Some (CNum (unat (idle_timeout_secs c)))"
    "map_of st [''scaling'', ''wake_timeout_secs''] \<noteq> None \<Longrightarrow>
       map_of st [''scaling'', ''wake_timeout_secs''] = Some (CNum (unat (wake_timeout_secs c)))"
    "map_of st [''scaling'', ''scale_down_interval_secs''] \<noteq> None \<Longrightarrow>
       map_of st [''scaling'', ''scale_down_interval_secs''] = Some (CNum (unat (scale_down_interval_secs c)))"
    "map_of st [''scaling'', ''min_scale_down_age_secs''] \<noteq> None \<Longrightarrow>
       map_of st [''scaling'', ''min_scale_down_age_secs''] = Some (CNum (unat (min_scale_down_age_secs c)))"
    "map_of st [''scaling'', ''auto_deregister'', ''enabled''] \<noteq> None \<Longrightarrow>
       map_of st [''scaling'', ''auto_deregister'', ''enabled''] = Some (CBool (auto_enabled (auto_deregister c)))"
    "map_of st [''scaling'', ''auto_deregister'', ''not_found_threshold''] \<noteq> None \<Longrightarrow>
       map_of st [''scaling'', ''auto_deregister'', ''not_found_threshold'']
         = Some (CNum (unat (not_found_threshold (auto_deregister c))))"
  using assms by (auto simp: read_scaling_def read_auto_deregister_def and_then_Inr dest: given)

lemma read_proxy_settings:
  assumes "read_proxy st = Inr c"
  shows "map_of st [''proxy'', ''request_timeout_secs''] \<noteq> None \<Longrightarrow>
       map_of st [''proxy'', ''request_timeout_secs''] = Some (CNum (unat (request_timeout_secs c)))"
    "map_of st [''proxy'', ''request_buffer_size''] \<noteq> None \<Longrightarrow>
       map_of st [''proxy'', ''request_buffer_size''] = Some (CNum (unat (request_buffer_size c)))"
  using assms by (auto simp: read_proxy_def and_then_Inr dest: given)

lemma read_routing_settings:
  assumes "read_routing st = Inr c"
  shows "map_of st [''routing'', ''file_provider_service''] \<noteq> None \<Longrightarrow>
       map_of st [''routing'', ''file_provider_service''] = Some (CStr (file_provider_service c))"
  using assms by (auto simp: read_routing_def and_then_Inr dest: given)

lemma read_traefik_settings:
  assumes "read_traefik st = Inr c"
  shows "map_of st [''traefik'', ''metrics_url''] = map_option (\<lambda>t. CStr (metrics_url t)) c"
proof (cases "has_section st ''traefik''")
  case True
  then show ?thesis using assms by (auto simp: read_traefik_def read_Inr)
next
  case False
  then have "map_of st [''traefik'', ''metrics_url''] = None" by (force simp: has_section_def list_ex_iff map_of_eq_None_iff)
  then show ?thesis using assms False by (simp add: read_traefik_def)
qed

lemma read_config_parts:
  assumes "read_config fg st = Inr c"
  shows "read_nomad st = Inr (nomad_cfg c)" "read_consul st = Inr (consul_cfg c)" "read_redis st = Inr (redis_cfg c)"
    "read_scaling st = Inr (scaling_cfg c)" "read_proxy st = Inr (proxy_cfg c)"
    "read_registry st = Inr (registry_cfg c)" "read_routing st = Inr (routing_cfg c)"
    "read_traefik st = Inr (traefik_cfg c)"
  using assms by (auto simp: read_config_def and_then_Inr required_section_Inr)

lemma settings_of_plain:
  "map_of (settings_of c) [''nomad'', ''addr''] = Some (CStr (nomad_addr (nomad_cfg c)))"
  "map_of (settings_of c) [''nomad'', ''concurrency''] = Some (CNum (unat (concurrency (nomad_cfg c))))"
  "map_of (settings_of c) [''consul'', ''addr''] = Some (CStr (consul_addr (consul_cfg c)))"
  "map_of (settings_of c) [''redis'', ''url''] = Some (CStr (redis_url (redis_cfg c)))"
  "map_of (settings_of c) [''scaling'', ''idle_timeout_secs''] = Some (CNum (unat (idle_timeout_secs (scaling_cfg c))))"
  "map_of (settings_of c) [''scaling'', ''wake_timeout_secs''] = Some (CNum (unat (wake_timeout_secs (scaling_cfg c))))"
  "map_of (settings_of c) [''scaling'', ''scale_down_interval_secs''] =
     Some (CNum (unat (scale_down_interval_secs (scaling_cfg c))))"
  "map_of (settings_of c) [''scaling'', ''min_scale_down_age_secs''] =
     Some (CNum (unat (min_scale_down_age_secs (scaling_cfg c))))"
  "map_of (settings_of c) [''scaling'', ''auto_deregister'', ''enabled''] =
     Some (CBool (auto_enabled (auto_deregister (scaling_cfg c))))"
  "map_of (settings_of c) [''scaling'', ''auto_deregister'', ''not_found_threshold''] =
     Some (CNum (unat (not_found_threshold (auto_deregister (scaling_cfg c)))))"
  "map_of (settings_of c) [''proxy'', ''request_timeout_secs''] = Some (CNum (unat (request_timeout_secs (proxy_cfg c))))"
  "map_of (settings_of c) [''proxy'', ''request_buffer_size''] = Some (CNum (unat (request_buffer_size (proxy_cfg c))))"
  "map_of (settings_of c) [''registry'', ''durable_enabled''] = Some (CBool (durable_enabled (registry_cfg c)))"
  "map_of (settings_of c) [''registry'', ''etcd_endpoints''] = Some (CStr (etcd_endpoints (registry_cfg c)))"
  "map_of (settings_of c) [''registry'', ''etcd_key_prefix''] = Some (CStr (etcd_key_prefix (registry_cfg c)))"
  "map_of (settings_of c) [''registry'', ''etcd_watch_backoff_secs''] =
     Some (CNum (unat (etcd_watch_backoff_secs (registry_cfg c))))"
  "map_of (settings_of c) [''routing'', ''file_provider_service''] = Some (CStr (file_provider_service (routing_cfg c)))"
  "map_of (settings_of c) [''nomad'', ''token''] = map_option CStr (nomad_token (nomad_cfg c))"
  "map_of (settings_of c) [''consul'', ''token''] = map_option CStr (consul_token (consul_cfg c))"
  "map_of (settings_of c) [''traefik'', ''metrics_url''] = map_option (\<lambda>t. CStr (metrics_url t)) (traefik_cfg c)"
  by (simp_all add: settings_of_def optional_setting_def map_add_def split: option.splits)

lemma settings_of_addrs:
  "map_of (settings_of c) [''listen_addr''] = Some (CStr (addr_text (listen_addr c)))"
  "map_of (settings_of c) [''admin_addr''] = Some (CStr (addr_text (admin_addr c)))"
  by (simp_all add: settings_of_def optional_setting_def map_add_def split: option.splits)

text \<open>What was read is what was set, on the settings that are there.\<close>

lemma read_config_settings:
  assumes "read_config fg st = Inr c"
    and "p \<in> set plain_paths \<Longrightarrow> map_of st p \<noteq> None" and "p \<in> set (plain_paths @ optional_paths)"
  shows "map_of (settings_of c) p = map_of st p"
proof (cases "p \<in> set plain_paths")
  case True
  note parts = read_config_parts [OF assms(1)]
  have "map_of st p \<noteq> None" using True assms(2) by blast
  moreover have redis: "map_of st [''redis'', ''url''] = Some (CStr (redis_url (redis_cfg c)))"
    using parts(3) by (cases "redis_cfg c") (auto simp: read_redis_def read_Inr)
  note entries = redis read_nomad_settings [OF parts(1)] read_consul_settings [OF parts(2)]
    read_scaling_settings [OF parts(4)] read_proxy_settings [OF parts(5)] read_registry_settings [OF parts(6)]
    read_routing_settings [OF parts(7)]
  ultimately show ?thesis
    using True unfolding plain_paths_def list.set
    by (elim insertE emptyE; hypsubst; simp only: settings_of_plain; rule sym; rule entries; assumption)
next
  case False
  then have "p \<in> set optional_paths" using assms(3) by simp
  note parts = read_config_parts [OF assms(1)]
  show ?thesis
    using \<open>p \<in> set optional_paths\<close> read_nomad_settings(3) [OF parts(1)] read_consul_settings(2) [OF parts(2)]
      read_traefik_settings [OF parts(8)]
    unfolding optional_paths_def list.set
    by (elim insertE emptyE; hypsubst; simp only: settings_of_plain)
qed


text \<open>A deployment: the file names the Nomad server and a timeout, the environment sets the timeout and a token.\<close>

definition demo_figment :: figment where
  "demo_figment =
     \<lparr>fg_toml_nested = (\<lambda>_. Inr [([''nomad'', ''addr''], CStr ''http://nomad:4646''),
        ([''scaling'', ''idle_timeout_secs''], CNum 120)]),
      fg_env_split = (\<lambda>_ _. [([''scaling'', ''idle_timeout_secs''], CNum 600), ([''nomad'', ''token''], CStr ''secret'')]),
      fg_merge = (\<lambda>a b. b @ a),
      fg_addr = (\<lambda>s. if s = ''0.0.0.0:8080'' then Some (''0.0.0.0'', 8080) else Some (''0.0.0.0'', 9090))\<rparr>"

definition demo_loaded :: config where
  "demo_loaded = default_config
     \<lparr>nomad_cfg := \<lparr>nomad_addr = ''http://nomad:4646'', nomad_token = Some ''secret'', concurrency = 50\<rparr>,
      scaling_cfg := (scaling_cfg default_config)\<lparr>idle_timeout_secs := 600\<rparr>\<rparr>"

definition demo_settings :: settings where
  "demo_settings = fg_env_split demo_figment [] [] @
     [([''nomad'', ''addr''], CStr ''http://nomad:4646''), ([''scaling'', ''idle_timeout_secs''], CNum 120)] @
     settings_of default_config"

lemma demo_settings_at:
  "map_of demo_settings [''listen_addr''] = Some (CStr (addr_text (''0.0.0.0'', 8080)))"
  "map_of demo_settings [''admin_addr''] = Some (CStr (addr_text (''0.0.0.0'', 9090)))"
  "map_of demo_settings [''nomad'', ''addr''] = Some (CStr ''http://nomad:4646'')"
  "map_of demo_settings [''nomad'', ''concurrency''] = Some (CNum 50)"
  "map_of demo_settings [''nomad'', ''token''] = Some (CStr ''secret'')"
  "map_of demo_settings [''consul'', ''addr''] = Some (CStr ''http://localhost:8500'')"
  "map_of demo_settings [''consul'', ''token''] = None"
  "map_of demo_settings [''redis'', ''url''] = Some (CStr ''redis://localhost:6379'')"
  "map_of demo_settings [''scaling'', ''idle_timeout_secs''] = Some (CNum 600)"
  "map_of demo_settings [''scaling'', ''wake_timeout_secs''] = Some (CNum 60)"
  "map_of demo_settings [''scaling'', ''scale_down_interval_secs''] = Some (CNum 30)"
  "map_of demo_settings [''scaling'', ''min_scale_down_age_secs''] = Some (CNum 120)"
  "map_of demo_settings [''scaling'', ''auto_deregister'', ''enabled''] = Some (CBool True)"
  "map_of demo_settings [''scaling'', ''auto_deregister'', ''not_found_threshold''] = Some (CNum 5)"
  "map_of demo_settings [''proxy'', ''request_timeout_secs''] = Some (CNum 30)"
  "map_of demo_settings [''proxy'', ''request_buffer_size''] = Some (CNum 1000)"
  "map_of demo_settings [''registry'', ''durable_enabled''] = Some (CBool False)"
  "map_of demo_settings [''registry'', ''etcd_endpoints''] = Some (CStr ''http://localhost:2379'')"
  "map_of demo_settings [''registry'', ''etcd_key_prefix''] = Some (CStr ''/nscale/registrations'')"
  "map_of demo_settings [''registry'', ''etcd_watch_backoff_secs''] = Some (CNum 5)"
  "map_of demo_settings [''routing'', ''file_provider_service''] = Some (CStr ''s2z-nscale@file'')"
  by (simp_all add: demo_settings_def demo_figment_def map_add_def settings_of_plain settings_of_addrs default_config_def
      default_scaling_def default_auto_deregister_def default_registry_def default_routing_def)

lemma demo_sections:
  "has_section demo_settings ''nomad''" "has_section demo_settings ''consul''" "has_section demo_settings ''redis''"
  "has_section demo_settings ''scaling''" "has_section demo_settings ''proxy''" "\<not> has_section demo_settings ''traefik''"
  by (simp_all add: has_section_def demo_settings_def demo_figment_def settings_of_def optional_setting_def default_config_def)

lemma demo_load: "load demo_figment = Inr demo_loaded"
proof -
  have addrs: "as_addr demo_figment (CStr (addr_text (''0.0.0.0'', 8080))) = Some (''0.0.0.0'', 8080)"
    "as_addr demo_figment (CStr (addr_text (''0.0.0.0'', 9090))) = Some (''0.0.0.0'', 9090)"
    by (simp_all add: as_addr_def demo_figment_def addr_text_def show_nat.simps digit_char_def char_of_def bit_0)
  have "load demo_figment = read_config demo_figment demo_settings"
    by (simp add: load_def demo_settings_def demo_figment_def)
  also have "\<dots> = Inr demo_loaded"
    by (simp add: read_config_def and_then_def required_section_def demo_sections demo_settings_at required_def
        with_default_def optional_def addrs read_nomad_def read_consul_def read_redis_def read_scaling_def
        read_auto_deregister_def read_proxy_def read_registry_def read_routing_def read_traefik_def demo_loaded_def
        default_config_def default_scaling_def default_auto_deregister_def default_registry_def default_routing_def)
  finally show ?thesis .
qed


end
