(* ===== verification/Launch.thy ===== *)
theory Launch
  imports Process Config_Load Store_Properties
begin

text \<open>
  \<^verbatim>\<open>main\<close> from its first line to the start of the servers: the log format, \<^verbatim>\<open>Config::load\<close>, the
  connection to Redis with the identifier of the instance, the construction of the HTTP clients with their
  token headers, and the two listeners, with every way in which the process can end before it serves.
  What fails by \<^verbatim>\<open>std::process::exit\<close> and what fails by a panic are different exit codes.

  \<open>boot\<close> has the HTTP clients as parameters; a launch that comes to serve is shown to be a boot with the
  clients that were built.
\<close>

subsection \<open>The log format\<close>

datatype log_layer = JsonLayer | PrettyLayer | CompactLayer

definition log_format :: "string option \<Rightarrow> bool \<Rightarrow> string" where
  "log_format format_var terminal =
     (case format_var of Some f \<Rightarrow> f | None \<Rightarrow> if terminal then ''pretty'' else ''compact'')"

definition log_layer_of :: "string \<Rightarrow> log_layer" where
  "log_layer_of f = (if f = ''json'' then JsonLayer else if f = ''pretty'' then PrettyLayer else CompactLayer)"

definition unknown_format :: "string \<Rightarrow> bool" where
  "unknown_format f \<longleftrightarrow> f \<notin> {''compact'', ''pretty'', ''json''}"

subsection \<open>The identifier of an instance\<close>

definition hex_char :: "nat \<Rightarrow> char" where
  "hex_char d = ''0123456789abcdef'' ! d"

fun show_hex :: "nat \<Rightarrow> string" where
  "show_hex n = (if n < 16 then [hex_char n] else show_hex (n div 16) @ [hex_char (n mod 16)])"

declare show_hex.simps [simp del]

text \<open>\<^verbatim>\<open>uuid_v4_simple\<close>, from the nanoseconds since the epoch (none before it) and the process id.\<close>

definition uuid_v4_simple :: "nat option \<Rightarrow> u32 \<Rightarrow> string" where
  "uuid_v4_simple nanos pid =
     show_hex (case nanos of None \<Rightarrow> 0 | Some t \<Rightarrow> t) @ ''-'' @ show_hex (unat pid)"

definition new_instance_id :: "nat option \<Rightarrow> u32 \<Rightarrow> string" where
  "new_instance_id nanos pid = ''nscale-'' @ uuid_v4_simple nanos pid"

subsection \<open>The libraries\<close>

text \<open>
  The Redis client library: parsing a URL, building a client, and connecting it; the clock and the
  process id are the operating system's.
\<close>

record ('c, 'w) redis_library =
  rl_from_url :: "string \<Rightarrow> string + 'c"
  rl_build :: "'c \<Rightarrow> string + 'w redis"
  rl_init :: "'w redis \<Rightarrow> ('w, string, unit) io"
  rl_nanos :: "'w \<Rightarrow> nat option"
  rl_pid :: u32

text \<open>\<^verbatim>\<open>RedisActivityStore::new\<close>\<close>

definition redis_store_new :: "('c, 'w) redis_library \<Rightarrow> string \<Rightarrow> ('w, 'w redis_activity_store) call" where
  "redis_store_new lib addr =
     io_bind (io_map_err Store (io_lift (rl_from_url lib addr))) (\<lambda>cfg.
     io_bind (io_map_err Store (io_lift (rl_build lib cfg))) (\<lambda>client.
     io_bind (io_map_err Store (rl_init lib client)) (\<lambda>_ w.
       (Inr \<lparr>act_client = client, instance_id = new_instance_id (rl_nanos lib w) (rl_pid lib),
             system_now = (\<lambda>v. case rl_nanos lib v of None \<Rightarrow> 0 | Some t \<Rightarrow> t)\<rparr>, w))))"

text \<open>The HTTP library: \<^verbatim>\<open>HeaderValue::from_str\<close> and the builder of clients, from the default headers.\<close>

record 'w http_library =
  hl_header_value :: "string \<Rightarrow> string + string"
  hl_build :: "(string \<times> string) list \<Rightarrow> string + 'w http"
  hl_build_forward :: "duration \<Rightarrow> string + 'w forward_client"
  hl_build_probe :: "duration \<Rightarrow> string + 'w http"

definition token_headers ::
  "'w http_library \<Rightarrow> string \<Rightarrow> (string \<Rightarrow> nscale_error) \<Rightarrow> string option \<Rightarrow> (string \<times> string) list result" where
  "token_headers lib name err token =
     (case token of
        None \<Rightarrow> Inr []
      | Some t \<Rightarrow> (case hl_header_value lib t of Inl e \<Rightarrow> Inl (err e) | Inr v \<Rightarrow> Inr [(name, v)]))"

text \<open>\<^verbatim>\<open>NomadClient::new\<close> and \<^verbatim>\<open>ConsulClient::new\<close>, as far as the HTTP client: \<^verbatim>\<open>boot\<close> adds the base URL.\<close>

definition nomad_http :: "'w http_library \<Rightarrow> string option \<Rightarrow> ('w http) result" where
  "nomad_http lib token =
     and_then (token_headers lib ''X-Nomad-Token'' Nomad token) (\<lambda>headers.
       case hl_build lib headers of Inl e \<Rightarrow> Inl (Http e) | Inr client \<Rightarrow> Inr client)"

definition consul_http :: "'w http_library \<Rightarrow> string option \<Rightarrow> ('w http) result" where
  "consul_http lib token =
     and_then (token_headers lib ''X-Consul-Token'' Consul token) (\<lambda>headers.
       case hl_build lib headers of Inl e \<Rightarrow> Inl (Http e) | Inr client \<Rightarrow> Inr client)"

subsection \<open>The launch\<close>

datatype exit_reason =
    ConfigInvalid config_error
  | NotStarted startup_failure
  | Panicked string

fun exit_code :: "exit_reason \<Rightarrow> nat" where
  "exit_code (ConfigInvalid _) = 1"
| "exit_code (NotStarted _) = 1"
| "exit_code (Panicked _) = 101"

definition expect :: "string \<Rightarrow> 'e + 'a \<Rightarrow> exit_reason + 'a" where
  "expect msg r = (case r of Inl _ \<Rightarrow> Inl (Panicked msg) | Inr x \<Rightarrow> Inr x)"

definition build_probe :: "'w runtime \<Rightarrow> 'w http_library \<Rightarrow> config \<Rightarrow> exit_reason + 'w http" where
  "build_probe rt lib cfg =
     (case traefik_cfg cfg of
        None \<Rightarrow> Inr (rt_probe rt)
      | Some _ \<Rightarrow> expect ''failed to build HTTP client for traffic probe'' (hl_build_probe lib (from_secs 5)))"

text \<open>Binding a listener, when others are bound: the proxy's first, then the admin's.\<close>

definition bind_listeners :: "((string \<times> u16) list \<Rightarrow> string \<times> u16 \<Rightarrow> string + unit) \<Rightarrow> config \<Rightarrow> exit_reason + unit" where
  "bind_listeners bind cfg =
     and_then (expect ''failed to bind proxy listener'' (bind [] (listen_addr cfg))) (\<lambda>_.
       expect ''failed to bind admin listener'' (bind [listen_addr cfg] (admin_addr cfg)))"

definition with_clients :: "'w runtime \<Rightarrow> 'w http \<Rightarrow> 'w http \<Rightarrow> 'w forward_client \<Rightarrow> 'w http \<Rightarrow> 'w runtime" where
  "with_clients rt nomad consul forward probe =
     rt\<lparr>rt_nomad := \<lambda>_. nomad, rt_consul := \<lambda>_. consul, rt_forward := \<lambda>_. forward, rt_probe := probe\<rparr>"

text \<open>The HTTP clients, in the order in which \<^verbatim>\<open>main\<close> builds them.\<close>

definition build_clients :: "'w runtime \<Rightarrow> 'w http_library \<Rightarrow> config \<Rightarrow> exit_reason + 'w runtime" where
  "build_clients rt lib cfg =
     and_then (expect ''failed to create Nomad client'' (nomad_http lib (nomad_token (nomad_cfg cfg)))) (\<lambda>nomad.
     and_then (expect ''failed to create Consul client'' (consul_http lib (consul_token (consul_cfg cfg)))) (\<lambda>consul.
     and_then (expect ''failed to build HTTP client'' (hl_build_forward lib (request_timeout (proxy_cfg cfg)))) (\<lambda>forward.
     and_then (build_probe rt lib cfg) (\<lambda>probe.
       Inr (with_clients rt nomad consul forward probe)))))"

definition launch ::
  "figment \<Rightarrow> ('c, 'w) redis_library \<Rightarrow> 'w http_library \<Rightarrow> ((string \<times> u16) list \<Rightarrow> string \<times> u16 \<Rightarrow> string + unit) \<Rightarrow>
   'w runtime \<Rightarrow> 'w \<Rightarrow> exit_reason + config \<times> 'w runtime \<times> 'w process \<times> 'w node" where
  "launch fg rl hl bind rt0 w =
     (case load fg of
        Inl e \<Rightarrow> Inl (ConfigInvalid e)
      | Inr cfg \<Rightarrow>
          let rt = rt0\<lparr>rt_redis := redis_store_new rl\<rparr> in
          (case connect_store rt (redis_url (redis_cfg cfg)) 0 w of
             (Inl e, _) \<Rightarrow> Inl (NotStarted e)
           | (Inr store, w1) \<Rightarrow>
               (case build_registry rt (registry_cfg cfg) (act_client store) w1 of
                  (Inl e, _) \<Rightarrow> Inl (NotStarted e)
                | (Inr registry, w2) \<Rightarrow>
                    and_then (build_clients rt hl cfg) (\<lambda>built.
                    and_then (bind_listeners bind cfg) (\<lambda>_.
                      Inr (cfg, built, process_of built cfg store registry, node_of cfg w2))))))"

text \<open>
  What ends the wait of \<^verbatim>\<open>main\<close>, and whether the cancellation token is cancelled before the controller
  and the event processor are awaited.
\<close>

datatype server_end = ProxyEnded "string + unit" | AdminEnded "string + unit" | Interrupted

fun cancels_tasks :: "server_end \<Rightarrow> bool" where
  "cancels_tasks Interrupted = True"
| "cancels_tasks _ = False"

subsection \<open>Different instances have different identifiers\<close>

lemma hex_char_inj: "a < 16 \<Longrightarrow> b < 16 \<Longrightarrow> hex_char a = hex_char b \<Longrightarrow> a = b"
proof -
  have "distinct ''0123456789abcdef''" by simp
  then show "a < 16 \<Longrightarrow> b < 16 \<Longrightarrow> hex_char a = hex_char b \<Longrightarrow> a = b"
    unfolding hex_char_def by (subst (asm) nth_eq_iff_index_eq) simp_all
qed

lemma hex_char_not_dash: "a < 16 \<Longrightarrow> hex_char a \<noteq> CHR ''-''"
proof
  assume "a < 16" and "hex_char a = CHR ''-''"
  then have "CHR ''-'' \<in> set ''0123456789abcdef''" unfolding hex_char_def
    using nth_mem [of a "''0123456789abcdef''"] by simp
  then show False by simp
qed

lemma show_hex_small: "n < 16 \<Longrightarrow> show_hex n = [hex_char n]"
  by (simp add: show_hex.simps [of n])

lemma show_hex_big: "\<not> n < 16 \<Longrightarrow> show_hex n = show_hex (n div 16) @ [hex_char (n mod 16)]"
  by (simp add: show_hex.simps [of n])

lemma show_hex_nonempty: "show_hex n \<noteq> []"
  by (cases "n < 16") (simp_all add: show_hex_small show_hex_big)

lemma show_hex_inj: "show_hex m = show_hex n \<Longrightarrow> m = n"
proof (induction m arbitrary: n rule: show_hex.induct)
  case (1 m)
  show ?case
  proof (cases "m < 16 \<or> n < 16")
    case True
    with "1.prems" have "m < 16" "n < 16"
      by (auto simp: show_hex_small show_hex_nonempty Cons_eq_append_conv append_eq_Cons_conv show_hex_big
          intro: ccontr)
    with "1.prems" show ?thesis by (auto simp: show_hex_small intro: hex_char_inj)
  next
    case False
    then have "show_hex (m div 16) = show_hex (n div 16)" "hex_char (m mod 16) = hex_char (n mod 16)"
      using "1.prems" by (simp_all add: show_hex_big)
    with "1.IH" [of "n div 16"] False have "m div 16 = n div 16" "m mod 16 = n mod 16" by (simp_all add: hex_char_inj)
    then show ?thesis by (metis div_mult_mod_eq)
  qed
qed

lemma show_hex_no_dash: "CHR ''-'' \<notin> set (show_hex n)"
proof (induction n rule: show_hex.induct)
  case (1 n)
  then show ?case by (cases "n < 16") (simp_all add: show_hex_small show_hex_big hex_char_not_dash [symmetric])
qed

abbreviation epoch_nanos :: "('c, 'w) redis_library \<Rightarrow> 'w \<Rightarrow> nat" where
  "epoch_nanos lib w \<equiv> (case rl_nanos lib w of None \<Rightarrow> 0 | Some t \<Rightarrow> t)"

lemma new_instance_id_inj:
  assumes "new_instance_id s p = new_instance_id t q"
  shows "(case s of None \<Rightarrow> 0 | Some x \<Rightarrow> x) = (case t of None \<Rightarrow> 0 | Some x \<Rightarrow> x) \<and> p = q"
proof -
  let ?s = "case s of None \<Rightarrow> 0 | Some x \<Rightarrow> x" and ?t = "case t of None \<Rightarrow> 0 | Some x \<Rightarrow> x"
  have "show_hex ?s @ CHR ''-'' # show_hex (unat p) = show_hex ?t @ CHR ''-'' # show_hex (unat q)"
    using assms by (simp add: new_instance_id_def uuid_v4_simple_def)
  then have "show_hex ?s = show_hex ?t" "show_hex (unat p) = show_hex (unat q)"
    by (simp_all add: append_Cons_eq_iff show_hex_no_dash)
  then show ?thesis by (auto dest!: show_hex_inj simp: word_unat_eq_iff)
qed

lemma redis_store_new_Inr:
  assumes "redis_store_new lib addr w = (Inr st, v)"
  shows "instance_id st = new_instance_id (rl_nanos lib v) (rl_pid lib)"
    "\<exists>cfg. rl_from_url lib addr = Inr cfg \<and> rl_build lib cfg = Inr (act_client st)"
  using assms by (auto simp: redis_store_new_def io_iff)

text \<open>
  C31: Instances of nscale exclude each other. Two processes that connected to the same Redis at different
  nanoseconds or with different process ids have different identifiers. Hence, while the one
  holds the scale-down lock, the other can neither acquire it nor free it by releasing it, and the
  holder's release frees it.
\<close>

theorem instances_exclude:
  assumes "redis_store_new la url_a w = (Inr a, wa)" and "redis_store_new lb url_b v = (Inr b, vb)"
    and "epoch_nanos la wa \<noteq> epoch_nanos lb vb \<or> rl_pid la \<noteq> rl_pid lb"
    and "lock_laws (act_client a) V L" and "lock_laws (act_client b) V L"
    and "redis_try_acquire_lock a SCALE_DOWN_LOCK_KEY ttl x = (Inr True, x1)"
    and "redis_release_lock b SCALE_DOWN_LOCK_KEY x1 = (Inr (), x2)"
    and "redis_release_lock a SCALE_DOWN_LOCK_KEY x2 = (Inr (), x3)"
  shows "instance_id a \<noteq> instance_id b \<and>
    fst (redis_try_acquire_lock b SCALE_DOWN_LOCK_KEY ttl' x1) \<noteq> Inr True \<and>
    fst (redis_try_acquire_lock b SCALE_DOWN_LOCK_KEY ttl' x2) \<noteq> Inr True \<and>
    L x3 (lock_key SCALE_DOWN_LOCK_KEY) = None"
proof -
  have "instance_id a \<noteq> instance_id b"
    using assms(3) new_instance_id_inj redis_store_new_Inr(1) [OF assms(1)] redis_store_new_Inr(1) [OF assms(2)] by metis
  with lock_exclusive [OF assms(4,5) _ assms(6-8)] show ?thesis by blast
qed

text \<open>Two processes, the second one started a second later, on the in-memory server.\<close>

definition demo_redis_library :: "u32 \<Rightarrow> (unit, mem_node) redis_library" where
  "demo_redis_library pid =
     \<lparr>rl_from_url = (\<lambda>_. Inr ()), rl_build = (\<lambda>_. Inr mem_redis), rl_init = (\<lambda>_. io_return ()),
      rl_nanos = (\<lambda>w. Some (m_now w)), rl_pid = pid\<rparr>"

definition demo_instance :: "u32 \<Rightarrow> nat \<Rightarrow> mem_node redis_activity_store" where
  "demo_instance pid t = \<lparr>act_client = mem_redis, instance_id = new_instance_id (Some t) pid, system_now = m_now\<rparr>"

lemma demo_store_new:
  "redis_store_new (demo_redis_library pid) addr w = (Inr (demo_instance pid (m_now w)), w)"
  by (simp add: redis_store_new_def demo_redis_library_def demo_instance_def io_bind_def io_map_err_def io_lift_def
      io_return_def)

theorem instances_exclude_witness:
  "\<exists>x1 x2 x3. redis_try_acquire_lock (demo_instance 1 0) SCALE_DOWN_LOCK_KEY 5 node_empty = (Inr True, x1) \<and>
     redis_release_lock (demo_instance 1 7) SCALE_DOWN_LOCK_KEY x1 = (Inr (), x2) \<and>
     redis_release_lock (demo_instance 1 0) SCALE_DOWN_LOCK_KEY x2 = (Inr (), x3) \<and>
     fst (redis_try_acquire_lock (demo_instance 1 7) SCALE_DOWN_LOCK_KEY 5 x2) \<noteq> Inr True"
proof -
  let ?w = "node_empty :: mem_node" and ?v = "(node_empty :: mem_node)\<lparr>m_now := 7\<rparr>"
  let ?a = "demo_instance 1 0" and ?b = "demo_instance 1 7"
  let ?x1 = "node_empty\<lparr>m_lock := [(lock_key SCALE_DOWN_LOCK_KEY, instance_id ?a)]\<rparr>"
  have a: "redis_store_new (demo_redis_library 1) ''redis://r'' ?w = (Inr ?a, ?w)"
    and b: "redis_store_new (demo_redis_library 1) ''redis://r'' ?v = (Inr ?b, ?v)"
    by (simp_all add: demo_store_new node_empty_def)
  have times: "epoch_nanos (demo_redis_library 1) ?w \<noteq> epoch_nanos (demo_redis_library 1) ?v \<or>
      rl_pid (demo_redis_library 1) \<noteq> rl_pid (demo_redis_library 1)"
    by (simp add: demo_redis_library_def node_empty_def)
  have ne: "instance_id ?b \<noteq> instance_id ?a" using new_instance_id_inj [of "Some 7" 1 "Some 0" 1] by (auto simp: demo_instance_def)
  have laws: "lock_laws (act_client ?a) mem_view mem_locks" "lock_laws (act_client ?b) mem_view mem_locks"
    by (simp_all add: demo_instance_def mem_lock_laws)
  have x1: "redis_try_acquire_lock ?a SCALE_DOWN_LOCK_KEY 5 node_empty = (Inr True, ?x1)"
    and x2: "redis_release_lock ?b SCALE_DOWN_LOCK_KEY ?x1 = (Inr (), ?x1)"
    and x3: "redis_release_lock ?a SCALE_DOWN_LOCK_KEY ?x1 = (Inr (), node_empty\<lparr>m_lock := []\<rparr>)"
    using ne by (simp_all add: demo_instance_def node_empty_def mem_run)
  from instances_exclude [OF a b times laws x1 x2 x3, of 5] x1 x2 x3 show ?thesis by blast
qed

subsection \<open>A launch is a boot\<close>

lemma connect_store_cong:
  assumes "rt_redis rt' = rt_redis rt" and "rt_sleep rt' = rt_sleep rt"
  shows "connect_store rt' addr n w = connect_store rt addr n w"
  using assms
proof (induction rt addr n w rule: connect_store.induct)
  case (1 rt addr n w)
  then show ?case
    by (auto simp: connect_store.simps [of rt' addr n] connect_store.simps [of rt addr n] split: prod.splits sum.splits)
qed

lemma build_registry_cong:
  assumes "rt_etcd rt' = rt_etcd rt" and "rt_codec rt' = rt_codec rt"
  shows "build_registry rt' = build_registry rt"
  unfolding build_registry_def etcd_connect_def assms ..

lemma build_clients_Inr:
  assumes "build_clients rt lib cfg = Inr built"
  shows "rt_redis built = rt_redis rt" "rt_sleep built = rt_sleep rt" "rt_etcd built = rt_etcd rt"
    "rt_codec built = rt_codec rt" "nomad_http lib (nomad_token (nomad_cfg cfg)) = Inr (rt_nomad built (nomad_token (nomad_cfg cfg)))"
    "consul_http lib (consul_token (consul_cfg cfg)) = Inr (rt_consul built (consul_token (consul_cfg cfg)))"
  using assms by (auto simp: build_clients_def and_then_Inr with_clients_def expect_def split: sum.splits)

lemma client_panics: "build_clients rt lib cfg = Inl r \<Longrightarrow> exit_code r = 101"
  by (auto simp: build_clients_def build_probe_def and_then_def expect_def split: sum.splits option.splits)

lemma listener_panics: "bind_listeners bind cfg = Inl r \<Longrightarrow> exit_code r = 101"
  by (auto simp: bind_listeners_def and_then_def expect_def split: sum.splits)

text \<open>
  C26: The process starts as configured or not at all. When \<^verbatim>\<open>main\<close> comes to serve, the configuration was
  loaded, both listeners were bound, and the parts are those that \<open>boot\<close> wires from it with
  HTTP clients that carry the configured tokens; so every property of the running process holds of it.
  Otherwise the process ends, and with exit code 1 exactly when the configuration, Redis or
  the durable registry failed (before any client was built), else by a panic.
\<close>

theorem launch_boots:
  "case launch fg rl hl bind rt w of
     Inr (cfg, built, p, n) \<Rightarrow>
       load fg = Inr cfg \<and> boot built cfg w = Inr (p, n) \<and>
       process_reachable built cfg p \<lparr>sys_events = ep_new n, sys_tunnels = []\<rparr> \<and>
       nomad_http hl (nomad_token (nomad_cfg cfg)) = Inr (rt_nomad built (nomad_token (nomad_cfg cfg))) \<and>
       consul_http hl (consul_token (consul_cfg cfg)) = Inr (rt_consul built (consul_token (consul_cfg cfg))) \<and>
       bind [] (listen_addr cfg) = Inr () \<and> bind [listen_addr cfg] (admin_addr cfg) = Inr ()
   | Inl reason \<Rightarrow>
       (exit_code reason = 1 \<longleftrightarrow>
         (case load fg of
            Inl _ \<Rightarrow> True
          | Inr cfg \<Rightarrow> (\<exists>e. boot (rt\<lparr>rt_redis := redis_store_new rl\<rparr>) cfg w = Inl e))) \<and>
       (exit_code reason = 101 \<longleftrightarrow> exit_code reason \<noteq> 1)"
proof -
  let ?rt = "rt\<lparr>rt_redis := redis_store_new rl\<rparr>"
  show ?thesis
  proof (cases "launch fg rl hl bind rt w")
    case (Inl reason)
    show ?thesis using Inl
      by (auto simp: launch_def boot_def Let_def and_then_def dest: client_panics listener_panics split: sum.splits prod.splits)
  next
    case (Inr r)
    obtain cfg built p n where r: "r = (cfg, built, p, n)" by (metis prod.exhaust)
    from Inr obtain store w1 registry w2 where l: "load fg = Inr cfg"
      and c: "connect_store ?rt (redis_url (redis_cfg cfg)) 0 w = (Inr store, w1)"
      and g: "build_registry ?rt (registry_cfg cfg) (act_client store) w1 = (Inr registry, w2)"
      and b: "build_clients ?rt hl cfg = Inr built" "bind_listeners bind cfg = Inr ()"
      and p: "p = process_of built cfg store registry" "n = node_of cfg w2"
      by (auto simp: r launch_def Let_def and_then_Inr split: sum.splits prod.splits)
    note built = build_clients_Inr [OF b(1)]
    have boot: "boot built cfg w = Inr (p, n)"
      using c g by (simp add: boot_def connect_store_cong [OF built(1,2)] build_registry_cong [OF built(3,4)] p)
    have "bind [] (listen_addr cfg) = Inr () \<and> bind [listen_addr cfg] (admin_addr cfg) = Inr ()"
      using b(2) by (auto simp: bind_listeners_def and_then_Inr expect_def split: sum.splits)
    then show ?thesis using process_reachable.start [OF boot] by (simp add: Inr r l boot built)
  qed
qed

end
