(* ===== verification/Restart.thy ===== *)
theory Restart
  imports Startup Registry_Properties
begin

text \<open>
  A restart: what \<^verbatim>\<open>main\<close> finds again in the durable registry when Redis has lost its data. The hydration
  of the cache may succeed, fail, or fail half-way; in each case the cache then holds only what etcd
  holds, and a lookup that misses it asks etcd.
\<close>

subsection \<open>A cache that was filled from the durable registry\<close>

definition cache_from :: "job_registration set \<Rightarrow> reg_codec \<Rightarrow> redis_view \<Rightarrow> bool" where
  "cache_from E C v \<longleftrightarrow>
     (\<forall>k r. cached_jobs C v k = Some r \<longrightarrow> r \<in> E \<and> job_str (job_id r) = k) \<and>
     (\<forall>k r. cached_services C v k = Some r \<longrightarrow> r \<in> E \<and> service_str (service_name r) = k)"

lemma cache_from_put:
  assumes "cache_from E C v" and "r \<in> E" and "dec C x = Inr r"
  shows "cache_from E C (hash_put REGISTRY_BY_JOB_KEY (job_str (job_id r)) (Some x) v)"
    and "cache_from E C (hash_put REGISTRY_BY_SERVICE_KEY (service_str (service_name r)) (Some x) v)"
  using assms by (auto simp: cache_from_def cached_jobs_def cached_services_def hash_put_def decoded_def)

text \<open>Caching one registration, whatever Redis answers.\<close>

lemma cache_from_cache:
  assumes "hash_laws (reg_client R) V" and "codec_ok (reg_codec R)"
    and "cache_from E (reg_codec R) (V w)" and "r \<in> E" and "cache_registration R r w = (q, w')"
  shows "cache_from E (reg_codec R) (V w')"
proof (cases "enc (reg_codec R) r")
  case (Inl e)
  then have "w' = w" using assms(5)
    by (auto simp: cache_registration_def encode_registration_def io_bind_def io_lift_def io_map_err_def split: prod.splits sum.splits)
  then show ?thesis using assms(3) by simp
next
  case (Inr x)
  have d: "dec (reg_codec R) x = Inr r" using assms(2) Inr unfolding codec_ok_def by (metis sum.inject(2))
  obtain a w1 where a: "r_hset (reg_client R) REGISTRY_BY_JOB_KEY (job_str (job_id r)) x w = (a, w1)" by force
  obtain b w2 where b: "r_hset (reg_client R) REGISTRY_BY_SERVICE_KEY (service_str (service_name r)) x w1 = (b, w2)" by force
  have one: "cache_from E (reg_codec R) (V w1)"
    using hash_lawsD(1) [OF assms(1), of REGISTRY_BY_JOB_KEY "job_str (job_id r)" x w] a
      cache_from_put(1) [OF assms(3,4) d] assms(3) by (auto simp: wrote_def split: sum.splits)
  have "cache_from E (reg_codec R) (V w2)"
    using hash_lawsD(1) [OF assms(1), of REGISTRY_BY_SERVICE_KEY "service_str (service_name r)" x w1] b
      cache_from_put(2) [OF one assms(4) d] one by (auto simp: wrote_def split: sum.splits)
  moreover have "w' = w1 \<or> w' = w2" using assms(5) Inr a b
    by (auto simp: cache_registration_def encode_registration_def io_bind_def io_lift_def io_map_err_def split: prod.splits sum.splits)
  ultimately show ?thesis using one by auto
qed

lemma cache_from_each:
  assumes "hash_laws (reg_client R) V" and "codec_ok (reg_codec R)"
  shows "cache_from E (reg_codec R) (V w) \<Longrightarrow> set rs \<subseteq> E \<Longrightarrow> io_each (cache_registration R) rs w = (q, w') \<Longrightarrow>
    cache_from E (reg_codec R) (V w')"
proof (induction rs arbitrary: w)
  case (Cons r rs)
  obtain a w1 where a: "cache_registration R r w = (a, w1)" by force
  have "cache_from E (reg_codec R) (V w1)" using cache_from_cache [OF assms Cons.prems(1) _ a] Cons.prems(2) by simp
  then show ?case using Cons.IH [of w1] Cons.prems(2,3) a by (cases a) (auto simp: io_bind_def)
qed (simp add: io_return_def)

context durable_contract begin

text \<open>Hydration leaves a cache that was filled from the durable registry, however it ends.\<close>

lemma sync_cache_from:
  assumes "fits R p V" and "keeps (\<lambda>w. (J p w, S p w)) (durable_list_all (D p))"
    and "E = ran (J p w) \<union> ran (S p w)" and "cache_from E (reg_codec R) (V w)"
    and "sync_from_durable R w = (q, w')"
  shows "cache_from E (reg_codec R) (V w')" and "J p w' = J p w \<and> S p w' = S p w"
proof -
  obtain a w1 where a: "durable_list_all (D p) w = (a, w1)" by force
  have j: "J p w1 = J p w \<and> S p w1 = S p w" using keepsD [OF assms(2) a] by simp
  have v: "V w1 = V w" using keepsD [OF keeps_redis(5) [OF fitsD(2) [OF assms(1)]] a] .
  have "cache_from E (reg_codec R) (V w') \<and> J p w' = J p w \<and> S p w' = S p w"
  proof (cases a)
    case (Inl e)
    then have "w' = w1" using assms(5) a fitsD(1) [OF assms(1)] by (simp add: sync_from_durable_def io_bind_def)
    then show ?thesis using assms(4) j v by simp
  next
    case (Inr rs)
    obtain b w2 where b: "io_each (cache_registration R) rs w1 = (b, w2)" by force
    have "w' = w2" using assms(5) a b Inr fitsD(1) [OF assms(1)]
      by (auto simp: sync_from_durable_def io_bind_def io_return_def split: sum.splits)
    moreover have "set rs \<subseteq> E"
      using list_ok [OF fitsD(2) [OF assms(1)] a [unfolded Inr]] assms(3) by auto
    then have "cache_from E (reg_codec R) (V w2)"
      using cache_from_each [OF fitsD(3,4) [OF assms(1)] _ _ b] assms(4) v by simp
    moreover have k: "keeps (\<lambda>w. (J p w, S p w)) (io_each (cache_registration R) rs)"
      using registry_keeps(1) [OF fitsD(5) [OF assms(1)]] by (intro keeps_rules)
    have "J p w2 = J p w \<and> S p w2 = S p w" using keepsD [OF k b] j by simp
    ultimately show ?thesis by simp
  qed
  then show "cache_from E (reg_codec R) (V w')" and "J p w' = J p w \<and> S p w' = S p w" by simp_all
qed

text \<open>A lookup on such a cache finds what the durable registry knows, and nothing else.\<close>

lemma get_from_durable:
  assumes "fits R p V" and "E = ran (J p w) \<union> ran (S p w)" and "cache_from E (reg_codec R) (V w)"
    and "\<And>k r. J p w k = Some r \<Longrightarrow> job_str (job_id r) = k"
    and "\<And>k r. S p w k = Some r \<Longrightarrow> service_str (service_name r) = k"
    and "J p w l \<noteq> None \<or> S p w l \<noteq> None" and "get R (JobId l) w = (Inr y, w')"
  shows "\<exists>r \<in> E. y = Some r \<and> (job_str (job_id r) = l \<or> service_str (service_name r) = l)"
  using fitsD(3) [OF assms(1)] assms(7)
proof (cases rule: get_ok_cases)
  case job
  then obtain r where "y = Some r" "cached_jobs (reg_codec R) (V w) l = Some r" by auto
  then show ?thesis using assms(3) by (auto simp: cache_from_def)
next
  case service
  then obtain r where "y = Some r" "cached_services (reg_codec R) (V w) l = Some r" by auto
  then show ?thesis using assms(3) by (auto simp: cache_from_def)
next
  case (miss w1 w2)
  have "J p w2 = J p w" "S p w2 = S p w" using lookup_keeps_durable [OF assms(1)] miss(4,5) by metis+
  then have "y = (case J p w l of Some r \<Rightarrow> Some r | None \<Rightarrow> S p w l)"
    using get_durable_ok(1) [OF assms(1) miss(6)] by (simp split: option.splits)
  then show ?thesis using assms(2,4-6) by (auto split: option.splits intro: ranI)
qed

end

subsection \<open>The restart\<close>

text \<open>Connecting to the servers and sleeping leave the data alone.\<close>

definition quiet :: "'w runtime \<Rightarrow> ('w \<Rightarrow> 'v) \<Rightarrow> bool" where
  "quiet rt P \<longleftrightarrow> (\<forall>addr. keeps P (rt_redis rt addr)) \<and> (\<forall>eps. keeps P (rt_etcd rt eps)) \<and>
     (\<forall>d w. P (rt_sleep rt d w) = P w)"

lemma quietD:
  assumes "quiet rt P"
  shows "rt_redis rt addr w = (x, w1) \<Longrightarrow> P w1 = P w" "keeps P (rt_etcd rt eps)" "P (rt_sleep rt d w) = P w"
  using assms keepsD [of P "rt_redis rt addr"] by (auto simp: quiet_def)

lemma connect_store_quiet:
  "quiet rt P \<Longrightarrow> connect_store rt addr n w = (r, w') \<Longrightarrow> P w' = P w"
proof (induction rt addr n w rule: connect_store.induct)
  case (1 rt addr n w)
  obtain a w1 where a: "rt_redis rt addr w = (a, w1)" by force
  note q = quietD(1) [OF "1.prems"(1) a] quietD(3) [OF "1.prems"(1), of "from_secs 1" w1]
  show ?case
  proof (cases a)
    case (Inl e)
    then show ?thesis using "1.prems"(2) "1.IH" [of a w1 e] "1.prems"(1) a q
      by (auto simp: connect_store.simps [of rt addr n] split: if_splits)
  next
    case (Inr store)
    then show ?thesis using "1.prems"(2) a q by (simp add: connect_store.simps [of rt addr n])
  qed
qed

lemma boot_durable:
  assumes "boot rt cfg w = Inr (p, n)" and "durable_enabled (registry_cfg cfg)" and "quiet rt P"
  obtains w2 where "P w2 = P w" "nd_world n = snd (sync_from_durable (as_registry (ps_app p)) w2)"
proof -
  obtain store w1 where c: "connect_store rt (redis_url (redis_cfg cfg)) 0 w = (Inr store, w1)"
    using assms(1) by (auto simp: boot_def split: prod.splits sum.splits)
  obtain registry w3 where g: "build_registry rt (registry_cfg cfg) (act_client store) w1 = (Inr registry, w3)"
    and p: "p = process_of rt cfg store registry" "n = node_of cfg w3"
    using assms(1) c by (auto simp: boot_def split: prod.splits sum.splits)
  obtain client w2 where e: "etcd_connect rt (etcd_endpoint_list (registry_cfg cfg)) (etcd_key_prefix (registry_cfg cfg)) w1 = (Inr client, w2)"
    and r: "registry = with_durable (act_client store) (rt_codec rt) (etcd_durable client)"
      "w3 = snd (sync_from_durable registry w2)"
    using g assms(2) by (auto simp: build_registry_def Let_def io_iff split: if_splits)
  have "keeps P (etcd_connect rt (etcd_endpoint_list (registry_cfg cfg)) (etcd_key_prefix (registry_cfg cfg)))"
    unfolding etcd_connect_def using quietD(2) [OF assms(3)] by (intro keeps_rules)
  from keepsD [OF this e] connect_store_quiet [OF assms(3) c] have "P w2 = P w" by simp
  then show thesis using that r p by (simp add: process_of_def app_of_def node_of_def)
qed

lemma etcd_list_keeps:
  assumes "etcd_laws (kv st) K" shows "keeps K (durable_list_all (etcd_durable st))"
proof -
  have "\<And>p. keeps K (e_get_prefix (kv st) p)" using assms by (simp add: etcd_laws_def)
  then show ?thesis
    by (auto simp: etcd_durable_def etcd_list_all_def list_by_prefix_def
        intro!: keeps_bind keeps_map_err keeps_lift keeps_if keeps_return)
qed

text \<open>
  C14: Registrations survive a restart without Redis. When the process starts with the durable registry and
  Redis has lost its data, every lookup by a job id or a service name that etcd knows is answered by a
  registration that etcd holds for it, whether the hydration of the cache succeeded, failed or stopped
  half-way, provided the servers answer the lookup and etcd's entries are under their own keys.
\<close>

theorem restart_restores:
  assumes boot: "boot rt cfg w = Inr (p, n)" and on: "durable_enabled (registry_cfg cfg)"
    and quiet: "quiet rt (\<lambda>w. (V w, K w))"
    and backed: "etcd_backed (as_registry (ps_app p)) st V K"
    and lost: "cached_jobs (reg_codec (as_registry (ps_app p))) (V w) = Map.empty"
      "cached_services (reg_codec (as_registry (ps_app p))) (V w) = Map.empty"
    and jobs: "\<forall>k r. etcd_jobs (st, K) w k = Some r \<longrightarrow> job_str (job_id r) = k"
    and services: "\<forall>k r. etcd_services (st, K) w k = Some r \<longrightarrow> service_str (service_name r) = k"
    and known: "etcd_jobs (st, K) w l \<noteq> None \<or> etcd_services (st, K) w l \<noteq> None"
    and lookup: "get (as_registry (ps_app p)) (JobId l) (nd_world n) = (Inr y, w')"
  shows "\<exists>r \<in> ran (etcd_jobs (st, K) w) \<union> ran (etcd_services (st, K) w).
    y = Some r \<and> (job_str (job_id r) = l \<or> service_str (service_name r) = l)"
proof -
  let ?R = "as_registry (ps_app p)" and ?E = "ran (etcd_jobs (st, K) w) \<union> ran (etcd_services (st, K) w)"
  obtain w2 where w2: "V w2 = V w" "K w2 = K w" and n: "nd_world n = snd (sync_from_durable ?R w2)"
    using boot_durable [OF boot on quiet] by auto
  have maps: "etcd_jobs (st, K) w2 = etcd_jobs (st, K) w" "etcd_services (st, K) w2 = etcd_services (st, K) w"
    using etcd_maps_cong [of "(st, K)" w2 w] w2(2) by auto
  note fits = etcd_backed_fits [OF backed]
  have "keeps K (durable_list_all (etcd_durable st))"
    using backed by (simp add: etcd_backed_def etcd_list_keeps)
  then have k: "keeps (\<lambda>w. (etcd_jobs (st, K) w, etcd_services (st, K) w)) (durable_list_all (etcd_durable (fst (st, K))))"
    using keeps_etcd_maps by simp
  obtain q w3 where s: "sync_from_durable ?R w2 = (q, w3)" by force
  have "cache_from ?E (reg_codec ?R) (V w2)" using lost w2(1) by (simp add: cache_from_def)
  with etcd.sync_cache_from [OF fits k _ _ s, of ?E] maps
  have c: "cache_from ?E (reg_codec ?R) (V w3)" "etcd_jobs (st, K) w3 = etcd_jobs (st, K) w"
    "etcd_services (st, K) w3 = etcd_services (st, K) w" by simp_all
  have n3: "nd_world n = w3" using n s by simp
  show ?thesis
    using etcd.get_from_durable [OF fits _ c(1), of l y w'] jobs services known lookup by (simp add: c(2,3) n3)
qed

text \<open>The job was registered, and Redis comes back empty.\<close>

definition durable_config :: config where
  "durable_config = default_config\<lparr>registry_cfg := default_registry\<lparr>durable_enabled := True, etcd_key_prefix := ''nscale/''\<rparr>\<rparr>"

definition flushed :: mem_node where
  "flushed = node_shop\<lparr>m_hash := [], m_now := 2 * 10 ^ 9\<rparr>"

definition durable_process :: "mem_node process" where
  "durable_process = process_of demo_runtime durable_config (mem_store ''n1'') demo_registry"

lemma durable_process_registry: "as_registry (ps_app durable_process) = demo_registry"
  by (simp add: durable_process_def process_of_def app_of_def)

lemma flushed_boot:
  "boot demo_runtime durable_config flushed = Inr (durable_process, node_of durable_config (node_shop\<lparr>m_now := 2 * 10 ^ 9\<rparr>))"
proof -
  have e: "etcd_endpoint_list (registry_cfg durable_config) \<noteq> []" by code_simp
  have c: "connect_store demo_runtime addr 0 flushed = (Inr (mem_store ''n1''), flushed)" for addr
    by (simp add: connect_store.simps demo_runtime_def flushed_def)
  have r: "with_durable (act_client (mem_store ''n1'' :: mem_node redis_activity_store)) (rt_codec demo_runtime)
      (etcd_durable (etcd_client_new mem_etcd demo_codec ''nscale/'')) = demo_registry"
    by (simp add: demo_registry_def demo_etcd_def mem_store_def demo_runtime_def)
  have k: "etcd_connect demo_runtime eps ''nscale/'' w = (Inr (etcd_client_new mem_etcd demo_codec ''nscale/''), w)" for eps w
    by (simp add: etcd_connect_def demo_runtime_def io_bind_def io_map_err_def io_return_def)
  have s: "snd (sync_from_durable demo_registry flushed) = node_shop\<lparr>m_now := 2 * 10 ^ 9\<rparr>"
    by (simp add: registry_run flushed_def)
  have d: "durable_enabled (registry_cfg durable_config)" "etcd_key_prefix (registry_cfg durable_config) = ''nscale/''"
    by (simp_all add: durable_config_def)
  show ?thesis
    by (simp add: boot_def c build_registry_def d e k io_bind_def io_map_err_def r s durable_process_def Let_def)
qed

theorem restart_restores_witness:
  "\<exists>w'. get (as_registry (ps_app durable_process)) (JobId ''shop'') (node_shop\<lparr>m_now := 2 * 10 ^ 9\<rparr>) = (Inr (Some shop), w') \<and>
     cached_jobs demo_codec (mem_view flushed) = Map.empty \<and> etcd_jobs (demo_etcd, mem_keys) flushed ''shop'' = Some shop"
proof -
  let ?w = "node_shop\<lparr>m_now := 2 * 10 ^ 9\<rparr>"
  have on: "durable_enabled (registry_cfg durable_config)" by (simp add: durable_config_def)
  have quiet: "quiet demo_runtime (\<lambda>w. (mem_view w, mem_keys w))"
    by (auto simp: quiet_def keeps_def demo_runtime_def io_return_def mem_view_def mem_keys_def)
  have backed: "etcd_backed (as_registry (ps_app durable_process)) demo_etcd mem_view mem_keys"
    by (simp add: durable_process_registry demo_backed)
  have c: "reg_codec demo_registry = demo_codec" by (simp add: demo_registry_def with_durable_def)
  have lost: "cached_jobs (reg_codec (as_registry (ps_app durable_process))) (mem_view flushed) = Map.empty"
    "cached_services (reg_codec (as_registry (ps_app durable_process))) (mem_view flushed) = Map.empty"
    by (simp_all add: cached_jobs_def cached_services_def flushed_def mem_view_def fun_eq_iff)
  have "mem_keys flushed = mem_keys node_shop" by (simp add: flushed_def mem_keys_def)
  then have maps: "etcd_jobs (demo_etcd, mem_keys) flushed = etcd_jobs (demo_etcd, mem_keys) node_shop"
    "etcd_services (demo_etcd, mem_keys) flushed = etcd_services (demo_etcd, mem_keys) node_shop"
    using etcd_maps_cong [of "(demo_etcd, mem_keys)" flushed node_shop] by simp_all
  have only: "etcd_jobs (demo_etcd, mem_keys) node_shop k = (if k = ''shop'' then Some shop else None)" for k
    by (simp add: etcd_jobs_def decoded_def mem_keys_def registry_run)
  have jobs: "\<forall>k r. etcd_jobs (demo_etcd, mem_keys) flushed k = Some r \<longrightarrow> job_str (job_id r) = k"
    and services: "\<forall>k r. etcd_services (demo_etcd, mem_keys) flushed k = Some r \<longrightarrow> service_str (service_name r) = k"
    by (simp_all add: maps only shop_maps(2) shop_def)
  have known: "etcd_jobs (demo_etcd, mem_keys) flushed ''shop'' \<noteq> None \<or> etcd_services (demo_etcd, mem_keys) flushed ''shop'' \<noteq> None"
    by (simp add: maps only)
  have n: "nd_world (node_of durable_config ?w) = ?w" by (simp add: node_of_def)
  have lookup: "get (as_registry (ps_app durable_process)) (JobId ''shop'') (nd_world (node_of durable_config ?w)) =
      (Inr (Some shop), ?w)"
    unfolding durable_process_registry n by (simp add: registry_run)
  show ?thesis
    using restart_restores [OF flushed_boot on quiet backed lost jobs services known lookup] lookup lost(1)
    by (simp add: node_of_def maps only durable_process_registry c)
qed

end
