(* ===== verification/Interleaving.thy ===== *)
theory Interleaving
  imports Process Store_Properties "HOL-Library.Multiset"
begin

text \<open>
  The proxy and the scale-down controller, interleaved. \<open>Process\<close> runs each operation from beginning to
  end; here a request and a tick are sequences of steps, cut at every call that leaves the process
  and at every access to the shared in-flight tracker, and the steps of any number of requests, of the
  controller, of the event processor and the admin API, and changes of the outside world come in any order. A
  client may hang up, which drops its handler and the guard it holds. Each retry, each back-off and the refresh of
  the endpoint are steps of their own; only \<^verbatim>\<open>ensure_running\<close> is one step, and \<open>Concurrent\<close> has the
  machine of the coordinator in its place. What the heartbeat records is among the changes of the world.
  The steps of a request that nothing interrupts are \<open>serve\<close>, and those of a tick are \<open>tick\<close>.
\<close>

subsection \<open>A request in steps\<close>

text \<open>
  A phase says what the request has done, and holds the local variables of the handler: the
  registration, the endpoint, the guard, the request to replay. \<open>Retrying\<close> has the delays that are left and the
  last error; \<open>Refreshed\<close> the answer of the coordinator; \<open>Rewaking\<close> is about to wake the job again. In
  \<open>Leaving\<close> the second activity record is still to come; a guard beside the answer belongs to an open tunnel.
  \<open>HungUp\<close>: the client has disconnected and the handler was dropped.
\<close>

datatype request_phase =
    Arrived
  | Recorded
  | LookedUp job_registration
  | Awake job_registration endpoint
  | Cleared job_registration endpoint
  | Tracked job_registration endpoint in_flight_guard
  | Retrying job_registration endpoint in_flight_guard proxy_request "nat list" forward_error
  | BackedOff job_registration endpoint in_flight_guard proxy_request "nat list"
  | Refreshed job_registration in_flight_guard proxy_request forward_error "endpoint_refresh result"
  | Rewaking job_registration in_flight_guard proxy_request
  | Rewoken job_registration endpoint in_flight_guard proxy_request
  | Resending job_registration endpoint in_flight_guard proxy_request
  | Replied response in_flight_guard
  | Leaving response "in_flight_guard option"
  | Answered response "in_flight_guard option"
  | HungUp

text \<open>The two matches on what \<^verbatim>\<open>ensure_running\<close> returned.\<close>

definition woken :: "'w app_state \<Rightarrow> job_registration \<Rightarrow> endpoint result \<Rightarrow> 'w node \<Rightarrow> request_phase \<times> 'w node" where
  "woken st reg r s =
     (case r of
        Inr e \<Rightarrow> (Awake reg e, s)
      | Inl (JobNotFound _) \<Rightarrow>
          (case proxy_handle_missing st (job_id reg) ''wake'' s of (resp, s1) \<Rightarrow> (Leaving resp None, s1))
      | Inl x \<Rightarrow> (Leaving (TextResponse 503 (''wake error: '' @ error_to_string x)) None, s))"

definition rewoken ::
  "'w app_state \<Rightarrow> job_registration \<Rightarrow> in_flight_guard \<Rightarrow> proxy_request \<Rightarrow> endpoint result \<Rightarrow> 'w node \<Rightarrow>
   request_phase \<times> 'w node" where
  "rewoken st reg g rq r s =
     (case r of
        Inr e \<Rightarrow> (Rewoken reg e g rq, s)
      | Inl (JobNotFound _) \<Rightarrow>
          (case proxy_handle_missing st (job_id reg) ''rewake'' s of (resp, s1) \<Rightarrow> (Replied resp g, s1))
      | Inl x \<Rightarrow> (Replied (TextResponse 503 (''retry wake error: '' @ error_to_string x)) g, s))"

fun phase_step :: "'w app_state \<Rightarrow> proxy_request \<Rightarrow> request_phase \<Rightarrow> 'w node \<Rightarrow> request_phase \<times> 'w node" where
  "phase_step st req Arrived s = (Recorded, record_for (as_store st) (request_job req) s)"
| "phase_step st req Recorded s =
     (case header_get ''host'' (pr_headers req) of
        None \<Rightarrow> (Leaving (TextResponse 400 ''missing Host header'') None, s)
      | Some v \<Rightarrow>
          (case on_world (get (as_registry st) (JobId (first_label (case to_str v of None \<Rightarrow> [] | Some h \<Rightarrow> h)))) s of
             (Inl _, s1) \<Rightarrow> (Leaving (TextResponse 500 ''registry error'') None, s1)
           | (Inr None, s1) \<Rightarrow> (Leaving (TextResponse 404 ''service not registered'') None, s1)
           | (Inr (Some reg), s1) \<Rightarrow> (LookedUp reg, s1)))"
| "phase_step st req (LookedUp reg) s = (case as_wake st reg s of (r, s1) \<Rightarrow> woken st reg r s1)"
| "phase_step st req (Awake reg e) s = (Cleared reg e, proxy_clear_missing st (job_id reg) s)"
| "phase_step st req (Cleared reg e) s = (case node_track (job_id reg) s of (g, s1) \<Rightarrow> (Tracked reg e g, s1))"
| "phase_step st req (Tracked reg e g) s =
     (if is_websocket_upgrade req then
        (case on_world (forward_websocket_upgrade (as_client st) e req) s of
           (Inr (resp, True), s1) \<Rightarrow> (Leaving (Forwarded resp) (Some g), s1)
         | (Inr (resp, False), s1) \<Rightarrow> (Replied (Forwarded resp) g, s1)
         | (Inl err, s1) \<Rightarrow> (Replied (StatusResponse (status_code err)) g, s1))
      else
        (case node_forward st e req s of
           (Inr resp, s1) \<Rightarrow> (Replied (Forwarded resp) g, s1)
         | (Inl err, s1) \<Rightarrow>
             (if \<not> is_retryable_transport err then (Replied (StatusResponse (status_code err)) g, s1)
              else case replayable_method (pr_method req) of
                     None \<Rightarrow> (Replied (StatusResponse (status_code err)) g, s1)
                   | Some m \<Rightarrow>
                       (Retrying reg e g (build_retry_request m (path_and_query req)) TRANSIENT_RETRY_BACKOFF_MS err, s1))))"
| "phase_step st req (Retrying reg e g rq (delay_ms # rest) err) s = (BackedOff reg e g rq rest, node_sleep st delay_ms s)"
| "phase_step st req (BackedOff reg e g rq rest) s =
     (case node_forward st e rq s of
        (Inr resp, s1) \<Rightarrow> (Replied (Forwarded resp) g, s1)
      | (Inl retry_err, s1) \<Rightarrow>
          if is_retryable_transport retry_err then (Retrying reg e g rq rest retry_err, s1)
          else (Replied (StatusResponse (status_code retry_err)) g, s1))"
| "phase_step st req (Retrying reg e g rq [] err) s =
     (case node_refresh_endpoint (as_orchestrator st) reg e s of (r, s1) \<Rightarrow> (Refreshed reg g rq err r, s1))"
| "phase_step st req (Refreshed reg g rq err r) s =
     (case r of
        Inr (Confirmed _) \<Rightarrow> (Replied (StatusResponse (status_code err)) g, proxy_clear_missing st (job_id reg) s)
      | Inr (Updated e) \<Rightarrow> (Resending reg e g rq, proxy_clear_missing st (job_id reg) s)
      | Inr Missing \<Rightarrow> (Rewaking reg g rq, s)
      | Inl (JobNotFound _) \<Rightarrow>
          (case proxy_handle_missing st (job_id reg) ''refresh'' s of (resp, s1) \<Rightarrow> (Replied resp g, s1))
      | Inl _ \<Rightarrow> (Replied (StatusResponse 502) g, s))"
| "phase_step st req (Rewaking reg g rq) s = (case as_wake st reg s of (r, s1) \<Rightarrow> rewoken st reg g rq r s1)"
| "phase_step st req (Rewoken reg e g rq) s = (Resending reg e g rq, proxy_clear_missing st (job_id reg) s)"
| "phase_step st req (Resending reg e g rq) s = (case forward_last st e rq s of (resp, s1) \<Rightarrow> (Replied resp g, s1))"
| "phase_step st req (Replied resp g) s = (Leaving resp None, node_drop g s)"
| "phase_step st req (Leaving resp t) s = (Answered resp t, record_for (as_store st) (request_job req) s)"
| "phase_step st req (Answered resp t) s = (Answered resp t, s)"
| "phase_step st req HungUp s = (HungUp, s)"

primrec phase_steps ::
  "'w app_state \<Rightarrow> proxy_request \<Rightarrow> nat \<Rightarrow> request_phase \<times> 'w node \<Rightarrow> request_phase \<times> 'w node" where
  "phase_steps st req 0 ps = ps"
| "phase_steps st req (Suc n) ps = phase_steps st req n (phase_step st req (fst ps) (snd ps))"

text \<open>One phase leads to another when nothing comes in between.\<close>

definition leads :: "'w app_state \<Rightarrow> proxy_request \<Rightarrow> request_phase \<times> 'w node \<Rightarrow> request_phase \<times> 'w node \<Rightarrow> bool" where
  "leads st req ps qs \<longleftrightarrow> (\<exists>n. phase_steps st req n ps = qs)"

lemma phase_steps_add: "phase_steps st req (m + n) ps = phase_steps st req n (phase_steps st req m ps)"
  by (induction m arbitrary: ps) simp_all

lemma leads_trans [trans]: "leads st req ps qs \<Longrightarrow> leads st req qs rs \<Longrightarrow> leads st req ps rs"
  unfolding leads_def by (metis phase_steps_add)

lemma leads_step: "leads st req (phase_step st req ph s) qs \<Longrightarrow> leads st req (ph, s) qs"
  unfolding leads_def by (metis fst_conv snd_conv phase_steps.simps(2))

lemma leads_here: "leads st req ps ps"
  unfolding leads_def by (metis phase_steps.simps(1))

text \<open>The end of a request that has an answer and no guard, or a tunnel.\<close>

lemma leads_leaving:
  "leads st req (Leaving resp t, s) (Answered resp t, record_for (as_store st) (request_job req) s)"
  by (rule leads_step) (simp add: leads_here)

lemma leads_resending:
  "forward_last st e rq s = (resp, t) \<Longrightarrow> leads st req (Resending reg e g rq, s) (Replied resp g, t)"
  by (rule leads_step) (simp add: leads_here)

lemma leads_rewaking:
  assumes "(case as_wake st reg s of
      (Inr e2, s2) \<Rightarrow> forward_last st e2 rq (proxy_clear_missing st (job_id reg) s2)
    | (Inl (JobNotFound _), s2) \<Rightarrow> proxy_handle_missing st (job_id reg) ''rewake'' s2
    | (Inl x, s2) \<Rightarrow> (TextResponse 503 (''retry wake error: '' @ error_to_string x), s2)) = (resp, t)"
  shows "leads st req (Rewaking reg g rq, s) (Replied resp g, t)"
proof -
  obtain r u where r: "as_wake st reg s = (r, u)" by force
  have step: "phase_step st req (Rewaking reg g rq) s = rewoken st reg g rq r u" using r by simp
  show ?thesis
  proof (cases r)
    case (Inr e)
    then have f: "forward_last st e rq (proxy_clear_missing st (job_id reg) u) = (resp, t)" using assms r by simp
    have "leads st req (Rewoken reg e g rq, u) (Replied resp g, t)"
      by (rule leads_step) (simp add: leads_resending [OF f])
    then show ?thesis using step Inr by (intro leads_step) (simp add: rewoken_def)
  next
    case (Inl x)
    then have "rewoken st reg g rq r u = (Replied resp g, t)"
      using assms r by (auto simp: rewoken_def split: nscale_error.splits)
    then show ?thesis using step by (intro leads_step) (simp add: leads_here)
  qed
qed

lemma leads_refresh:
  assumes "after_retries st reg e rq err s = (resp, t)"
  shows "leads st req (Retrying reg e g rq [] err, s) (Replied resp g, t)"
proof -
  obtain r u where r: "node_refresh_endpoint (as_orchestrator st) reg e s = (r, u)" by force
  have "leads st req (Refreshed reg g rq err r, u) (Replied resp g, t)"
  proof (cases "r = Inr Missing")
    case True
    then have "leads st req (Rewaking reg g rq, u) (Replied resp g, t)"
      using assms r by (intro leads_rewaking) (simp add: after_retries_def)
    then show ?thesis using True by (intro leads_step) simp
  next
    case False
    then show ?thesis using assms r
      by (intro leads_step)
        (auto simp: after_retries_def leads_here intro: leads_resending
          split: sum.splits endpoint_refresh.splits nscale_error.splits prod.splits)
  qed
  then show ?thesis using r by (intro leads_step) simp
qed

lemma leads_retrying:
  assumes "(case retry_transient st e rq ds err s of
      (Inr resp, s2) \<Rightarrow> (resp, s2) | (Inl last_err, s2) \<Rightarrow> after_retries st reg e rq last_err s2) = (resp, t)"
  shows "leads st req (Retrying reg e g rq ds err, s) (Replied resp g, t)"
  using assms
proof (induction ds arbitrary: err s)
  case Nil
  then show ?case by (simp add: leads_refresh)
next
  case (Cons d ds)
  obtain r u where r: "node_forward st e rq (node_sleep st d s) = (r, u)" by force
  have "leads st req (BackedOff reg e g rq ds, node_sleep st d s) (Replied resp g, t)"
    using Cons r by (intro leads_step) (auto simp: leads_here split: sum.splits if_splits)
  then show ?case by (intro leads_step) simp
qed

lemma leads_tracked:
  assumes "\<not> is_websocket_upgrade req" and "proxy_forward st reg e req s = (resp, t)"
  shows "leads st req (Tracked reg e g, s) (Replied resp g, t)"
  using assms
  by (intro leads_step)
    (auto simp: proxy_forward_def Let_def leads_here intro!: leads_retrying
      split: prod.splits sum.splits option.splits if_splits)

lemma leads_cleared:
  assumes "proxy_tracked st reg e req s = ((resp, t), s1)"
  shows "leads st req (Cleared reg e, s) (Answered resp t, record_for (as_store st) (request_job req) s1)"
proof -
  obtain g u where g: "node_track (job_id reg) s = (g, u)" by force
  have "leads st req (Tracked reg e g, u) (Leaving resp t, s1)"
  proof (cases "is_websocket_upgrade req")
    case True
    have dropped: "leads st req (Replied r g, v) (Leaving r None, node_drop g v)" for r v
      by (rule leads_step) (simp add: leads_here)
    show ?thesis using assms g True
      by (intro leads_step) (auto simp: proxy_tracked_def leads_here intro: dropped split: prod.splits sum.splits bool.splits)
  next
    case False
    obtain r v where p: "proxy_forward st reg e req u = (r, v)" by force
    have "leads st req (Replied r g, v) (Leaving r None, node_drop g v)" by (rule leads_step) (simp add: leads_here)
    with leads_tracked [OF False p] have "leads st req (Tracked reg e g, u) (Leaving r None, node_drop g v)"
      by (rule leads_trans)
    then show ?thesis using assms g p False by (simp add: proxy_tracked_def)
  qed
  then have "leads st req (Cleared reg e, s) (Leaving resp t, s1)" using g by (intro leads_step) simp
  then show ?thesis using leads_leaving by (rule leads_trans)
qed

lemma handler_looked_up:
  assumes "phase_step st req Recorded s = (LookedUp reg, u)"
  shows "proxy_handler st req s =
    (case as_wake st reg u of
       (Inr e, s2) \<Rightarrow> proxy_tracked st reg e req (proxy_clear_missing st (job_id reg) s2)
     | (Inl (JobNotFound _), s2) \<Rightarrow>
         (case proxy_handle_missing st (job_id reg) ''wake'' s2 of (resp, s3) \<Rightarrow> ((resp, None), s3))
     | (Inl x, s2) \<Rightarrow> ((TextResponse 503 (''wake error: '' @ error_to_string x), None), s2))"
  using assms by (auto simp: proxy_handler_def Let_def split: option.split_asm prod.split_asm sum.split_asm)

lemma handler_not_looked_up:
  assumes "proxy_handler st req s = ((resp, t), s1)" and "\<And>reg u. phase_step st req Recorded s \<noteq> (LookedUp reg, u)"
  shows "phase_step st req Recorded s = (Leaving resp t, s1)"
proof (cases "header_get ''host'' (pr_headers req)")
  case (Some v)
  let ?id = "JobId (first_label (case to_str v of None \<Rightarrow> [] | Some h \<Rightarrow> h))"
  obtain q u where q: "on_world (get (as_registry st) ?id) s = (q, u)" by force
  show ?thesis
  proof (cases q)
    case (Inl e)
    then show ?thesis using assms(1) Some q by (simp add: proxy_handler_def)
  next
    case (Inr ro)
    have "ro = None"
    proof (cases ro)
      case reg: (Some reg)
      then have "phase_step st req Recorded s = (LookedUp reg, u)" using Some q Inr by simp
      with assms(2) show ?thesis by blast
    qed simp
    then show ?thesis using assms(1) Some q Inr by (simp add: proxy_handler_def)
  qed
qed (use assms(1) in \<open>simp add: proxy_handler_def\<close>)

lemma leads_looked_up:
  assumes "as_wake st reg u = (r, v)"
    and "(case (r, v) of
       (Inr e, s2) \<Rightarrow> proxy_tracked st reg e req (proxy_clear_missing st (job_id reg) s2)
     | (Inl (JobNotFound _), s2) \<Rightarrow>
         (case proxy_handle_missing st (job_id reg) ''wake'' s2 of (resp, s3) \<Rightarrow> ((resp, None), s3))
     | (Inl x, s2) \<Rightarrow> ((TextResponse 503 (''wake error: '' @ error_to_string x), None), s2)) = ((resp, t), s1)"
  shows "leads st req (LookedUp reg, u) (Answered resp t, record_for (as_store st) (request_job req) s1)"
proof (cases r)
  case (Inr e)
  have "leads st req (Awake reg e, v) (Answered resp t, record_for (as_store st) (request_job req) s1)"
    using assms(2) Inr leads_cleared [of st reg e req "proxy_clear_missing st (job_id reg) v"] by (intro leads_step) simp
  then show ?thesis using assms(1) Inr by (intro leads_step) (simp add: woken_def)
next
  case (Inl x)
  then have "woken st reg (Inl x) v = (Leaving resp t, s1)"
    using assms(2) by (cases x) (simp_all add: woken_def split: prod.splits)
  then show ?thesis using assms(1) Inl leads_leaving by (intro leads_step) simp
qed

lemma leads_handler:
  assumes "proxy_handler st req s = ((resp, t), s1)"
  shows "leads st req (Recorded, s) (Answered resp t, record_for (as_store st) (request_job req) s1)"
proof (cases "\<exists>reg u. phase_step st req Recorded s = (LookedUp reg, u)")
  case True
  then obtain reg u where l: "phase_step st req Recorded s = (LookedUp reg, u)" by blast
  obtain r v where w: "as_wake st reg u = (r, v)" by force
  have "leads st req (LookedUp reg, u) (Answered resp t, record_for (as_store st) (request_job req) s1)"
    using assms unfolding handler_looked_up [OF l] w by (rule leads_looked_up [OF w])
  then show ?thesis using l by (intro leads_step) simp
next
  case False
  with handler_not_looked_up [OF assms] have "phase_step st req Recorded s = (Leaving resp t, s1)" by blast
  then show ?thesis using leads_leaving by (intro leads_step) simp
qed

text \<open>When nothing comes in between, the steps of a request are \<open>serve\<close>.\<close>

lemma request_is_serve:
  "leads st req (Arrived, s) (case serve st req s of ((resp, t), s1) \<Rightarrow> (Answered resp t, s1))"
proof -
  obtain resp t s1 where h: "proxy_handler st req (record_for (as_store st) (request_job req) s) = ((resp, t), s1)"
    by (metis prod.exhaust)
  from leads_handler [OF h] show ?thesis by (intro leads_step) (simp add: serve_def activity_service_def h)
qed

subsection \<open>A tick in steps\<close>

text \<open>
  In \<open>Working\<close> the list of idle jobs that is left; the phases after it are those of its first job: its
  deferral has ended, it has no request in flight, there is no traffic, its registration is known, the
  orchestrator has answered. \<open>Releasing\<close> is about to drop the lock guard.
\<close>

datatype controller_phase =
    Resting
  | LockHeld
  | Working "job_id list"
  | Undeferred job_id "job_id list"
  | NotInFlight job_id "job_id list"
  | Quiet job_id "job_id list"
  | Registered job_id job_registration "job_id list"
  | ScaledDown job_id "unit result" "job_id list"
  | Releasing

fun controller_step :: "'w controller \<Rightarrow> controller_phase \<Rightarrow> 'w node \<Rightarrow> controller_phase \<times> 'w node" where
  "controller_step ct Resting s =
     (case on_world (try_acquire_lock (ct_store ct) SCALE_DOWN_LOCK_KEY (ct_lock_ttl ct)) s of
        (Inr True, s1) \<Rightarrow> (LockHeld, s1)
      | (_, s1) \<Rightarrow> (Resting, s1))"
| "controller_step ct LockHeld s =
     (case on_world (get_idle_jobs (ct_store ct) (ct_idle_threshold ct)) s of
        (Inl _, s1) \<Rightarrow> (Releasing, s1)
      | (Inr idle_jobs, s1) \<Rightarrow> (Working idle_jobs, s1))"
| "controller_step ct (Working []) s = (Releasing, s)"
| "controller_step ct (Working (j # js)) s =
     (if ct_cancelled ct (nd_world s) then (Releasing, s)
      else case check_deferred ct j s of
             (True, s1) \<Rightarrow> (Working js, s1)
           | (False, s1) \<Rightarrow> (Undeferred j js, s1))"
| "controller_step ct (Undeferred j js) s =
     (if has_in_flight (job_str j) (nd_flights s) then (Working js, try_world (record_activity (ct_store ct) j) s)
      else (NotInFlight j js, s))"
| "controller_step ct (NotInFlight j js) s =
     (case check_traffic ct j s of
        (True, s1) \<Rightarrow> (Working js, s1)
      | (False, s1) \<Rightarrow> (Quiet j js, s1))"
| "controller_step ct (Quiet j js) s =
     (case on_world (get (ct_registry ct) j) s of
        (Inl _, s1) \<Rightarrow> (Working js, s1)
      | (Inr None, s1) \<Rightarrow> (Working js, try_world (remove_activity (ct_store ct) j) s1)
      | (Inr (Some reg), s1) \<Rightarrow> (Registered j reg js, s1))"
| "controller_step ct (Registered j reg js) s =
     (case on_world (scale_down (ct_orchestrator ct) (job_id reg) (nomad_group reg)) s of
        (r, s1) \<Rightarrow> (ScaledDown j r js, s1))"
| "controller_step ct (ScaledDown j r js) s =
     (Working js,
      case r of
        Inr _ \<Rightarrow> handle_scale_down_result ct j (Inr ()) (clear_missing_job_counter ct j s)
      | Inl (JobNotFound _) \<Rightarrow> handle_missing_job ct j s
      | Inl (DeploymentInProgress a b) \<Rightarrow>
          handle_scale_down_result ct j (Inl (DeploymentInProgress a b)) (clear_missing_job_counter ct j s)
      | Inl e \<Rightarrow> handle_scale_down_result ct j (Inl e) s)"
| "controller_step ct Releasing s = (Resting, drop_lock_guard ct s)"

inductive controller_steps :: "'w controller \<Rightarrow> controller_phase \<Rightarrow> 'w node \<Rightarrow> controller_phase \<Rightarrow> 'w node \<Rightarrow> bool" for ct where
  here: "controller_steps ct ph s ph s"
| more: "controller_steps ct ph1 s1 ph2 s2 \<Longrightarrow> controller_step ct ph s = (ph1, s1) \<Longrightarrow> controller_steps ct ph s ph2 s2"

lemma controller_steps_trans:
  "controller_steps ct a s b t \<Longrightarrow> controller_steps ct b t c u \<Longrightarrow> controller_steps ct a s c u"
  by (induction rule: controller_steps.induct) (auto intro: controller_steps.more)

lemma controller_steps_one: "controller_step ct a s = (b, t) \<Longrightarrow> controller_steps ct a s b t"
  by (blast intro: controller_steps.intros)

lemma steps_registered:
  "controller_steps ct (Quiet j js) s (Working js) (scale_down_registered ct j s)"
proof -
  obtain r s1 where g: "on_world (get (ct_registry ct) j) s = (r, s1)" by force
  consider e where "r = Inl e" | "r = Inr None" | reg where "r = Inr (Some reg)" by (metis sum.exhaust option.exhaust)
  then show ?thesis
  proof cases
    case (3 reg)
    obtain q s2 where q: "on_world (scale_down (ct_orchestrator ct) (job_id reg) (nomad_group reg)) s1 = (q, s2)" by force
    have "controller_steps ct (Quiet j js) s (ScaledDown j q js) s2"
      using g 3 q by (intro controller_steps.more [OF controller_steps_one]) simp_all
    moreover have "controller_step ct (ScaledDown j q js) s2 = (Working js, scale_down_registered ct j s)"
      using g 3 q by (auto simp: scale_down_registered_def split: sum.split nscale_error.split)
    ultimately show ?thesis by (blast intro: controller_steps_trans controller_steps_one)
  qed (use g in \<open>simp_all add: controller_steps_one scale_down_registered_def\<close>)
qed

lemma steps_job:
  assumes "\<not> ct_cancelled ct (nd_world s)"
  shows "controller_steps ct (Working (j # js)) s (Working js) (scale_down_job ct j s)"
proof -
  obtain d s1 where d: "check_deferred ct j s = (d, s1)" by force
  obtain b s2 where b: "check_traffic ct j s1 = (b, s2)" by force
  consider "d" | "\<not> d" "has_in_flight (job_str j) (nd_flights s1)"
    | "\<not> d" "\<not> has_in_flight (job_str j) (nd_flights s1)" "b"
    | "\<not> d" "\<not> has_in_flight (job_str j) (nd_flights s1)" "\<not> b" by blast
  then show ?thesis
  proof cases
    case 1
    then show ?thesis using assms d by (intro controller_steps_one) (simp add: scale_down_job_def)
  next
    case 2
    have "controller_step ct (Working (j # js)) s = (Undeferred j js, s1)"
      and "controller_step ct (Undeferred j js) s1 = (Working js, scale_down_job ct j s)"
      using assms d 2 by (simp_all add: scale_down_job_def)
    then show ?thesis by (blast intro: controller_steps.more controller_steps_one)
  next
    case 3
    have "controller_step ct (Working (j # js)) s = (Undeferred j js, s1)"
      and "controller_step ct (Undeferred j js) s1 = (NotInFlight j js, s1)"
      and "controller_step ct (NotInFlight j js) s1 = (Working js, scale_down_job ct j s)"
      using assms d b 3 by (simp_all add: scale_down_job_def)
    then show ?thesis by (blast intro: controller_steps.more controller_steps_one)
  next
    case 4
    have "controller_step ct (Working (j # js)) s = (Undeferred j js, s1)"
      and "controller_step ct (Undeferred j js) s1 = (NotInFlight j js, s1)"
      and "controller_step ct (NotInFlight j js) s1 = (Quiet j js, s2)"
      and "scale_down_job ct j s = scale_down_registered ct j s2"
      using assms d b 4 by (simp_all add: scale_down_job_def)
    then show ?thesis by (metis controller_steps.more steps_registered)
  qed
qed

lemma steps_all: "controller_steps ct (Working js) s Releasing (scale_down_all ct js s)"
proof (induction js arbitrary: s)
  case (Cons j js)
  show ?case
  proof (cases "ct_cancelled ct (nd_world s)")
    case False
    then show ?thesis using controller_steps_trans [OF steps_job Cons.IH] by simp
  qed (simp add: controller_steps_one)
qed (simp add: controller_steps_one)

text \<open>When nothing comes in between, the steps of the controller from rest to rest are \<open>tick\<close>.\<close>

lemma tick_is_steps: "controller_steps ct Resting s Resting (snd (tick ct s))"
proof -
  obtain r s1 where a: "on_world (try_acquire_lock (ct_store ct) SCALE_DOWN_LOCK_KEY (ct_lock_ttl ct)) s = (r, s1)" by force
  obtain q s2 where q: "on_world (get_idle_jobs (ct_store ct) (ct_idle_threshold ct)) s1 = (q, s2)" by force
  show ?thesis
  proof (cases "r = Inr True")
    case True
    have "controller_steps ct LockHeld s1 Releasing (snd (tick_locked ct s1))"
    proof (cases q)
      case (Inr js)
      then have "controller_step ct LockHeld s1 = (Working js, s2)" using q by simp
      from controller_steps.more [OF steps_all this] show ?thesis using Inr q by (simp add: tick_locked_def)
    qed (use q in \<open>simp add: controller_steps_one tick_locked_def\<close>)
    moreover have "controller_step ct Resting s = (LockHeld, s1)" using a True by simp
    moreover have "controller_step ct Releasing (snd (tick_locked ct s1)) = (Resting, snd (tick ct s))"
      using a True by (simp add: tick_def split: prod.split)
    ultimately show ?thesis by (blast intro: controller_steps.more controller_steps_trans controller_steps_one)
  next
    case False
    then have "controller_step ct Resting s = (Resting, snd (tick ct s))"
      using a by (auto simp: tick_def split: sum.splits bool.splits)
    then show ?thesis by (rule controller_steps_one)
  qed
qed

text \<open>
  C25: The steps are the operations. When nothing comes in between, the steps of a request give the
  answer, the tunnel and the state of \<open>serve\<close>, and the steps of the controller lead from rest to
  rest and to the state that \<open>tick\<close> leaves; so \<open>Process\<close>, which runs whole operations, is the
  case without interference of the interleaved machine.
\<close>

theorem steps_are_operations:
  "leads st req (Arrived, s) (case serve st req s of ((resp, t), s1) \<Rightarrow> (Answered resp t, s1)) \<and>
   controller_steps ct Resting s Resting (snd (tick ct s))"
  using request_is_serve tick_is_steps by blast

subsection \<open>The machine\<close>

record 'w interleaved =
  il_events :: "'w ep_state"
  il_requests :: "(proxy_request \<times> request_phase) list"
  il_controller :: controller_phase

abbreviation il_node :: "'w interleaved \<Rightarrow> 'w node" where
  "il_node s \<equiv> ep_node (il_events s)"

definition set_node :: "'w node \<Rightarrow> 'w interleaved \<Rightarrow> 'w interleaved" where
  "set_node n s = s\<lparr>il_events := (il_events s)\<lparr>ep_node := n\<rparr>\<rparr>"

text \<open>\<open>World\<close> is any change outside the process: time passes, other instances and servers act.\<close>

datatype 'w il_op =
    Arrive proxy_request
  | RequestStep nat
  | TunnelCloses nat
  | HangUp nat
  | ControllerStep
  | Operation process_op
  | World 'w

fun background :: "process_op \<Rightarrow> bool" where
  "background (ServeRequest req) = False"
| "background (CloseTunnel i) = False"
| "background ScaleDownTick = False"
| "background _ = True"

text \<open>A handler that has not answered is dropped when its client disconnects, with what it holds.\<close>

fun droppable :: "request_phase \<Rightarrow> bool" where
  "droppable (Leaving resp t) = False"
| "droppable (Answered resp t) = False"
| "droppable HungUp = False"
| "droppable _ = True"

text \<open>The guards that a request, or its open tunnel, holds.\<close>

fun guards_of :: "request_phase \<Rightarrow> in_flight_guard list" where
  "guards_of (Tracked reg e g) = [g]"
| "guards_of (Retrying reg e g rq ds err) = [g]"
| "guards_of (BackedOff reg e g rq ds) = [g]"
| "guards_of (Refreshed reg g rq err r) = [g]"
| "guards_of (Rewaking reg g rq) = [g]"
| "guards_of (Rewoken reg e g rq) = [g]"
| "guards_of (Resending reg e g rq) = [g]"
| "guards_of (Replied resp g) = [g]"
| "guards_of (Leaving resp t) = (case t of None \<Rightarrow> [] | Some g \<Rightarrow> [g])"
| "guards_of (Answered resp t) = (case t of None \<Rightarrow> [] | Some g \<Rightarrow> [g])"
| "guards_of _ = []"

fun il_step :: "'w process \<Rightarrow> 'w il_op \<Rightarrow> 'w interleaved \<Rightarrow> 'w interleaved" where
  "il_step p (Arrive req) s = s\<lparr>il_requests := il_requests s @ [(req, Arrived)]\<rparr>"
| "il_step p (RequestStep i) s =
     (if i < length (il_requests s) then
        let (req, ph) = il_requests s ! i in
        case phase_step (ps_app p) req ph (il_node s) of
          (ph1, n) \<Rightarrow> set_node n (s\<lparr>il_requests := (il_requests s)[i := (req, ph1)]\<rparr>)
      else s)"
| "il_step p (TunnelCloses i) s =
     (if i < length (il_requests s) then
        case il_requests s ! i of
          (req, Answered resp (Some g)) \<Rightarrow>
            set_node (tunnel_closed (Some g) (il_node s)) (s\<lparr>il_requests := (il_requests s)[i := (req, Answered resp None)]\<rparr>)
        | _ \<Rightarrow> s
      else s)"
| "il_step p (HangUp i) s =
     (if i < length (il_requests s) then
        let (req, ph) = il_requests s ! i in
        if droppable ph
        then set_node (fold node_drop (guards_of ph) (il_node s)) (s\<lparr>il_requests := (il_requests s)[i := (req, HungUp)]\<rparr>)
        else s
      else s)"
| "il_step p ControllerStep s =
     (case controller_step (ps_controller p) (il_controller s) (il_node s) of
        (ph, n) \<Rightarrow> set_node n (s\<lparr>il_controller := ph\<rparr>))"
| "il_step p (Operation op) s =
     (if background op
      then s\<lparr>il_events := sys_events (process_step p op \<lparr>sys_events = il_events s, sys_tunnels = []\<rparr>)\<rparr> else s)"
| "il_step p (World w) s = set_node ((il_node s)\<lparr>nd_world := w\<rparr>) s"

inductive il_reachable :: "'w runtime \<Rightarrow> config \<Rightarrow> 'w process \<Rightarrow> 'w interleaved \<Rightarrow> bool" for rt cfg where
  start: "boot rt cfg w = Inr (p, n) \<Longrightarrow>
     il_reachable rt cfg p \<lparr>il_events = ep_new n, il_requests = [], il_controller = Resting\<rparr>"
| step: "il_reachable rt cfg p s \<Longrightarrow> il_reachable rt cfg p (il_step p op s)"

definition held :: "'w interleaved \<Rightarrow> in_flight_guard list" where
  "held s = concat (map (\<lambda>r. guards_of (snd r)) (il_requests s))"

definition held_for :: "string \<Rightarrow> 'w interleaved \<Rightarrow> in_flight_guard list" where
  "held_for k s = filter (\<lambda>g. guards_job (nd_flights (il_node s)) g k) (held s)"

subsection \<open>The counters count the guards\<close>

definition guards_ok :: "tracker \<Rightarrow> in_flight_guard multiset \<Rightarrow> bool" where
  "guards_ok f G \<longleftrightarrow> (\<exists>hs. G = mset (map fst hs) \<and> fl.consistent (f, hs))"

lemma guards_ok_track:
  assumes "guards_ok f G" and "track j f = (g, f1)"
  shows "guards_ok f1 (add_mset g G)"
proof -
  obtain hs where "G = mset (map fst hs)" "fl.consistent (f, hs)" using assms(1) by (auto simp: guards_ok_def)
  with fl.consistent_take [OF _ assms(2)] show ?thesis
    by (auto simp: guards_ok_def intro!: exI [of _ "hs @ [(g, j)]"])
qed

lemma guards_ok_drop:
  assumes "guards_ok f G" and "g \<in># G"
  shows "guards_ok (drop_guard g f) (G - {#g#})"
proof -
  obtain hs where hs: "G = mset (map fst hs)" "fl.consistent (f, hs)" using assms(1) by (auto simp: guards_ok_def)
  with assms(2) obtain i where i: "i < length hs" "fst (hs ! i) = g" by (auto simp: in_set_conv_nth)
  have "mset (map fst hs) = add_mset g (mset (map fst (take i hs @ drop (Suc i) hs)))"
    using arg_cong [OF id_take_nth_drop [OF i(1)], of "\<lambda>xs. mset (map fst xs)"] i(2) by simp
  with fl.consistent_release [OF hs(2) i(1)] hs(1) i(2) show ?thesis
    by (auto simp: guards_ok_def intro!: exI [of _ "take i hs @ drop (Suc i) hs"])
qed

lemma guards_ok_count:
  assumes "guards_ok f (mset gs)"
  shows "Inflight.count k f = of_nat (length (filter (\<lambda>g. guards_job f g k) gs))"
proof -
  obtain hs where hs: "mset gs = mset (map fst hs)" "fl.consistent (f, hs)" using assms by (auto simp: guards_ok_def)
  have "guards_job f (fst h) k \<longleftrightarrow> snd h = k" if "h \<in> set hs" for h
    using hs(2) that by (fastforce simp: fl.consistent_def guards_job_def tracker_wf_def)
  then have "filter (\<lambda>h. guards_job f (fst h) k) hs = filter (\<lambda>h. snd h = k) hs" by (rule filter_cong [OF refl])
  moreover have "length (filter (\<lambda>g. guards_job f g k) gs) = length (filter (\<lambda>g. guards_job f g k) (map fst hs))"
    using arg_cong [OF hs(1), of "\<lambda>M. size (filter_mset (\<lambda>g. guards_job f g k) M)"] by (metis mset_filter size_mset)
  ultimately show ?thesis using hs(2) by (simp add: fl.consistent_def filter_map comp_def)
qed

lemma mset_concat_update:
  "i < length xs \<Longrightarrow>
   mset (concat (map f (xs[i := y]))) + mset (f (xs ! i)) = mset (concat (map f xs)) + mset (f y)"
proof (induction xs arbitrary: i)
  case (Cons x xs)
  show ?case
  proof (cases i)
    case (Suc k)
    with Cons.IH [of k] Cons.prems show ?thesis by (simp add: ac_simps)
  qed simp
qed simp

text \<open>What a step of a request does to the tracker: nothing, or it takes, or it drops the guard.\<close>

lemma proxy_handle_missing_same: "proxy_handle_missing st j src s = (resp, t) \<Longrightarrow> nd_flights t = nd_flights s"
  using proxy_handle_missing_flights [of st j src s] by simp

lemma woken_flights: "woken st reg r s = (ph1, t) \<Longrightarrow> nd_flights t = nd_flights s \<and> guards_of ph1 = []"
  by (auto simp: woken_def dest!: proxy_handle_missing_same split: sum.splits nscale_error.splits prod.splits)

lemma rewoken_flights: "rewoken st reg g rq r s = (ph1, t) \<Longrightarrow> nd_flights t = nd_flights s \<and> guards_of ph1 = [g]"
  by (auto simp: rewoken_def dest!: proxy_handle_missing_same split: sum.splits nscale_error.splits prod.splits)

lemma forward_last_same: "forward_last st e rq s = (resp, t) \<Longrightarrow> nd_flights t = nd_flights s"
  using forward_last_flights [of st e rq s] by simp

lemma node_refresh_same: "node_refresh_endpoint orch reg e s = (r, t) \<Longrightarrow> nd_flights t = nd_flights s"
  using node_refresh_flights [of orch reg e s] by simp

lemma phase_step_flights:
  assumes "as_wake st = node_ensure_running env" and "phase_step st req ph s = (ph1, t)"
  shows "nd_flights t = nd_flights s \<and> guards_of ph1 = guards_of ph \<or>
    (\<exists>j g. track j (nd_flights s) = (g, nd_flights t) \<and> guards_of ph = [] \<and> guards_of ph1 = [g]) \<or>
    (\<exists>g. nd_flights t = drop_guard g (nd_flights s) \<and> guards_of ph = [g] \<and> guards_of ph1 = [])"
proof -
  have wake: "nd_flights u = nd_flights s" if "as_wake st reg s = (r, u)" for reg r u
    using alone.ensure_flights [of env reg s] that assms(1) by simp
  show ?thesis
  proof (cases "(st, req, ph, s)" rule: phase_step.cases)
    case (2 st' req' s')
    then show ?thesis using assms(2) by (auto dest!: on_world_flights split: option.splits prod.splits sum.splits)
  next
    case (5 st' req' reg e s')
    then show ?thesis using assms(2) by (auto simp: node_track_def split: prod.splits)
  next
    case (6 st' req' reg e g s')
    then show ?thesis using assms(2)
      by (auto dest!: on_world_flights node_forward_same split: prod.splits sum.splits bool.splits if_splits option.splits)
  next
    case (8 st' req' reg e g rq ds s')
    then show ?thesis using assms(2) by (auto dest!: node_forward_same split: prod.splits sum.splits if_splits)
  next
    case (10 st' req' reg g rq err r s')
    then show ?thesis using assms(2)
      by (auto dest!: proxy_handle_missing_same split: prod.splits sum.splits endpoint_refresh.splits nscale_error.splits)
  qed (use assms(2) wake in \<open>auto simp: node_drop_def node_sleep_def
      dest!: woken_flights rewoken_flights forward_last_same node_refresh_same split: prod.splits\<close>)
qed

lemma controller_step_flights:
  "controller_step ct ph s = (ph1, t) \<Longrightarrow> nd_flights t = nd_flights s"
  by (cases "(ct, ph, s)" rule: controller_step.cases)
    (auto simp: clear_missing_job_counter_def drop_lock_guard_def
      dest!: on_world_flights check_traffic_flights check_deferred_frame(2)
      split: prod.splits sum.splits bool.splits option.splits if_splits nscale_error.splits)

lemma background_flights:
  "background op \<Longrightarrow> nd_flights (sys_node (process_step p op s)) = nd_flights (sys_node s)"
  by (cases op) (simp_all add: on_node_def op_flights)

definition il_inv :: "'w interleaved \<Rightarrow> bool" where
  "il_inv s \<longleftrightarrow> guards_ok (nd_flights (il_node s)) (mset (held s))"

lemma guards_of_small: "length (guards_of ph) \<le> 1"
  by (cases ph) (auto split: option.split)

lemma set_node_simps [simp]:
  "il_node (set_node n s) = n" "il_requests (set_node n s) = il_requests s" "il_controller (set_node n s) = il_controller s"
  by (simp_all add: set_node_def)

lemma il_inv_frame:
  "il_inv s \<Longrightarrow> nd_flights (il_node t) = nd_flights (il_node s) \<Longrightarrow> il_requests t = il_requests s \<Longrightarrow> il_inv t"
  by (simp add: il_inv_def held_def)

lemma il_inv_request:
  assumes inv: "il_inv s" and i: "i < length (il_requests s)" "il_requests s ! i = (req, ph)"
    and t: "il_requests t = (il_requests s)[i := (req, ph1)]"
    and f: "nd_flights (il_node t) = nd_flights (il_node s) \<and> guards_of ph1 = guards_of ph \<or>
      (\<exists>j g. track j (nd_flights (il_node s)) = (g, nd_flights (il_node t)) \<and> guards_of ph = [] \<and> guards_of ph1 = [g]) \<or>
      (\<exists>g. nd_flights (il_node t) = drop_guard g (nd_flights (il_node s)) \<and> guards_of ph = [g] \<and> guards_of ph1 = [])"
  shows "il_inv t"
proof -
  have m: "mset (held t) + mset (guards_of ph) = mset (held s) + mset (guards_of ph1)"
    using mset_concat_update [OF i(1), of "\<lambda>r. guards_of (snd r)" "(req, ph1)"] i(2) by (simp add: held_def t)
  show ?thesis using f
  proof (elim disjE exE conjE)
    fix j g
    assume "track j (nd_flights (il_node s)) = (g, nd_flights (il_node t))" "guards_of ph = []" "guards_of ph1 = [g]"
    then show ?thesis using m guards_ok_track inv by (fastforce simp: il_inv_def)
  next
    fix g
    assume g: "nd_flights (il_node t) = drop_guard g (nd_flights (il_node s))" "guards_of ph = [g]" "guards_of ph1 = []"
    then have "mset (held s) = add_mset g (mset (held t))" using m by simp
    with guards_ok_drop [of "nd_flights (il_node s)" "mset (held s)" g] inv g(1) show ?thesis by (simp add: il_inv_def)
  qed (use m inv in \<open>simp add: il_inv_def\<close>)
qed

lemma il_inv_step:
  assumes "as_wake (ps_app p) = node_ensure_running env" and "il_inv s"
  shows "il_inv (il_step p op s)"
proof (cases op)
  case (Arrive req)
  then show ?thesis using assms(2) by (simp add: il_inv_def held_def)
next
  case (RequestStep i)
  show ?thesis
  proof (cases "i < length (il_requests s)")
    case True
    obtain req ph where r: "il_requests s ! i = (req, ph)" by force
    obtain ph1 n where q: "phase_step (ps_app p) req ph (il_node s) = (ph1, n)" by force
    have "il_step p op s = set_node n (s\<lparr>il_requests := (il_requests s)[i := (req, ph1)]\<rparr>)"
      using True r q by (simp add: RequestStep)
    then show ?thesis
      using il_inv_request [OF assms(2) True r, of "il_step p op s" ph1] phase_step_flights [OF assms(1) q] by simp
  qed (use assms(2) in \<open>simp add: RequestStep\<close>)
next
  case (TunnelCloses i)
  show ?thesis
  proof (cases "i < length (il_requests s) \<and> (\<exists>req resp g. il_requests s ! i = (req, Answered resp (Some g)))")
    case True
    then obtain req resp g where i: "i < length (il_requests s)"
      and r: "il_requests s ! i = (req, Answered resp (Some g))" by blast
    have "il_requests (il_step p op s) = (il_requests s)[i := (req, Answered resp None)]"
      "nd_flights (il_node (il_step p op s)) = drop_guard g (nd_flights (il_node s))"
      using i r by (simp_all add: TunnelCloses tunnel_closed_def node_drop_def)
    then show ?thesis using il_inv_request [OF assms(2) i r, of "il_step p op s" "Answered resp None"] by simp
  next
    case False
    then have "il_step p op s = s"
      by (auto simp: TunnelCloses split: prod.split request_phase.split option.split)
    then show ?thesis using assms(2) by simp
  qed
next
  case (HangUp i)
  show ?thesis
  proof (cases "i < length (il_requests s) \<and> droppable (snd (il_requests s ! i))")
    case True
    obtain req ph where r: "il_requests s ! i = (req, ph)" by force
    have "il_requests (il_step p op s) = (il_requests s)[i := (req, HungUp)]"
      "il_node (il_step p op s) = fold node_drop (guards_of ph) (il_node s)"
      using True r by (simp_all add: HangUp)
    moreover have "guards_of ph = [] \<or> (\<exists>g. guards_of ph = [g])"
      using guards_of_small [of ph] by (cases "guards_of ph") auto
    ultimately show ?thesis
      using il_inv_request [OF assms(2) _ r, of "il_step p op s" HungUp] True by (auto simp: node_drop_def)
  next
    case False
    then have "il_step p op s = s" by (auto simp: HangUp Let_def split: prod.split)
    then show ?thesis using assms(2) by simp
  qed
next
  case ControllerStep
  then show ?thesis using assms(2) by (auto simp: il_inv_def held_def dest!: controller_step_flights split: prod.split)
next
  case (Operation bop)
  then show ?thesis using assms(2) background_flights [of bop p "\<lparr>sys_events = il_events s, sys_tunnels = []\<rparr>"]
    by (auto simp: il_inv_def held_def)
next
  case (World w)
  then show ?thesis using assms(2) by (simp add: il_inv_def held_def)
qed

lemma il_reachable_inv:
  "il_reachable rt cfg p s \<Longrightarrow> as_wake (ps_app p) = node_ensure_running (wake_env_of rt cfg) \<and> il_inv s"
proof (induction rule: il_reachable.induct)
  case (start w p n)
  have "fl.consistent (tracker_new, [])" by (simp add: fl.consistent_def fl.new_wf fl.new_counted)
  then have "guards_ok tracker_new {#}" by (auto simp: guards_ok_def)
  with boot_app [OF start] show ?case by (simp add: il_inv_def held_def ep_new_def)
next
  case (step p s op)
  then show ?case using il_inv_step by blast
qed

lemma counts_held:
  assumes "il_inv s" and "length (held s) < 2 ^ 64"
  shows "unat (Inflight.count k (nd_flights (il_node s))) = length (held_for k s)"
proof -
  have "length (held_for k s) \<le> length (held s)" by (simp add: held_for_def)
  then have "length (held_for k s) < 2 ^ 64" using assms(2) by linarith
  moreover have "Inflight.count k (nd_flights (il_node s)) = of_nat (length (held_for k s))"
    using assms(1) by (simp add: il_inv_def held_for_def guards_ok_count)
  ultimately show ?thesis by (simp add: unsigned_of_nat take_bit_nat_eq_self)
qed

text \<open>
  C9: The in-flight counters are exact at every moment. However the steps of requests, of the
  controller, of the event processor and the admin API and the changes of the outside world interleave,
  the in-flight count of a job is at every moment the number of the guards that its requests
  and open tunnels hold, as long as fewer than \<open>2 ^ 64\<close> are held.
\<close>

theorem interleaved_counts:
  assumes "il_reachable rt cfg p s" and "length (held s) < 2 ^ 64"
  shows "unat (Inflight.count k (nd_flights (il_node s))) = length (held_for k s)"
  using counts_held il_reachable_inv [OF assms(1)] assms(2) by blast

subsection \<open>The in-flight check\<close>

definition il_start :: "'w node \<Rightarrow> 'w interleaved" where
  "il_start n = \<lparr>il_events = ep_new n, il_requests = [], il_controller = Resting\<rparr>"

definition il_run :: "'w process \<Rightarrow> 'w il_op list \<Rightarrow> 'w interleaved \<Rightarrow> 'w interleaved" where
  "il_run p es s = fold (il_step p) es s"

lemma il_run_snoc: "il_run p (es @ [op]) s = il_step p op (il_run p es s)"
  by (simp add: il_run_def)

lemma il_run_reachable: "boot rt cfg w = Inr (p, n) \<Longrightarrow> il_reachable rt cfg p (il_run p es (il_start n))"
proof (induction es rule: rev_induct)
  case Nil
  then show ?case using il_reachable.start by (simp add: il_run_def il_start_def)
next
  case (snoc op es)
  then show ?case by (simp add: il_run_snoc il_reachable.step)
qed

lemma held_le: "length (held s) \<le> length (il_requests s)"
proof -
  have "length (concat (map (\<lambda>r. guards_of (snd r)) rs)) \<le> length rs" for rs :: "('x \<times> request_phase) list"
    by (induction rs) (auto intro: order_trans [OF add_mono [OF guards_of_small]])
  then show ?thesis by (simp add: held_def)
qed

lemma il_step_requests: "length (il_requests (il_step p op s)) \<le> Suc (length (il_requests s))"
  by (cases op) (auto simp: Let_def split: prod.splits request_phase.splits option.splits)

lemma il_run_requests: "length (il_requests (il_run p es (il_start n))) \<le> length es"
  by (induction es rule: rev_induct)
    (auto simp: il_run_snoc il_run_def il_start_def intro: order_trans [OF il_step_requests])

lemma il_run_held: "length (held (il_run p es (il_start n))) \<le> length es"
  using held_le il_run_requests by (rule order_trans)

text \<open>The phases of a job after its in-flight check, and how they are reached.\<close>

fun checked :: "job_id \<Rightarrow> controller_phase \<Rightarrow> bool" where
  "checked j (NotInFlight i js) \<longleftrightarrow> i = j"
| "checked j (Quiet i js) \<longleftrightarrow> i = j"
| "checked j (Registered i reg js) \<longleftrightarrow> i = j"
| "checked j (ScaledDown i r js) \<longleftrightarrow> i = j"
| "checked j _ \<longleftrightarrow> False"

lemma checked_step:
  assumes "controller_step ct ph s = (ph1, t)" and "checked j ph1"
  shows "checked j ph \<or> (\<exists>js. ph = Undeferred j js) \<and> \<not> has_in_flight (job_str j) (nd_flights s)"
  using assms
  by (cases "(ct, ph, s)" rule: controller_step.cases)
    (auto split: prod.splits sum.splits bool.splits option.splits if_splits)

lemma il_controller_step:
  "il_controller (il_step p op s) =
     (if op = ControllerStep then fst (controller_step (ps_controller p) (il_controller s) (il_node s)) else il_controller s)"
  by (cases op) (auto simp: Let_def split: prod.splits request_phase.splits option.splits)

text \<open>
  C7: No scale-down without an exact check. Whatever interleaves, before the controller calls the
  orchestrator for an idle id there was a moment at which it checked the in-flight count of that id, and at that
  moment no request and no open tunnel held a guard of it.
\<close>

theorem call_after_check:
  assumes "boot rt cfg w = Inr (p, n)" and "length es < 2 ^ 64"
    and "il_controller (il_run p es (il_start n)) = Registered (JobId k) reg js"
  shows "\<exists>before rest js'. es = before @ ControllerStep # rest \<and>
    il_controller (il_run p before (il_start n)) = Undeferred (JobId k) js' \<and>
    held_for k (il_run p before (il_start n)) = []"
proof -
  have "checked (JobId k) (il_controller (il_run p es (il_start n)))" using assms(3) by simp
  then show ?thesis using assms(2)
  proof (induction es rule: rev_induct)
    case Nil
    then show ?case by (simp add: il_run_def il_start_def)
  next
    case (snoc op es)
    let ?s = "il_run p es (il_start n)"
    show ?case
    proof (cases "checked (JobId k) (il_controller ?s)")
      case True
      with snoc obtain before rest js' where "es = before @ ControllerStep # rest"
        "il_controller (il_run p before (il_start n)) = Undeferred (JobId k) js'"
        "held_for k (il_run p before (il_start n)) = []" by auto
      then show ?thesis by (intro exI [of _ before] exI [of _ "rest @ [op]"] exI [of _ js']) simp
    next
      case False
      with snoc.prems(1) have op: "op = ControllerStep" by (auto simp: il_run_snoc il_controller_step split: if_splits)
      obtain ph t where c: "controller_step (ps_controller p) (il_controller ?s) (il_node ?s) = (ph, t)" by force
      from checked_step [OF c, of "JobId k"] snoc.prems(1) False op c
      obtain js' where u: "il_controller ?s = Undeferred (JobId k) js'" "\<not> has_in_flight k (nd_flights (il_node ?s))"
        by (auto simp: il_run_snoc il_controller_step)
      have "length (held ?s) < 2 ^ 64" using il_run_held [of p es n] snoc.prems(2) by simp
      with counts_held il_reachable_inv [OF il_run_reachable [OF assms(1)]]
      have "unat (Inflight.count k (nd_flights (il_node ?s))) = length (held_for k ?s)" by blast
      with u(2) have "held_for k ?s = []" by (auto simp: has_in_flight_count)
      with u(1) op show ?thesis by blast
    qed
  qed
qed

subsection \<open>A race\<close>

text \<open>The job is registered under its id and its service name, and has been idle for a thousand seconds.\<close>

definition demo_idle :: mem_node where
  "demo_idle = node_empty\<lparr>m_now := 10 ^ 12, m_zset := [((ACTIVITY_KEY, ''shop''), 0)],
     m_hash := [((REGISTRY_BY_SERVICE_KEY, ''web''), shop_code), ((REGISTRY_BY_JOB_KEY, ''shop''), shop_code)]\<rparr>"

definition demo_locked :: mem_node where
  "demo_locked = demo_idle\<lparr>m_lock := [(lock_key SCALE_DOWN_LOCK_KEY, ''n1'')]\<rparr>"

abbreviation demo_controller :: "mem_node controller" where
  "demo_controller \<equiv> ps_controller demo_process"

lemma demo_controller_parts:
  "ct_store demo_controller = redis_activity_impl (mem_store ''n1'')" "ct_probe demo_controller = None"
  "ct_registry demo_controller = registry_new mem_redis demo_codec" "ct_cancelled demo_controller = (\<lambda>_. False)"
  "ct_orchestrator demo_controller = nomad_orchestrator (nomad_of demo_runtime (nomad_cfg default_config))"
  "ct_idle_threshold demo_controller = 300 * 10 ^ 9"
  by (simp_all add: demo_process_def process_of_def controller_of_def controller_new_def probe_of_def demo_runtime_def
      default_config_def default_scaling_def idle_timeout_def from_secs_def nanos_per_sec_def)

lemma demo_scale_down: "nomad_scale_down (nomad_of demo_runtime cfg) j grp w = (Inr (), w)"
  by (simp add: nomad_scale_down_def nomad_send_def nomad_of_def nomad_client_new_def demo_runtime_def ok_http_def
      io_bind_def io_map_err_def io_return_def io_lift_def is_success_def resp_json_def Let_def)

lemma demo_controller_steps:
  assumes "nd_deferred s = Map.empty"
  shows "nd_world s = demo_idle \<Longrightarrow> controller_step demo_controller Resting s = (LockHeld, s\<lparr>nd_world := demo_locked\<rparr>)"
    and "nd_world s = demo_locked \<Longrightarrow> controller_step demo_controller LockHeld s = (Working [JobId ''shop''], s)"
    and "controller_step demo_controller (Working [JobId ''shop'']) s = (Undeferred (JobId ''shop'') [], s)"
    and "controller_step demo_controller (NotInFlight (JobId ''shop'') []) s = (Quiet (JobId ''shop'') [], s)"
    and "nd_world s = demo_locked \<Longrightarrow>
      controller_step demo_controller (Quiet (JobId ''shop'') []) s = (Registered (JobId ''shop'') shop [], s)"
    and "controller_step demo_controller (Registered (JobId ''shop'') shop []) s = (ScaledDown (JobId ''shop'') (Inr ()) [], s)"
  using assms
  by (simp_all add: demo_controller_parts on_world_def redis_activity_impl_def mem_run demo_idle_def demo_locked_def
      node_empty_def check_deferred_def check_traffic_def registry_run registry_new_def demo_scale_down
      nomad_orchestrator_def)

definition demo_node_start :: "mem_node node" where
  "demo_node_start = node_of default_config (node_empty\<lparr>m_now := 2 * 10 ^ 9\<rparr>)"

lemma il_run_Cons: "il_run p (op # es) s = il_run p es (il_step p op s)"
  by (simp add: il_run_def)

lemma il_run_append: "il_run p (es @ fs) s = il_run p fs (il_run p es s)"
  by (simp add: il_run_def)

lemma il_run_one: "il_run p [op] s = il_step p op s"
  by (simp add: il_run_def)

text \<open>The steps of one request are its \<open>phase_steps\<close>.\<close>

lemma il_run_request:
  assumes "i < length (il_requests s)" and "il_requests s ! i = (req, ph)"
    and "phase_steps (ps_app p) req n (ph, il_node s) = (ph1, t)"
  shows "il_run p (replicate n (RequestStep i)) s = set_node t (s\<lparr>il_requests := (il_requests s)[i := (req, ph1)]\<rparr>)"
  using assms
proof (induction n arbitrary: s ph)
  case 0
  then have "(il_requests s)[i := (req, ph1)] = il_requests s" by (metis list_update_id phase_steps.simps(1) prod.inject)
  then show ?case using 0 by (simp add: il_run_def set_node_def)
next
  case (Suc n)
  obtain ph2 u where q: "phase_step (ps_app p) req ph (il_node s) = (ph2, u)" by force
  let ?s = "set_node u (s\<lparr>il_requests := (il_requests s)[i := (req, ph2)]\<rparr>)"
  have "il_step p (RequestStep i) s = ?s" using Suc.prems(1,2) q by simp
  moreover have "il_run p (replicate n (RequestStep i)) ?s =
      set_node t (?s\<lparr>il_requests := (il_requests ?s)[i := (req, ph1)]\<rparr>)"
    using Suc.prems q by (intro Suc.IH [of ?s ph2]) simp_all
  ultimately show ?case by (simp add: il_run_Cons set_node_def)
qed

lemma demo_tracked:
  assumes "demo_cached (nd_world s)" and "nd_coord s = coordinator_of default_config"
  shows "\<exists>e g t. phase_steps (ps_app demo_process) demo_upgrade 5 (Arrived, s) = (Tracked shop e g, t) \<and>
     nd_deferred t = nd_deferred s \<and> track ''shop'' (nd_flights s) = (g, nd_flights t)"
proof -
  let ?st = "ps_app demo_process" and ?e = "\<lparr>host = ''10.0.0.9'', port = 80\<rparr>"
  define s1 where "s1 = record_for (as_store ?st) (Some (JobId ''web'')) s"
  have s1: "demo_cached (nd_world s1)" "nd_coord s1 = coordinator_of default_config" "nd_deferred s1 = nd_deferred s"
    "nd_flights s1 = nd_flights s"
    using assms
    by (simp_all add: s1_def record_for_def demo_process_def process_of_def app_of_def redis_activity_impl_def
        redis_record_activity_def mem_store_def mem_redis_def io_map_err_def io_bind_def io_return_def demo_cached_def)
  have l: "on_world (get (as_registry ?st) (JobId ''web'')) s1 = (Inr (Some shop), s1)"
    using demo_lookup [OF s1(1)] by (simp add: on_world_def demo_process_def process_of_def app_of_def)
  obtain c where w: "as_wake ?st shop s1 = (Inr ?e, s1\<lparr>nd_coord := c\<rparr>)" using demo_wake [OF s1(2)] by blast
  obtain g t where g: "node_track (job_id shop) (proxy_clear_missing ?st (job_id shop) (s1\<lparr>nd_coord := c\<rparr>)) = (g, t)" by force
  have "nd_deferred t = nd_deferred s \<and> track ''shop'' (nd_flights s) = (g, nd_flights t)"
    using g s1(3,4) by (auto simp: node_track_def proxy_clear_missing_def shop_def split: prod.splits if_splits)
  moreover have "phase_steps ?st demo_upgrade 5 (Arrived, s) = (Tracked shop ?e g, t)"
    using g by (simp add: eval_nat_numeral demo_upgrade_reads s1_def [symmetric] l w woken_def)
  ultimately show ?thesis by blast
qed

lemma demo_controller_run:
  "il_run demo_process (World demo_idle # replicate 6 ControllerStep) (il_start demo_node_start) =
     \<lparr>il_events = ep_new (demo_node_start\<lparr>nd_world := demo_locked\<rparr>), il_requests = [],
      il_controller = Registered (JobId ''shop'') shop []\<rparr>"
proof -
  have d: "nd_deferred (demo_node_start\<lparr>nd_world := w\<rparr>) = Map.empty" for w
    by (simp add: demo_node_start_def node_of_def)
  have f: "\<not> has_in_flight ''shop'' (nd_flights demo_node_start)"
    by (simp add: demo_node_start_def node_of_def has_in_flight_def tracker_new_def)
  have six: "replicate 6 (ControllerStep :: mem_node il_op) =
      [ControllerStep, ControllerStep, ControllerStep, ControllerStep, ControllerStep, ControllerStep]"
    by (simp add: eval_nat_numeral)
  show ?thesis
    by (simp del: controller_step.simps
        add: six il_run_Cons il_start_def set_node_def ep_new_def demo_controller_steps [OF d] controller_step.simps(5) f)
      (simp add: il_run_def)
qed

text \<open>The request is tracked between the in-flight check and the call of the orchestrator.\<close>

definition demo_race :: "mem_node il_op list" where
  "demo_race = (World demo_idle # replicate 6 ControllerStep) @ [Arrive demo_upgrade] @ replicate 5 (RequestStep 0) @
     [ControllerStep]"

lemma demo_race_run:
  "\<exists>e g. let s = il_run demo_process demo_race (il_start demo_node_start) in
     il_controller s = ScaledDown (JobId ''shop'') (Inr ()) [] \<and> il_requests s = [(demo_upgrade, Tracked shop e g)] \<and>
     held s = [g] \<and> held_for ''shop'' s = [g]"
proof -
  let ?n = "demo_node_start\<lparr>nd_world := demo_locked\<rparr>"
  have n: "demo_cached (nd_world ?n)" "nd_coord ?n = coordinator_of default_config" "nd_deferred ?n = Map.empty"
    "tracker_wf (nd_flights ?n)"
    using fl.new_wf by (simp_all add: demo_cached_def demo_locked_def demo_idle_def node_empty_def demo_node_start_def node_of_def)
  from demo_tracked [OF n(1,2)] obtain e g t where t: "phase_steps (ps_app demo_process) demo_upgrade 5 (Arrived, ?n) = (Tracked shop e g, t)"
    "nd_deferred t = Map.empty" "track ''shop'' (nd_flights ?n) = (g, nd_flights t)" by (auto simp: n(3))
  let ?s = "\<lparr>il_events = ep_new ?n, il_requests = [(demo_upgrade, Arrived)],
    il_controller = Registered (JobId ''shop'') shop []\<rparr>"
  have "il_run demo_process demo_race (il_start demo_node_start) =
      il_step demo_process ControllerStep (il_run demo_process (replicate 5 (RequestStep 0)) ?s)"
    unfolding demo_race_def il_run_append demo_controller_run il_run_one by (simp del: il_step.simps(2-7))
  also have "il_run demo_process (replicate 5 (RequestStep 0)) ?s =
      set_node t (?s\<lparr>il_requests := [(demo_upgrade, Tracked shop e g)]\<rparr>)"
    using il_run_request [of 0 ?s demo_upgrade Arrived demo_process 5 "Tracked shop e g" t] t(1) by (simp add: ep_new_def)
  also have "il_step demo_process ControllerStep \<dots> =
      set_node t (?s\<lparr>il_requests := [(demo_upgrade, Tracked shop e g)], il_controller := ScaledDown (JobId ''shop'') (Inr ()) []\<rparr>)"
    using demo_controller_steps(6) [OF t(2)] by (simp del: controller_step.simps add: set_node_def)
  finally have r: "il_run demo_process demo_race (il_start demo_node_start) = \<dots>" .
  have "guards_job (nd_flights t) g ''shop''" using fl.take_owns n(4) t(3) by blast
  then show ?thesis by (simp add: r held_for_def held_def)
qed

lemma demo_race_reachable: "il_reachable demo_runtime default_config demo_process (il_run demo_process es (il_start demo_node_start))"
  unfolding demo_node_start_def by (rule il_run_reachable [OF demo_boots])

theorem interleaved_counts_witness:
  "\<exists>s. il_reachable demo_runtime default_config demo_process s \<and> length (held s) < 2 ^ 64 \<and>
     unat (Inflight.count ''shop'' (nd_flights (il_node s))) = 1"
proof -
  obtain s g where s: "il_reachable demo_runtime default_config demo_process s" "held s = [g]" "held_for ''shop'' s = [g]"
    using demo_race_run demo_race_reachable by (metis (no_types, lifting))
  then have "length (held s) < 2 ^ 64" by simp
  with interleaved_counts [OF s(1) this, of "''shop''"] s show ?thesis by auto
qed

theorem call_after_check_witness:
  "\<exists>before rest js'. World demo_idle # replicate 6 ControllerStep = before @ ControllerStep # rest \<and>
     il_controller (il_run demo_process before (il_start demo_node_start)) = Undeferred (JobId ''shop'') js' \<and>
     held_for ''shop'' (il_run demo_process before (il_start demo_node_start)) = []"
proof -
  have b: "boot demo_runtime default_config node_empty = Inr (demo_process, demo_node_start)"
    by (simp add: demo_boots demo_node_start_def)
  have l: "length (World demo_idle # replicate 6 ControllerStep) < (2 :: nat) ^ 64" by simp
  have c: "il_controller (il_run demo_process (World demo_idle # replicate 6 ControllerStep) (il_start demo_node_start)) =
      Registered (JobId ''shop'') shop []" by (simp only: demo_controller_run interleaved.select_convs)
  from call_after_check [OF b l c] show ?thesis .
qed


end
