(* ===== verification/Concurrent.thy ===== *)
theory Concurrent
  imports Interleaving Wake_Progress
begin

text \<open>
  The whole process with the coordinator's machine in it. In \<open>Interleaving\<close> a call of \<^verbatim>\<open>ensure_running\<close>
  is one step; here it is a request of the machine \<open>Wake\<close>, on the coordinator that the node shares with
  the controller, the event processor and the admin API, so that the calls of several requests join one wake,
  the wake task runs while its requests wait, and a job can be forgotten in the middle of its wake. The answers of
  Nomad and Consul are those of the orchestrator and of service discovery, called on the world of the moment.
  The machine of \<open>Wake\<close> is the part of a run that the coordinator sees, so its invariants hold in the process.
\<close>

subsection \<open>What the rest of the process does to the coordinator\<close>

definition forgets :: "coordinator \<Rightarrow> coordinator \<Rightarrow> bool" where
  "forgets c d \<longleftrightarrow> d = c \<or> (\<exists>j. d = mark_dormant j c)"

lemma forgets_same [simp]: "forgets c c"
  by (simp add: forgets_def)

lemma forgets_mark [simp]: "forgets c (mark_dormant j c)"
  by (auto simp: forgets_def)

lemma on_world_coord: "on_world m s = (r, t) \<Longrightarrow> nd_coord t = nd_coord s"
  using on_world_same by blast

lemma cleanup_missing_forgets:
  "proxy_cleanup_missing st j s = (r, t) \<Longrightarrow> forgets (nd_coord s) (nd_coord t)"
  by (auto simp: proxy_cleanup_missing_def Let_def dest!: on_world_coord split: prod.splits sum.splits)

lemma proxy_handle_missing_forgets:
  assumes "proxy_handle_missing st j src s = (resp, t)"
  shows "forgets (nd_coord s) (nd_coord t)"
proof (cases "as_auto_enabled st")
  case True
  obtain n s1 where n: "on_world (increment_not_found (as_missing st) j) s = (n, s1)" by force
  obtain r s2 where r: "proxy_cleanup_missing st j s1 = (r, s2)" by force
  from assms True n r have "t = s1 \<or> t = s2"
    by (auto simp: proxy_handle_missing_def split: sum.splits if_splits)
  then show ?thesis using cleanup_missing_forgets [OF r] on_world_coord [OF n] by auto
qed (use assms in \<open>simp add: proxy_handle_missing_def\<close>)

lemma woken_forgets: "woken st reg r s = (ph, t) \<Longrightarrow> forgets (nd_coord s) (nd_coord t)"
  by (auto simp: woken_def dest: proxy_handle_missing_forgets split: sum.splits nscale_error.splits prod.splits)

lemma rewoken_forgets: "rewoken st reg g rq r s = (ph, t) \<Longrightarrow> forgets (nd_coord s) (nd_coord t)"
  by (auto simp: rewoken_def dest: proxy_handle_missing_forgets split: sum.splits nscale_error.splits prod.splits)

lemma check_traffic_coord: "check_traffic ct j s = (b, t) \<Longrightarrow> nd_coord t = nd_coord s"
  by (auto simp: check_traffic_def split: option.splits prod.splits sum.splits bool.splits)

lemma handle_missing_job_forgets: "forgets (nd_coord s) (nd_coord (handle_missing_job ct j s))"
  by (auto simp: handle_missing_job_def cleanup_missing_job_state_def Let_def dest!: on_world_coord
      split: prod.splits sum.splits)

lemma handle_scale_down_result_forgets: "forgets (nd_coord s) (nd_coord (handle_scale_down_result ct j r s))"
  by (auto simp: handle_scale_down_result_def split: sum.splits nscale_error.splits)

lemma clear_counter_coord [simp]: "nd_coord (clear_missing_job_counter ct j s) = nd_coord s"
  by (simp add: clear_missing_job_counter_def)

lemma controller_step_forgets:
  assumes "controller_step ct ph s = (ph1, t)"
  shows "forgets (nd_coord s) (nd_coord t)"
proof (cases "(ct, ph, s)" rule: controller_step.cases)
  case (9 ct j r js s)
  then show ?thesis
    using assms handle_missing_job_forgets [of s ct j]
      handle_scale_down_result_forgets [of "clear_missing_job_counter ct j s" ct j] handle_scale_down_result_forgets [of s ct j]
    by (auto split: sum.splits nscale_error.splits)
qed (use assms in \<open>auto simp: drop_lock_guard_def dest!: on_world_coord check_traffic_coord check_deferred_frame(1)
      split: prod.splits sum.splits bool.splits option.splits if_splits\<close>)

lemma warn_world_coord: "warn_world what m s = (ws, t) \<Longrightarrow> nd_coord t = nd_coord s"
  by (auto simp: warn_world_def dest!: on_world_coord split: prod.splits sum.splits)

lemma finish_purge_forgets: "forgets (nd_coord s) (nd_coord (snd (finish_purge st name force n purged eval s)))"
  by (auto simp: finish_purge_def cleanup_admin_job_state_def dest!: on_world_coord warn_world_coord
      split: prod.splits sum.splits)

lemma purge_forgets_coord: "forgets (nd_coord s) (nd_coord (snd (admin_purge_job st name force s)))"
proof -
  have f: "forgets (nd_coord s) (nd_coord (snd (finish_purge st name force n purged eval s1)))"
    if "on_world m s = (r, s1)" for m :: "('a, 'b, 'c) io" and r s1 n purged eval
    using finish_purge_forgets [of s1] on_world_coord [OF that] by simp
  show ?thesis
    by (auto simp: admin_purge_job_def Let_def dest: f on_world_coord split: prod.splits sum.splits nscale_error.splits)
qed

lemma register_each_coord: "register_each st regs s = (r, t) \<Longrightarrow> nd_coord t = nd_coord s"
  by (induction regs arbitrary: s r) (fastforce dest!: on_world_coord split: prod.splits sum.splits)+

lemma seed_activity_coord [simp]: "nd_coord (seed_activity st ids s) = nd_coord s"
  unfolding seed_activity_def by (induction ids arbitrary: s) auto

lemma submit_coord: "nd_coord (snd (admin_submit_job st rq s)) = nd_coord s"
  by (auto simp: admin_submit_job_def dest!: on_world_coord register_each_coord
      split: prod.splits sum.splits list.splits)

lemma sync_each_coord: "sync_each st regs n m s = (r, t) \<Longrightarrow> nd_coord t = nd_coord s"
  by (induction regs arbitrary: n m s r) (fastforce dest!: on_world_coord split: prod.splits sum.splits)+

lemma sync_coord: "nd_coord (snd (admin_sync st regs s)) = nd_coord s"
  by (auto simp: admin_sync_def dest!: sync_each_coord split: prod.splits)

lemma register_coord: "nd_coord (snd (admin_register st reg s)) = nd_coord s"
  by (auto simp: admin_register_def dest!: on_world_coord split: prod.splits sum.splits)

lemma readyz_coord: "nd_coord (snd (readyz st s)) = nd_coord s"
  by (auto simp: readyz_def dest!: on_world_coord split: prod.splits sum.splits)

lemma handle_event_forgets: "forgets (nd_coord (ep_node s)) (nd_coord (ep_node (snd (handle_event ep ev s))))"
  by (auto simp: handle_event_def handle_allocation_event_def alloc_running_def alloc_stopped_def Let_def
      dest!: on_world_coord split: option.splits prod.splits sum.splits alloc_change.splits)

lemma background_forgets:
  "background op \<Longrightarrow> forgets (nd_coord (sys_node s)) (nd_coord (sys_node (process_step p op s)))"
  by (cases op)
    (simp_all add: on_node_def handle_event_forgets purge_forgets_coord submit_coord sync_coord register_coord readyz_coord)

text \<open>A request that is about to call \<^verbatim>\<open>ensure_running\<close>, or is in such a call.\<close>

fun calls_wake :: "request_phase \<Rightarrow> job_registration option" where
  "calls_wake (LookedUp reg) = Some reg"
| "calls_wake (Rewaking reg g rq) = Some reg"
| "calls_wake _ = None"

text \<open>The endpoint that the orchestrator has just given a request that asked for it again.\<close>

fun refreshed :: "request_phase \<Rightarrow> (string \<times> endpoint) list" where
  "refreshed (Refreshed reg g rq err (Inr (Confirmed e))) = [(reg_key reg, e)]"
| "refreshed (Refreshed reg g rq err (Inr (Updated e))) = [(reg_key reg, e)]"
| "refreshed _ = []"

lemma forward_last_coord: "forward_last st e rq s = (resp, t) \<Longrightarrow> nd_coord t = nd_coord s"
  by (auto simp: forward_last_def dest!: node_forward_same split: prod.splits sum.splits)

lemma record_for_coord [simp]: "nd_coord (record_for store jo s) = nd_coord s"
  by (simp add: record_for_def split: option.splits)

text \<open>
  What any other step of a request does to the coordinator: it forgets a job, or it is the refresh, in
  which the orchestrator may have answered.
\<close>

lemma refresh_phase:
  assumes "phase_step st req (Retrying reg e g rq [] err) s = (ph1, t)"
  shows "\<exists>r. ph1 = Refreshed reg g rq err r \<and>
    ((\<exists>x. r = Inl x) \<and> nd_coord t = nd_coord s \<or>
     (\<exists>a. fst (get_healthy_endpoint (as_orchestrator st) (job_id reg) (nd_world s)) = Inr a \<and>
        r = Inr (fst (refresh_endpoint_with reg e a (nd_coord s))) \<and>
        nd_coord t = snd (refresh_endpoint_with reg e a (nd_coord s))))"
  using assms
  by (auto simp: node_refresh_endpoint_def refresh_endpoint_def split: prod.splits sum.splits)

lemma phase_step_forgets:
  assumes "phase_step st req ph s = (ph1, t)" and "calls_wake ph = None"
    and "\<And>reg e g rq err. ph \<noteq> Retrying reg e g rq [] err"
  shows "forgets (nd_coord s) (nd_coord t) \<and> refreshed ph1 = []"
proof (cases "(st, req, ph, s)" rule: phase_step.cases)
  case (2 st' req' s')
  then show ?thesis using assms(1) by (auto dest!: on_world_coord split: option.splits prod.splits sum.splits)
next
  case (6 st' req' reg e g s')
  then show ?thesis using assms(1)
    by (auto dest!: on_world_coord node_forward_same split: prod.splits sum.splits bool.splits if_splits option.splits)
next
  case (8 st' req' reg e g rq ds s')
  then show ?thesis using assms(1) by (auto dest!: node_forward_same split: prod.splits sum.splits if_splits)
next
  case (10 st' req' reg g rq err r s')
  then show ?thesis using assms(1)
    by (auto dest!: proxy_handle_missing_forgets split: prod.splits sum.splits endpoint_refresh.splits nscale_error.splits)
next
  case (17 st' req' s')
  then show ?thesis using assms by simp
qed (use assms in \<open>auto simp: node_track_def node_drop_def dest!: forward_last_coord split: prod.splits\<close>)

subsection \<open>The machine\<close>

text \<open>
  \<open>cc_calls\<close> has, for a request inside \<^verbatim>\<open>ensure_running\<close>, its number in the coordinator's machine. The two
  halves of the state share the coordinator.
\<close>

record 'w concurrent =
  cc_il :: "'w interleaved"
  cc_wake :: wake_sys
  cc_calls :: "nat \<rightharpoonup> nat"

abbreviation cc_node :: "'w concurrent \<Rightarrow> 'w node" where
  "cc_node s \<equiv> il_node (cc_il s)"

definition cc_start :: "config \<Rightarrow> 'w node \<Rightarrow> 'w concurrent" where
  "cc_start cfg n =
     \<lparr>cc_il = il_start n, cc_wake = wake_init (unat (concurrency (nomad_cfg cfg))) (unat (wake_timeout_secs (scaling_cfg cfg))),
      cc_calls = Map.empty\<rparr>"

text \<open>The handlers, the controller or another part moves, and leaves the coordinator as it will.\<close>

definition put_il :: "'w interleaved \<Rightarrow> 'w concurrent \<Rightarrow> 'w concurrent" where
  "put_il il s = s\<lparr>cc_il := il, cc_wake := (cc_wake s)\<lparr>coord := nd_coord (il_node il)\<rparr>\<rparr>"

text \<open>The coordinator's machine moves, if it can, and the world with it.\<close>

definition wake_moves :: "wake_event \<Rightarrow> 'w \<Rightarrow> 'w concurrent \<Rightarrow> 'w concurrent" where
  "wake_moves ev w s =
     (case wake_step ev (cc_wake s) of
        None \<Rightarrow> s
      | Some W \<Rightarrow>
          s\<lparr>cc_wake := W, cc_il := set_node ((cc_node s)\<lparr>nd_coord := coord W, nd_world := w\<rparr>) (cc_il s)\<rparr>)"

text \<open>The calls that leave the coordinator: of the wake task, and of a request that finds a job ready.\<close>

datatype wake_call = ScaleUpCall nat | HealthCall nat | FetchCall nat

fun wake_answer :: "'w wake_env \<Rightarrow> wake_call \<Rightarrow> wake_sys \<Rightarrow> 'w \<Rightarrow> wake_event \<times> 'w" where
  "wake_answer env (ScaleUpCall i) W w =
     (let reg = task_reg (tasks W ! i) in
      case scale_up (we_orchestrator env) (job_id reg) (nomad_group reg) 1 w of (r, w1) \<Rightarrow> (ScaleUpAnswer i r, w1))"
| "wake_answer env (HealthCall i) W w =
     (let reg = task_reg (tasks W ! i) in
      case wait_for_healthy (we_discovery env) (service_name reg) (timeout_of (coord W)) w of (r, w1) \<Rightarrow> (HealthAnswer i r, w1))"
| "wake_answer env (FetchCall i) W w =
     (let reg = req_reg (requests W ! i) in
      case get_healthy_endpoint (we_orchestrator env) (job_id reg) w of (r, w1) \<Rightarrow> (FetchAnswer i r, w1))"

text \<open>The events of the coordinator's machine that need no answer and no caller.\<close>

fun internal :: "wake_event \<Rightarrow> bool" where
  "internal (ReqStep i) = True"
| "internal (Receive i) = True"
| "internal (TimeOut i) = True"
| "internal (TaskStep i) = True"
| "internal _ = False"

fun resumed :: "'w app_state \<Rightarrow> request_phase \<Rightarrow> endpoint result \<Rightarrow> 'w node \<Rightarrow> request_phase \<times> 'w node" where
  "resumed st (LookedUp reg) r s = woken st reg r s"
| "resumed st (Rewaking reg g rq) r s = rewoken st reg g rq r s"
| "resumed st ph r s = (ph, s)"

text \<open>
  A request moves: it calls \<^verbatim>\<open>ensure_running\<close>, it goes on when the call has returned, or it takes a step
  of its own; one whose call has not returned waits.
\<close>

definition advance :: "'w process \<Rightarrow> nat \<Rightarrow> 'w concurrent \<Rightarrow> 'w concurrent" where
  "advance p i s =
     (if i < length (il_requests (cc_il s)) then
        let (req, ph) = il_requests (cc_il s) ! i in
        case calls_wake ph of
          None \<Rightarrow>
            (let t = put_il (il_step p (RequestStep i) (cc_il s)) s in
             t\<lparr>cc_wake := (cc_wake t)\<lparr>reported := refreshed (snd (il_requests (cc_il t) ! i)) @ reported (cc_wake t)\<rparr>\<rparr>)
        | Some reg \<Rightarrow>
            (case cc_calls s i of
               None \<Rightarrow> (wake_moves (Call reg) (nd_world (cc_node s)) s)
                         \<lparr>cc_calls := (cc_calls s)(i \<mapsto> length (requests (cc_wake s)))\<rparr>
             | Some k \<Rightarrow>
                 (case req_pc (requests (cc_wake s) ! k) of
                    Returned r \<Rightarrow>
                      (case resumed (ps_app p) ph r (cc_node s) of
                         (ph1, n) \<Rightarrow>
                           (put_il (set_node n ((cc_il s)\<lparr>il_requests := (il_requests (cc_il s))[i := (req, ph1)]\<rparr>)) s)
                             \<lparr>cc_calls := (cc_calls s)(i := None)\<rparr>)
                  | _ \<Rightarrow> s))
      else s)"

text \<open>A client disconnects; inside \<^verbatim>\<open>ensure_running\<close> only where that awaits.\<close>

definition hang_up :: "'w process \<Rightarrow> nat \<Rightarrow> 'w concurrent \<Rightarrow> 'w concurrent" where
  "hang_up p i s =
     (case cc_calls s i of
        None \<Rightarrow> put_il (il_step p (HangUp i) (cc_il s)) s
      | Some k \<Rightarrow>
          (case wake_step (Disconnect k) (cc_wake s) of
             None \<Rightarrow> s
           | Some W \<Rightarrow> put_il (il_step p (HangUp i) (cc_il s)) (s\<lparr>cc_wake := W, cc_calls := (cc_calls s)(i := None)\<rparr>)))"

datatype 'w cc_op =
    Node "'w il_op"
  | Inside wake_event
  | Outside wake_call

definition node_op :: "'w process \<Rightarrow> 'w il_op \<Rightarrow> 'w concurrent \<Rightarrow> 'w concurrent" where
  "node_op p op s =
     (case op of
        RequestStep i \<Rightarrow> advance p i s
      | HangUp i \<Rightarrow> hang_up p i s
      | _ \<Rightarrow> put_il (il_step p op (cc_il s)) s)"

fun cc_step :: "'w wake_env \<Rightarrow> 'w process \<Rightarrow> 'w cc_op \<Rightarrow> 'w concurrent \<Rightarrow> 'w concurrent" where
  "cc_step env p (Node op) s = node_op p op s"
| "cc_step env p (Inside ev) s = (if internal ev then wake_moves ev (nd_world (cc_node s)) s else s)"
| "cc_step env p (Outside c) s =
     (case wake_answer env c (cc_wake s) (nd_world (cc_node s)) of (ev, w) \<Rightarrow> wake_moves ev w s)"

inductive cc_reachable :: "'w runtime \<Rightarrow> config \<Rightarrow> 'w process \<Rightarrow> 'w concurrent \<Rightarrow> bool" for rt cfg where
  start: "boot rt cfg w = Inr (p, n) \<Longrightarrow> cc_reachable rt cfg p (cc_start cfg n)"
| step: "cc_reachable rt cfg p s \<Longrightarrow> cc_reachable rt cfg p (cc_step (wake_env_of rt cfg) p op s)"

subsection \<open>The coordinator sees a run of its machine\<close>

text \<open>
  The state of the coordinator's machine in a run of the process is a reachable state of \<open>Wake\<close>, up to the list
  of the forgetting operations, which the process runs in one step each.
\<close>

definition wake_part :: "nat \<Rightarrow> nat \<Rightarrow> wake_sys \<Rightarrow> bool" where
  "wake_part n to W \<longleftrightarrow> (\<exists>xs. wake_reachable n to (W\<lparr>ops := xs\<rparr>))"

fun forgetting :: "wake_event \<Rightarrow> bool" where
  "forgetting (StartForget k) = True"
| "forgetting (StartRefresh k) = True"
| "forgetting (OpStep i) = True"
| "forgetting (RefreshAnswer i a) = True"
| "forgetting _ = False"

lemma req_step_ops:
  "req_step i reg pc (W\<lparr>ops := xs\<rparr>) = map_option (\<lambda>t. t\<lparr>ops := xs\<rparr>) (req_step i reg pc W)"
  by (cases pc) (simp_all add: upd_defs dispatch_def Let_def split: option.splits prod.splits)

lemma task_step_ops:
  "task_step i reg a pc (W\<lparr>ops := xs\<rparr>) = map_option (\<lambda>t. t\<lparr>ops := xs\<rparr>) (task_step i reg a pc W)"
  by (cases "(i, reg, a, pc, W)" rule: task_step.cases) (simp_all add: upd_defs receiver_count_def)

lemma wake_step_ops:
  "\<not> forgetting ev \<Longrightarrow> wake_step ev (W\<lparr>ops := xs\<rparr>) = map_option (\<lambda>t. t\<lparr>ops := xs\<rparr>) (wake_step ev W)"
  by (cases ev)
    (auto simp: req_step_ops task_step_ops fetch_answer_def receive_def upd_defs
      split: request_pc.splits task_pc.splits sum.splits option.splits list.splits)

lemma wake_part_step: "wake_part n to W \<Longrightarrow> wake_step ev W = Some V \<Longrightarrow> \<not> forgetting ev \<Longrightarrow> wake_part n to V"
  unfolding wake_part_def by (metis wake_reachable.step wake_step_ops option.simps(9))

lemma wake_part_run:
  assumes "\<And>xs. \<exists>ys. wake_run (evs xs) (W\<lparr>ops := xs\<rparr>) = Some (V\<lparr>ops := ys\<rparr>)" and "wake_part n to W"
  shows "wake_part n to V"
  using assms wake_run_reachable unfolding wake_part_def by metis

lemma wake_part_forget:
  assumes "wake_part n to W"
  shows "wake_part n to (W\<lparr>coord := mark_dormant j (coord W)\<rparr>)"
proof (rule wake_part_run [OF _ assms])
  show "\<exists>ys. wake_run [StartForget (job_str j), OpStep (length xs), OpStep (length xs), OpStep (length xs)] (W\<lparr>ops := xs\<rparr>) =
    Some (W\<lparr>coord := mark_dormant j (coord W), ops := ys\<rparr>)" for xs
    by (auto simp: set_op_def on_coord_def nth_append list_update_append mark_dormant_def)
qed

lemma wake_part_refresh:
  assumes "wake_part n to W"
  shows "wake_part n to (W\<lparr>reported := (case a of Some x \<Rightarrow> [(reg_key reg, x)] | None \<Rightarrow> []) @ reported W,
    coord := snd (refresh_endpoint_with reg e a (coord W))\<rparr>)"
proof (rule wake_part_run [OF _ assms])
  show "\<exists>ys. wake_run (StartRefresh (reg_key reg) # RefreshAnswer (length xs) (Inr a) #
        replicate (case a of Some _ \<Rightarrow> 2 | None \<Rightarrow> 3) (OpStep (length xs))) (W\<lparr>ops := xs\<rparr>) =
    Some (W\<lparr>reported := (case a of Some x \<Rightarrow> [(reg_key reg, x)] | None \<Rightarrow> []) @ reported W,
      coord := snd (refresh_endpoint_with reg e a (coord W)), ops := ys\<rparr>)" for xs
    by (cases a)
      (auto simp: numeral_2_eq_2 numeral_3_eq_3 set_op_def on_coord_def report_def nth_append list_update_append
        refresh_endpoint_with_def reg_key_def Let_def)
qed

lemma wake_part_forgets: "wake_part n to W \<Longrightarrow> forgets (coord W) c \<Longrightarrow> wake_part n to (W\<lparr>coord := c\<rparr>)"
  by (auto simp: forgets_def wake_part_forget)

lemma wake_part_refreshed:
  assumes "phase_step st req (Retrying reg e g rq [] err) s = (ph1, t)" and "coord W = nd_coord s" and "wake_part n to W"
  shows "wake_part n to (W\<lparr>reported := refreshed ph1 @ reported W, coord := nd_coord t\<rparr>)"
proof -
  obtain r where ph1: "ph1 = Refreshed reg g rq err r"
    and r: "(\<exists>x. r = Inl x) \<and> nd_coord t = nd_coord s \<or>
     (\<exists>a. r = Inr (fst (refresh_endpoint_with reg e a (nd_coord s))) \<and>
        nd_coord t = snd (refresh_endpoint_with reg e a (nd_coord s)))"
    using refresh_phase [OF assms(1)] by blast
  from r show ?thesis
  proof (elim disjE exE conjE)
    fix x assume "r = Inl x" "nd_coord t = nd_coord s"
    then show ?thesis using assms(3) by (simp add: ph1 flip: assms(2))
  next
    fix a assume a: "r = Inr (fst (refresh_endpoint_with reg e a (nd_coord s)))"
      "nd_coord t = snd (refresh_endpoint_with reg e a (nd_coord s))"
    have "refreshed ph1 = (case a of Some x \<Rightarrow> [(reg_key reg, x)] | None \<Rightarrow> [])"
      using a(1) by (auto simp: ph1 refresh_endpoint_with_def Let_def split: option.splits)
    then show ?thesis using wake_part_refresh [OF assms(3), of reg e a] a(2) assms(2) by simp
  qed
qed

subsection \<open>What was reported\<close>

text \<open>
  \<open>said env k e\<close>: service discovery answered \<open>e\<close> for the service of a registration of the job \<open>k\<close>, or the
  orchestrator answered it for the job.
\<close>

definition said :: "'w wake_env \<Rightarrow> string \<Rightarrow> endpoint \<Rightarrow> bool" where
  "said env k e \<longleftrightarrow>
     (\<exists>reg w. reg_key reg = k \<and>
        ((\<exists>d. fst (wait_for_healthy (we_discovery env) (service_name reg) d w) = Inr e) \<or>
         fst (get_healthy_endpoint (we_orchestrator env) (job_id reg) w) = Inr (Some e)))"

lemma wake_answer_events:
  "wake_answer env c W w = (ev, w1) \<Longrightarrow> \<not> forgetting ev \<and> \<not> internal ev"
  by (cases c) (auto simp: Let_def split: prod.splits)

lemma req_step_reported: "req_step i reg pc W = Some V \<Longrightarrow> reported V = reported W"
  by (cases pc) (auto simp: dispatch_def Let_def split: option.splits prod.splits if_splits)

lemma task_step_reported: "task_step i reg a pc W = Some V \<Longrightarrow> reported V = reported W"
  by (cases "(i, reg, a, pc, W)" rule: task_step.cases) (auto split: if_splits)

lemma internal_reported: "wake_step ev W = Some V \<Longrightarrow> internal ev \<or> (\<exists>reg. ev = Call reg) \<Longrightarrow> reported V = reported W"
  by (cases ev)
    (auto simp: receive_def split: if_splits request_pc.splits list.splits dest: req_step_reported task_step_reported)

lemma disconnect_reported: "wake_step (Disconnect k) W = Some V \<Longrightarrow> reported V = reported W \<and> coord V = coord W"
  by (auto split: if_splits request_pc.splits)

lemma answer_reported:
  assumes "wake_answer env c W w = (ev, w1)" and "wake_step ev W = Some V" and "(k, e) \<in> set (reported V)"
  shows "(k, e) \<in> set (reported W) \<or> said env k e"
proof (cases c)
  case (ScaleUpCall i)
  then show ?thesis using assms by (auto simp: Let_def split: prod.splits if_splits sum.splits)
next
  case (HealthCall i)
  obtain r where r: "wait_for_healthy (we_discovery env) (service_name (task_reg (tasks W ! i))) (timeout_of (coord W)) w = (r, w1)"
    "ev = HealthAnswer i r" using assms(1) HealthCall by (auto simp: Let_def split: prod.splits)
  then have "said env (reg_key (task_reg (tasks W ! i))) e" if "r = Inr e"
    using that unfolding said_def by (metis fst_conv)
  then show ?thesis using assms(2,3) r(2) by (auto split: if_splits task_pc.splits sum.splits)
next
  case (FetchCall i)
  obtain r where r: "get_healthy_endpoint (we_orchestrator env) (job_id (req_reg (requests W ! i))) w = (r, w1)"
    "ev = FetchAnswer i r" using assms(1) FetchCall by (auto simp: Let_def split: prod.splits)
  then have "said env (reg_key (req_reg (requests W ! i))) e" if "r = Inr (Some e)"
    using that unfolding said_def by (metis fst_conv)
  then show ?thesis using assms(2,3) r(2)
    by (auto simp: fetch_answer_def split: if_splits request_pc.splits sum.splits option.splits)
qed

lemma wake_step_reported: "wake_step ev W = Some V \<Longrightarrow> set (reported W) \<subseteq> set (reported V)"
proof (cases "internal ev \<or> (\<exists>reg. ev = Call reg)")
  case False
  then show "wake_step ev W = Some V \<Longrightarrow> ?thesis"
    by (cases ev) (auto simp: fetch_answer_def
        split: if_splits request_pc.splits task_pc.splits sum.splits option.splits elim!: op_step.elims)
qed (metis internal_reported order_refl)

subsection \<open>The invariant\<close>

text \<open>The endpoint that a request is to be sent to, with its job.\<close>

fun aims :: "request_phase \<Rightarrow> (string \<times> endpoint) option" where
  "aims (Awake reg e) = Some (reg_key reg, e)"
| "aims (Cleared reg e) = Some (reg_key reg, e)"
| "aims (Tracked reg e g) = Some (reg_key reg, e)"
| "aims (Retrying reg e g rq ds err) = Some (reg_key reg, e)"
| "aims (BackedOff reg e g rq ds) = Some (reg_key reg, e)"
| "aims (Refreshed reg g rq err (Inr (Updated e))) = Some (reg_key reg, e)"
| "aims (Rewoken reg e g rq) = Some (reg_key reg, e)"
| "aims (Resending reg e g rq) = Some (reg_key reg, e)"
| "aims _ = None"

definition calls_ok :: "(proxy_request \<times> request_phase) list \<Rightarrow> wake_sys \<Rightarrow> (nat \<rightharpoonup> nat) \<Rightarrow> bool" where
  "calls_ok rs W c \<longleftrightarrow>
     (\<forall>i k. c i = Some k \<longrightarrow> i < length rs \<and> k < length (requests W) \<and>
        calls_wake (snd (rs ! i)) = Some (req_reg (requests W ! k)))"

definition aims_ok :: "(proxy_request \<times> request_phase) list \<Rightarrow> wake_sys \<Rightarrow> bool" where
  "aims_ok rs W \<longleftrightarrow> (\<forall>r \<in> set rs. \<forall>k e. aims (snd r) = Some (k, e) \<longrightarrow> (k, e) \<in> set (reported W))"

definition said_ok :: "'w wake_env \<Rightarrow> wake_sys \<Rightarrow> bool" where
  "said_ok env W \<longleftrightarrow> (\<forall>(k, e) \<in> set (reported W). said env k e)"

definition cc_inv :: "'w wake_env \<Rightarrow> nat \<Rightarrow> nat \<Rightarrow> 'w concurrent \<Rightarrow> bool" where
  "cc_inv env n to s \<longleftrightarrow>
     il_inv (cc_il s) \<and> wake_part n to (cc_wake s) \<and> nd_coord (cc_node s) = coord (cc_wake s) \<and>
     calls_ok (il_requests (cc_il s)) (cc_wake s) (cc_calls s) \<and> aims_ok (il_requests (cc_il s)) (cc_wake s) \<and>
     said_ok env (cc_wake s)"

lemma calls_ok_coord [simp]:
  "calls_ok rs (W\<lparr>coord := c\<rparr>) cs = calls_ok rs W cs" "calls_ok rs (W\<lparr>reported := h\<rparr>) cs = calls_ok rs W cs"
  "aims_ok rs (W\<lparr>coord := c\<rparr>) = aims_ok rs W" "said_ok env (W\<lparr>coord := c\<rparr>) = said_ok env W"
  by (simp_all add: calls_ok_def aims_ok_def said_ok_def)

lemma calls_ok_wake:
  "calls_ok rs W c \<Longrightarrow> wake_step ev W = Some V \<Longrightarrow> calls_ok rs V c"
  unfolding calls_ok_def by (metis request_kept order_less_le_trans)

lemma aims_ok_mono: "aims_ok rs W \<Longrightarrow> set (reported W) \<subseteq> set (reported V) \<Longrightarrow> aims_ok rs V"
  unfolding aims_ok_def by blast

lemma aims_ok_update:
  assumes "aims_ok rs W" and "\<And>k e. aims ph = Some (k, e) \<Longrightarrow> (k, e) \<in> set (reported W)"
  shows "aims_ok (rs[i := (req, ph)]) W"
  using assms set_update_subset_insert [of rs i "(req, ph)"] unfolding aims_ok_def by fastforce

lemma wake_part_sound:
  assumes "wake_part n to W" and "k < length (requests W)" and "req_pc (requests W ! k) = Returned (Inr e)"
  shows "(reg_key (req_reg (requests W ! k)), e) \<in> set (reported W)"
proof -
  obtain xs where "sound_ok (W\<lparr>ops := xs\<rparr>)" using assms(1) reachable_sound_ok by (auto simp: wake_part_def)
  then show ?thesis using assms(2,3) by (fastforce simp: sound_ok_def)
qed

text \<open>The coordinator's machine moves.\<close>

lemma cc_inv_wake:
  assumes "cc_inv env n to s" and "\<not> forgetting ev"
    and "\<And>V k e. wake_step ev (cc_wake s) = Some V \<Longrightarrow> (k, e) \<in> set (reported V) \<Longrightarrow>
      (k, e) \<in> set (reported (cc_wake s)) \<or> said env k e"
  shows "cc_inv env n to (wake_moves ev w s)"
proof (cases "wake_step ev (cc_wake s)")
  case None
  then show ?thesis using assms(1) by (simp add: wake_moves_def)
next
  case (Some V)
  have "il_inv (set_node ((cc_node s)\<lparr>nd_coord := coord V, nd_world := w\<rparr>) (cc_il s))"
    by (rule il_inv_frame [of "cc_il s"]) (use assms(1) in \<open>simp_all add: cc_inv_def\<close>)
  moreover have "said_ok env V" using assms(1) assms(3) [OF Some] by (fastforce simp: cc_inv_def said_ok_def)
  ultimately show ?thesis
    using assms(1) Some wake_part_step [OF _ Some assms(2)] calls_ok_wake [OF _ Some] aims_ok_mono [OF _ wake_step_reported [OF Some]]
    by (simp add: cc_inv_def wake_moves_def)
qed

text \<open>What the operations other than steps of requests do.\<close>

fun not_request :: "'w il_op \<Rightarrow> bool" where
  "not_request (RequestStep i) = False"
| "not_request _ = True"

lemma node_drops_coord [simp]: "nd_coord (fold node_drop gs s) = nd_coord s"
  by (induction gs arbitrary: s) (simp_all add: node_drop_def)

lemma il_step_forgets:
  assumes "not_request op"
  shows "forgets (nd_coord (il_node s)) (nd_coord (il_node (il_step p op s)))"
proof (cases op)
  case (TunnelCloses i)
  then show ?thesis
    by (auto simp: tunnel_closed_def node_drop_def split: prod.split request_phase.split option.split)
next
  case ControllerStep
  then show ?thesis by (auto dest: controller_step_forgets split: prod.split)
next
  case (Operation bop)
  then show ?thesis using background_forgets [of bop "\<lparr>sys_events = il_events s, sys_tunnels = []\<rparr>" p] by simp
qed (use assms in \<open>auto simp: Let_def split: prod.split\<close>)

lemma il_step_phases:
  assumes "not_request op"
  shows "aims_ok (il_requests s) W \<Longrightarrow> aims_ok (il_requests (il_step p op s)) W"
    and "\<forall>i k. c i = Some k \<longrightarrow> op \<noteq> HangUp i \<Longrightarrow> calls_ok (il_requests s) W c \<Longrightarrow>
      calls_ok (il_requests (il_step p op s)) W c"
proof -
  show "aims_ok (il_requests s) W \<Longrightarrow> aims_ok (il_requests (il_step p op s)) W"
    using assms
    by (cases op) (auto simp: Let_def aims_ok_def split: prod.splits request_phase.splits option.splits
      dest!: set_update_subset_insert [THEN subsetD])
next
  assume c: "\<forall>i k. c i = Some k \<longrightarrow> op \<noteq> HangUp i" "calls_ok (il_requests s) W c"
  have "il_requests (il_step p op s) ! i = il_requests s ! i \<and> i < length (il_requests (il_step p op s))"
    if "c i = Some k" for i k
  proof -
    have i: "i < length (il_requests s)" "calls_wake (snd (il_requests s ! i)) \<noteq> None" "op \<noteq> HangUp i"
      using that c by (auto simp: calls_ok_def)
    show ?thesis
    proof (cases op)
      case (TunnelCloses m)
      then show ?thesis using i(1,2)
        by (cases "m = i") (auto split: prod.splits request_phase.splits option.splits)
    qed (use i assms in \<open>auto simp: nth_append Let_def split: prod.splits\<close>)
  qed
  then show "calls_ok (il_requests (il_step p op s)) W c" using c(2) by (simp add: calls_ok_def)
qed

lemma cc_inv_il:
  assumes "cc_inv env n to s" and "as_wake (ps_app p) = node_ensure_running env" and "not_request op"
    and "\<forall>i k. cc_calls s i = Some k \<longrightarrow> op \<noteq> HangUp i"
  shows "cc_inv env n to (put_il (il_step p op (cc_il s)) s)"
proof -
  have "forgets (coord (cc_wake s)) (nd_coord (il_node (il_step p op (cc_il s))))"
    using il_step_forgets [OF assms(3), of "cc_il s" p] assms(1) by (simp add: cc_inv_def)
  then show ?thesis
    using assms(1) wake_part_forgets il_inv_step [OF assms(2)] il_step_phases [OF assms(3)] assms(4)
    by (simp add: cc_inv_def put_il_def)
qed

lemma cc_inv_hang_up:
  assumes "cc_inv env n to s" and "as_wake (ps_app p) = node_ensure_running env"
  shows "cc_inv env n to (hang_up p i s)"
proof (cases "cc_calls s i")
  case None
  then have "\<forall>m k. cc_calls s m = Some k \<longrightarrow> (HangUp i :: 'a il_op) \<noteq> HangUp m" by auto
  from cc_inv_il [OF assms _ this] show ?thesis by (simp add: hang_up_def None del: il_step.simps)
next
  case (Some k)
  show ?thesis
  proof (cases "wake_step (Disconnect k) (cc_wake s)")
    case None
    then show ?thesis using Some assms(1) by (simp add: hang_up_def)
  next
    case V: (Some V)
    let ?s = "s\<lparr>cc_wake := V, cc_calls := (cc_calls s)(i := None)\<rparr>"
    have "calls_ok (il_requests (cc_il s)) V ((cc_calls s)(i := None))"
      using assms(1) calls_ok_wake [OF _ V] by (fastforce simp: cc_inv_def calls_ok_def)
    then have "cc_inv env n to ?s"
      using assms(1) wake_part_step [OF _ V] disconnect_reported [OF V] by (simp add: cc_inv_def aims_ok_def said_ok_def)
    moreover have "\<forall>m k. cc_calls ?s m = Some k \<longrightarrow> (HangUp i :: 'a il_op) \<noteq> HangUp m" by auto
    ultimately have "cc_inv env n to (put_il (il_step p (HangUp i) (cc_il ?s)) ?s)" using assms(2) by (intro cc_inv_il) simp_all
    then show ?thesis by (simp add: hang_up_def Some V del: il_step.simps wake_step.simps)
  qed
qed

text \<open>A request moves.\<close>

lemma aims_refreshed:
  "aims (Refreshed reg g rq err r) = Some (k, e) \<Longrightarrow> (k, e) \<in> set (refreshed (Refreshed reg g rq err r))"
  by (cases r; cases "projr r") auto

lemma phase_step_aims:
  assumes "phase_step st req ph s = (ph1, t)" and "calls_wake ph = None" and "aims ph1 = Some (k, e)"
  shows "aims ph = Some (k, e) \<or> (k, e) \<in> set (refreshed ph1)"
proof (cases "(st, req, ph, s)" rule: phase_step.cases)
  case (9 st' req' reg e' g rq err s')
  then show ?thesis using assms by (auto dest: aims_refreshed split: prod.splits)
qed (use assms in \<open>auto split: prod.splits sum.splits bool.splits if_splits option.splits endpoint_refresh.splits nscale_error.splits\<close>)

lemma resumed_phase:
  assumes "resumed st ph r s = (ph1, t)" and "calls_wake ph = Some reg"
  shows "forgets (nd_coord s) (nd_coord t)" and "nd_flights t = nd_flights s" and "guards_of ph1 = guards_of ph"
    and "aims ph1 = Some (k, e) \<Longrightarrow> k = reg_key reg \<and> r = Inr e"
proof -
  have "forgets (nd_coord s) (nd_coord t) \<and> nd_flights t = nd_flights s \<and> guards_of ph1 = guards_of ph"
    using assms by (cases ph) (auto dest: woken_forgets rewoken_forgets woken_flights rewoken_flights)
  then show "forgets (nd_coord s) (nd_coord t)" "nd_flights t = nd_flights s" "guards_of ph1 = guards_of ph" by simp_all
  show "aims ph1 = Some (k, e) \<Longrightarrow> k = reg_key reg \<and> r = Inr e"
    using assms by (cases ph) (auto simp: woken_def rewoken_def split: sum.splits nscale_error.splits prod.splits)
qed

lemma cc_inv_resume:
  assumes inv: "cc_inv env n to s" and i: "i < length (il_requests (cc_il s))" "il_requests (cc_il s) ! i = (req, ph)"
    and c: "cc_calls s i = Some k" "req_pc (requests (cc_wake s) ! k) = Returned r"
    and r: "resumed st ph r (cc_node s) = (ph1, u)"
  shows "cc_inv env n to ((put_il (set_node u ((cc_il s)\<lparr>il_requests := (il_requests (cc_il s))[i := (req, ph1)]\<rparr>)) s)
    \<lparr>cc_calls := (cc_calls s)(i := None)\<rparr>)"
proof -
  let ?il = "set_node u ((cc_il s)\<lparr>il_requests := (il_requests (cc_il s))[i := (req, ph1)]\<rparr>)"
  have k: "k < length (requests (cc_wake s))" "calls_wake ph = Some (req_reg (requests (cc_wake s) ! k))"
    using inv c(1) i(2) unfolding cc_inv_def calls_ok_def by (metis snd_conv)+
  note ph = resumed_phase [OF r k(2)]
  have "il_inv ?il"
    by (rule il_inv_request [OF _ i, of _ ph1]) (use inv ph in \<open>simp_all add: cc_inv_def\<close>)
  moreover have "aims_ok (il_requests ?il) (cc_wake s)"
    using inv ph(4) wake_part_sound [OF _ k(1)] c(2) by (auto simp: cc_inv_def intro!: aims_ok_update)
  moreover have "calls_ok (il_requests ?il) (cc_wake s) ((cc_calls s)(i := None))"
    using inv by (fastforce simp: cc_inv_def calls_ok_def)
  moreover have "wake_part n to ((cc_wake s)\<lparr>coord := nd_coord u\<rparr>)"
    using inv ph(1) by (auto simp: cc_inv_def intro: wake_part_forgets)
  ultimately show ?thesis using inv by (simp add: cc_inv_def put_il_def)
qed

lemma cc_inv_call:
  assumes inv: "cc_inv env n to s" and i: "i < length (il_requests (cc_il s))" "il_requests (cc_il s) ! i = (req, ph)"
    and reg: "calls_wake ph = Some reg"
  shows "cc_inv env n to ((wake_moves (Call reg) (nd_world (cc_node s)) s)\<lparr>cc_calls := (cc_calls s)(i \<mapsto> length (requests (cc_wake s)))\<rparr>)"
proof -
  have "cc_inv env n to (wake_moves (Call reg) (nd_world (cc_node s)) s)"
    by (rule cc_inv_wake [OF inv]) auto
  then show ?thesis using i reg by (auto simp: cc_inv_def calls_ok_def wake_moves_def nth_append)
qed

text \<open>A step of its own.\<close>

lemma refreshed_said:
  assumes "phase_step st req ph s = (ph1, t)" and "as_orchestrator st = we_orchestrator env"
    and "calls_wake ph = None" and "(k, e) \<in> set (refreshed ph1)"
  shows "said env k e"
proof (cases "\<exists>reg e' g rq err. ph = Retrying reg e' g rq [] err")
  case False
  then show ?thesis using phase_step_forgets [OF assms(1,3)] assms(4) by auto
next
  case True
  then obtain reg e' g rq err where ph: "ph = Retrying reg e' g rq [] err" by blast
  from refresh_phase [OF assms(1) [unfolded ph]] assms(4) obtain a where
    a: "fst (get_healthy_endpoint (as_orchestrator st) (job_id reg) (nd_world s)) = Inr a"
      "(k, e) \<in> set (refreshed (Refreshed reg g rq err (Inr (fst (refresh_endpoint_with reg e' a (nd_coord s))))))"
    by auto
  then have "k = reg_key reg \<and> a = Some e"
    by (auto simp: refresh_endpoint_with_def Let_def split: option.splits if_splits)
  with a(1) assms(2) show ?thesis unfolding said_def by metis
qed

lemma coord_reported: "W\<lparr>coord := c, reported := h\<rparr> = W\<lparr>reported := h, coord := c\<rparr>"
  by simp

lemma cc_inv_own:
  assumes inv: "cc_inv env n to s" and p: "as_wake (ps_app p) = node_ensure_running env"
    and o: "as_orchestrator (ps_app p) = we_orchestrator env"
    and i: "i < length (il_requests (cc_il s))" "il_requests (cc_il s) ! i = (req, ph)" and ph: "calls_wake ph = None"
    and q: "phase_step (ps_app p) req ph (cc_node s) = (ph1, u)"
  shows "cc_inv env n to (let t = put_il (il_step p (RequestStep i) (cc_il s)) s in
    t\<lparr>cc_wake := (cc_wake t)\<lparr>reported := refreshed (snd (il_requests (cc_il t) ! i)) @ reported (cc_wake t)\<rparr>\<rparr>)"
proof -
  let ?rs = "(il_requests (cc_il s))[i := (req, ph1)]"
  let ?W = "(cc_wake s)\<lparr>reported := refreshed ph1 @ reported (cc_wake s), coord := nd_coord u\<rparr>"
  have il: "il_step p (RequestStep i) (cc_il s) = set_node u ((cc_il s)\<lparr>il_requests := ?rs\<rparr>)" using i q by simp
  have "wake_part n to ?W"
  proof (cases "\<exists>reg e g rq err. ph = Retrying reg e g rq [] err")
    case True
    then obtain reg e g rq err where "ph = Retrying reg e g rq [] err" by blast
    from wake_part_refreshed [OF q [unfolded this]] show ?thesis using inv by (simp add: cc_inv_def)
  next
    case False
    have "forgets (coord (cc_wake s)) (nd_coord u)" "refreshed ph1 = []"
      using phase_step_forgets [OF q ph] False inv by (auto simp: cc_inv_def)
    then show ?thesis using wake_part_forgets inv by (simp add: cc_inv_def)
  qed
  moreover have "aims_ok ?rs ?W"
  proof (rule aims_ok_update)
    show "aims_ok (il_requests (cc_il s)) ?W" using inv by (auto simp: cc_inv_def intro: aims_ok_mono)
    show "(k, e) \<in> set (reported ?W)" if "aims ph1 = Some (k, e)" for k e
      using phase_step_aims [OF q ph that] inv nth_mem [OF i(1)] i(2) by (fastforce simp: cc_inv_def aims_ok_def)
  qed
  moreover have "said_ok env ?W"
    using inv refreshed_said [OF q o ph] by (fastforce simp: cc_inv_def said_ok_def)
  moreover have "calls_ok ?rs (cc_wake s) (cc_calls s)"
  proof -
    have ok: "calls_ok (il_requests (cc_il s)) (cc_wake s) (cc_calls s)" using inv by (simp add: cc_inv_def)
    then have "cc_calls s i = None" using i(2) ph unfolding calls_ok_def by (metis option.distinct(1) option.exhaust snd_conv)
    then show ?thesis using ok unfolding calls_ok_def by (metis length_list_update nth_list_update_neq option.distinct(1))
  qed
  moreover have "il_inv (il_step p (RequestStep i) (cc_il s))" using il_inv_step [OF p] inv by (simp add: cc_inv_def del: il_step.simps)
  ultimately show ?thesis using i(1) by (simp add: cc_inv_def put_il_def il Let_def coord_reported del: il_step.simps)
qed

lemma cc_inv_advance:
  assumes "cc_inv env n to s" and "as_wake (ps_app p) = node_ensure_running env"
    and "as_orchestrator (ps_app p) = we_orchestrator env"
  shows "cc_inv env n to (advance p i s)"
proof (cases "i < length (il_requests (cc_il s))")
  case i: True
  obtain req ph where r: "il_requests (cc_il s) ! i = (req, ph)" by force
  show ?thesis
  proof (cases "calls_wake ph")
    case None
    obtain ph1 u where "phase_step (ps_app p) req ph (cc_node s) = (ph1, u)" by force
    from cc_inv_own [OF assms i r None this] show ?thesis using i r None by (simp add: advance_def del: il_step.simps)
  next
    case reg: (Some reg)
    show ?thesis
    proof (cases "cc_calls s i")
      case None
      then show ?thesis using cc_inv_call [OF assms(1) i r reg] i r reg by (simp add: advance_def)
    next
      case k: (Some k)
      show ?thesis
      proof (cases "req_pc (requests (cc_wake s) ! k)")
        case (Returned x)
        obtain ph1 u where "resumed (ps_app p) ph x (cc_node s) = (ph1, u)" by force
        with cc_inv_resume [OF assms(1) i r k Returned this] show ?thesis using i r reg k Returned by (simp add: advance_def)
      qed (use assms(1) i r reg k in \<open>simp_all add: advance_def\<close>)
    qed
  qed
qed (use assms(1) in \<open>simp add: advance_def\<close>)

lemma cc_inv_step:
  assumes "cc_inv env n to s" and "as_wake (ps_app p) = node_ensure_running env"
    and "as_orchestrator (ps_app p) = we_orchestrator env"
  shows "cc_inv env n to (cc_step env p op s)"
proof (cases op)
  case (Node iop)
  then show ?thesis
    using cc_inv_advance [OF assms] cc_inv_hang_up [OF assms(1,2)] cc_inv_il [OF assms(1,2), of iop]
    by (cases iop) (simp_all add: node_op_def del: il_step.simps)
next
  case (Inside ev)
  have "cc_inv env n to (wake_moves ev (nd_world (cc_node s)) s)" if "internal ev"
    by (rule cc_inv_wake [OF assms(1)]) (use that internal_reported in \<open>auto elim: internal.elims\<close>)
  then show ?thesis using assms(1) by (simp add: Inside)
next
  case (Outside c)
  obtain ev w where a: "wake_answer env c (cc_wake s) (nd_world (cc_node s)) = (ev, w)" by force
  have "cc_inv env n to (wake_moves ev w s)"
    by (rule cc_inv_wake [OF assms(1)]) (use wake_answer_events [OF a] answer_reported [OF a] in blast)+
  then show ?thesis by (simp add: Outside a)
qed

lemma boot_parts:
  "boot rt cfg w = Inr (p, n) \<Longrightarrow>
     as_wake (ps_app p) = node_ensure_running (wake_env_of rt cfg) \<and> nd_flights n = tracker_new \<and>
     as_orchestrator (ps_app p) = we_orchestrator (wake_env_of rt cfg) \<and> nd_coord n = coordinator_of cfg"
  by (auto simp: boot_def process_of_def app_of_def node_of_def wake_env_of_def split: prod.splits sum.splits)

abbreviation cc_inv_of :: "'w runtime \<Rightarrow> config \<Rightarrow> 'w concurrent \<Rightarrow> bool" where
  "cc_inv_of rt cfg \<equiv>
     cc_inv (wake_env_of rt cfg) (unat (concurrency (nomad_cfg cfg))) (unat (wake_timeout_secs (scaling_cfg cfg)))"

lemma cc_reachable_inv:
  "cc_reachable rt cfg p s \<Longrightarrow>
     as_wake (ps_app p) = node_ensure_running (wake_env_of rt cfg) \<and>
     as_orchestrator (ps_app p) = we_orchestrator (wake_env_of rt cfg) \<and> cc_inv_of rt cfg s"
proof (induction rule: cc_reachable.induct)
  case (start w p n)
  let ?W = "wake_init (unat (concurrency (nomad_cfg cfg))) (unat (wake_timeout_secs (scaling_cfg cfg)))"
  have "wake_reachable (unat (concurrency (nomad_cfg cfg))) (unat (wake_timeout_secs (scaling_cfg cfg))) (?W\<lparr>ops := []\<rparr>)"
    using wake_reachable.start by (simp add: wake_init_def)
  then have "wake_part (unat (concurrency (nomad_cfg cfg))) (unat (wake_timeout_secs (scaling_cfg cfg))) ?W"
    unfolding wake_part_def by blast
  moreover have "il_inv (il_start n)"
    using il_reachable_inv [OF il_reachable.start [OF start]] by (simp add: il_start_def)
  ultimately show ?case
    using boot_parts [OF start]
    by (simp add: cc_inv_def cc_start_def il_start_def ep_new_def calls_ok_def aims_ok_def said_ok_def wake_init_def coordinator_of_def)
next
  case (step p s op)
  then show ?case using cc_inv_step by blast
qed

subsection \<open>Properties\<close>


text \<open>
  C16: Bounded scale-ups. In the whole process the wake tasks that are calling Nomad number at most
  the configured concurrency, the permits they do not hold are free in the coordinator that all parts share, and
  a job that is waking there has a wake task, or a request about to spawn one.
\<close>

theorem process_wakes:
  assumes "cc_reachable rt cfg p s"
  shows "scaling_up (cc_wake s) \<le> unat (concurrency (nomad_cfg cfg)) \<and>
    permits (nd_coord (cc_node s)) = unat (concurrency (nomad_cfg cfg)) - scaling_up (cc_wake s) \<and>
    (\<forall>a < length (states (nd_coord (cc_node s))). is_waking (states (nd_coord (cc_node s)) ! a) \<longrightarrow> pending a (cc_wake s))"
proof -
  have inv: "wake_part (unat (concurrency (nomad_cfg cfg))) (unat (wake_timeout_secs (scaling_cfg cfg))) (cc_wake s)"
    "nd_coord (cc_node s) = coord (cc_wake s)" using cc_reachable_inv [OF assms] by (simp_all add: cc_inv_def)
  then obtain xs where "wake_reachable (unat (concurrency (nomad_cfg cfg))) (unat (wake_timeout_secs (scaling_cfg cfg)))
      ((cc_wake s)\<lparr>ops := xs\<rparr>)" by (auto simp: wake_part_def)
  from reachable_permits_ok [OF this] reachable_waking_ok [OF this] show ?thesis
    by (auto simp: inv(2) permits_ok_def scaling_up_def waking_ok_def is_waking_def pending_def)
qed

text \<open>The in-flight counts are exact here too.\<close>

theorem concurrent_counts:
  assumes "cc_reachable rt cfg p s" and "length (held (cc_il s)) < 2 ^ 64"
  shows "unat (Inflight.count k (nd_flights (cc_node s))) = length (held_for k (cc_il s))"
  using counts_held [OF _ assms(2)] cc_reachable_inv [OF assms(1)] by (simp add: cc_inv_def)

subsection \<open>Coalescing\<close>

text \<open>
  Calm runs of the process: no wake fails, and nothing but the coordinator's machine touches the
  coordinator, so that no part forgets a job or learns another endpoint.
\<close>

definition quiet :: "'w cc_op \<Rightarrow> 'w concurrent \<Rightarrow> 'w concurrent \<Rightarrow> bool" where
  "quiet op s t \<longleftrightarrow>
     calm (cc_wake t) \<and>
     (case op of
        Node _ \<Rightarrow> coord (cc_wake t) = coord (cc_wake s) \<and> reported (cc_wake t) = reported (cc_wake s)
      | _ \<Rightarrow> True)"

inductive cc_calm :: "'w runtime \<Rightarrow> config \<Rightarrow> 'w process \<Rightarrow> 'w concurrent \<Rightarrow> bool" for rt cfg where
  start: "boot rt cfg w = Inr (p, n) \<Longrightarrow> cc_calm rt cfg p (cc_start cfg n)"
| step: "cc_calm rt cfg p s \<Longrightarrow> t = cc_step (wake_env_of rt cfg) p op s \<Longrightarrow> quiet op s t \<Longrightarrow> cc_calm rt cfg p t"

lemma put_il_wake: "cc_wake (put_il il s) = (cc_wake s)\<lparr>coord := nd_coord (il_node il)\<rparr>"
  by (simp add: put_il_def)

text \<open>A quiet step of the handlers or of another part is a step of the coordinator's machine, or none.\<close>

lemma wake_moves_wake:
  "cc_wake (wake_moves ev w s) = cc_wake s \<or> wake_step ev (cc_wake s) = Some (cc_wake (wake_moves ev w s))"
  by (simp add: wake_moves_def split: option.split)

lemma quiet_node:
  assumes "coord (cc_wake (node_op p op s)) = coord (cc_wake s)"
    and "reported (cc_wake (node_op p op s)) = reported (cc_wake s)"
  shows "cc_wake (node_op p op s) = cc_wake s \<or> (\<exists>ev. wake_step ev (cc_wake s) = Some (cc_wake (node_op p op s)))"
proof -
  have same: "W\<lparr>coord := c, reported := h\<rparr> = W" if "c = coord W" "h = reported W" for W :: wake_sys and c h
    using that by simp
  show ?thesis
  proof (cases op)
    case (RequestStep i)
    obtain req ph where r: "il_requests (cc_il s) ! i = (req, ph)" by force
    show ?thesis
    proof (cases "i < length (il_requests (cc_il s)) \<and> calls_wake ph \<noteq> None")
      case True
      then obtain reg where i: "i < length (il_requests (cc_il s))" "calls_wake ph = Some reg" by blast
      have "cc_wake (advance p i s) = (cc_wake s)\<lparr>coord := coord (cc_wake (advance p i s))\<rparr> \<or>
          cc_wake (advance p i s) = cc_wake s \<or> wake_step (Call reg) (cc_wake s) = Some (cc_wake (advance p i s))"
        using wake_moves_wake [of "Call reg" "nd_world (cc_node s)" s]
        by (auto simp: advance_def i r put_il_wake split: option.splits request_pc.splits prod.splits)
      moreover have "node_op p op s = advance p i s" by (simp add: RequestStep node_op_def)
      moreover have "(cc_wake s)\<lparr>coord := coord (cc_wake s)\<rparr> = cc_wake s" by simp
      ultimately show ?thesis using assms(1) by metis
    next
      case False
      then show ?thesis
        using assms r by (auto simp: RequestStep node_op_def advance_def put_il_wake Let_def same simp del: il_step.simps)
    qed
  next
    case (HangUp i)
    show ?thesis
    proof (cases "cc_calls s i")
      case None
      then show ?thesis using assms(1) by (simp add: HangUp node_op_def hang_up_def put_il_wake del: il_step.simps)
    next
      case k: (Some k)
      show ?thesis
      proof (cases "wake_step (Disconnect k) (cc_wake s)")
        case (Some V)
        then have "cc_wake (node_op p op s) = V\<lparr>coord := coord V\<rparr>"
          using assms(1) disconnect_reported [OF Some] by (simp add: HangUp node_op_def hang_up_def k put_il_wake del: il_step.simps)
        then have "cc_wake (node_op p op s) = V" by simp
        then show ?thesis using Some by metis
      qed (simp add: HangUp node_op_def hang_up_def k del: wake_step.simps)
    qed
  qed (use assms(1) in \<open>simp_all add: node_op_def put_il_wake del: il_step.simps\<close>)
qed

lemma cc_calm_wake:
  "cc_calm rt cfg p s \<Longrightarrow>
     calm_reachable (unat (concurrency (nomad_cfg cfg))) (unat (wake_timeout_secs (scaling_cfg cfg))) (cc_wake s)"
proof (induction rule: cc_calm.induct)
  case (start w p n)
  show ?case by (simp add: cc_start_def calm_reachable.start)
next
  case (step p s t op)
  have "cc_wake t = cc_wake s \<or> (\<exists>ev. wake_step ev (cc_wake s) = Some (cc_wake t))"
  proof (cases op)
    case (Node iop)
    then show ?thesis using quiet_node [of p iop s] step.hyps by (simp add: quiet_def)
  next
    case (Inside ev)
    then have "t = s \<or> t = wake_moves ev (nd_world (cc_node s)) s" using step.hyps(2) by simp
    then show ?thesis using wake_moves_wake by metis
  next
    case (Outside c)
    obtain ev w where "wake_answer (wake_env_of rt cfg) c (cc_wake s) (nd_world (cc_node s)) = (ev, w)" by force
    then have "t = wake_moves ev w s" using step.hyps(2) Outside by (simp del: wake_answer.simps)
    then show ?thesis using wake_moves_wake by metis
  qed
  then show ?case using step.IH step.hyps(3) calm_reachable.step by (auto simp: quiet_def)
qed

text \<open>
  C2: One wake for all requests. In a run of the process in which no wake fails and no part
  forgets or refreshes a job, at most one wake task is ever spawned for a job, however many proxied requests
  for it arrive, wait, time out or are hung up, and whatever the other parts of the process do.
\<close>

theorem process_coalesces:
  assumes "cc_calm rt cfg p s"
  shows "length (wakes_for k (cc_wake s)) \<le> 1"
  using wakes_for_le_1 reachable_addr_ok calm_reachable_imp calm_reachable_once_ok cc_calm_wake [OF assms] by blast

lemma cc_calm_reachable: "cc_calm rt cfg p s \<Longrightarrow> cc_reachable rt cfg p s"
  by (induction rule: cc_calm.induct) (auto intro: cc_reachable.intros)

subsection \<open>A run\<close>

text \<open>
  Two requests for a dormant job arrive; the first one spawns the wake task and the second one joins it; Nomad and Consul
  answer, and both go on with the endpoint. The run is checked to be calm at every step.
\<close>

fun cc_calm_run :: "'w wake_env \<Rightarrow> 'w process \<Rightarrow> 'w cc_op list \<Rightarrow> 'w concurrent \<Rightarrow> 'w concurrent option" where
  "cc_calm_run env p [] s = Some s"
| "cc_calm_run env p (op # os) s =
     (let t = cc_step env p op s in if quiet op s t then cc_calm_run env p os t else None)"

lemma cc_calm_runD:
  "cc_calm_run (wake_env_of rt cfg) p os s = Some t \<Longrightarrow> cc_calm rt cfg p s \<Longrightarrow> cc_calm rt cfg p t"
  by (induction os arbitrary: s) (auto simp: Let_def split: if_splits intro: cc_calm.step)

lemma cc_calm_run_append:
  "cc_calm_run env p (os @ qs) s = Option.bind (cc_calm_run env p os s) (cc_calm_run env p qs)"
  by (induction os arbitrary: s) (simp_all add: Let_def)

definition put_wake :: "wake_sys \<Rightarrow> 'w concurrent \<Rightarrow> 'w concurrent" where
  "put_wake W s = s\<lparr>cc_wake := W, cc_il := set_node ((cc_node s)\<lparr>nd_coord := coord W\<rparr>) (cc_il s)\<rparr>"

lemma put_wake_simps [simp]:
  "cc_wake (put_wake W s) = W" "put_wake V (put_wake W s) = put_wake V s" "nd_world (cc_node (put_wake W s)) = nd_world (cc_node s)"
  "cc_calls (put_wake W s) = cc_calls s" "il_requests (cc_il (put_wake W s)) = il_requests (cc_il s)"
  by (simp_all add: put_wake_def set_node_def)

lemma wake_moves_put: "wake_step ev (cc_wake s) = Some V \<Longrightarrow> wake_moves ev (nd_world (cc_node s)) s = put_wake V s"
  by (simp add: wake_moves_def put_wake_def)

lemma put_wake_same: "coord (cc_wake s) = nd_coord (cc_node s) \<Longrightarrow> put_wake (cc_wake s) s = s"
  by (simp add: put_wake_def set_node_def)

text \<open>A stretch of events of the coordinator's machine, and an answer.\<close>

lemma cc_run_inside:
  assumes "calm_run evs (cc_wake s) = Some V" and "list_all internal evs"
    and "nd_coord (cc_node s) = coord (cc_wake s)"
  shows "cc_calm_run env p (map Inside evs) s = Some (put_wake V s)"
  using assms
proof (induction evs arbitrary: s)
  case Nil
  then show ?case using put_wake_same [of s] by simp
next
  case (Cons ev evs)
  then obtain U where U: "wake_step ev (cc_wake s) = Some U" "calm U" "calm_run evs U = Some V"
    by (auto simp del: wake_step.simps split: option.splits if_splits)
  have "cc_calm_run env p (map Inside evs) (put_wake U s) = Some (put_wake V (put_wake U s))"
    by (rule Cons.IH) (use U Cons.prems in \<open>simp_all add: put_wake_def\<close>)
  then show ?case using U(1,2) Cons.prems(2) by (simp add: wake_moves_put quiet_def del: wake_step.simps)
qed

lemma cc_run_outside:
  assumes "wake_answer env c (cc_wake s) (nd_world (cc_node s)) = (ev, nd_world (cc_node s))"
    and "wake_step ev (cc_wake s) = Some V" and "calm V"
  shows "cc_calm_run env p [Outside c] s = Some (put_wake V s)"
  using assms by (simp add: wake_moves_put quiet_def del: wake_answer.simps wake_step.simps)

abbreviation demo_wake_env :: "mem_node wake_env" where
  "demo_wake_env \<equiv> wake_env_of demo_runtime default_config"

abbreviation demo_look_up :: "nat \<Rightarrow> mem_node cc_op list" where
  "demo_look_up i \<equiv> [Node (Arrive demo_upgrade), Node (RequestStep i), Node (RequestStep i)]"

definition demo_state :: "mem_node node \<Rightarrow> request_phase list \<Rightarrow> mem_node concurrent" where
  "demo_state n phs =
     \<lparr>cc_il = \<lparr>il_events = ep_new n, il_requests = map (Pair demo_upgrade) phs, il_controller = Resting\<rparr>,
      cc_wake = wake_init 50 60, cc_calls = Map.empty\<rparr>"

text \<open>A request is looked up.\<close>

lemma demo_record:
  assumes "demo_cached (nd_world n)"
  shows "\<exists>n1. phase_step (ps_app demo_process) demo_upgrade Arrived n = (Recorded, n1) \<and>
    phase_step (ps_app demo_process) demo_upgrade Recorded n1 = (LookedUp shop, n1) \<and>
    demo_cached (nd_world n1) \<and> nd_coord n1 = nd_coord n"
proof -
  let ?st = "ps_app demo_process"
  define n1 where "n1 = record_for (as_store ?st) (request_job demo_upgrade) n"
  have n1: "demo_cached (nd_world n1)" "nd_coord n1 = nd_coord n"
    using assms
    by (simp add: n1_def demo_upgrade_reads record_for_def demo_process_def process_of_def app_of_def redis_activity_impl_def
        redis_record_activity_def mem_store_def mem_redis_def io_map_err_def io_bind_def io_return_def demo_cached_def)
      (simp add: n1_def)
  have "on_world (get (as_registry ?st) (JobId ''web'')) n1 = (Inr (Some shop), n1)"
    using demo_lookup [OF n1(1)] by (simp add: on_world_def demo_process_def process_of_def app_of_def)
  then show ?thesis using n1 by (intro exI [of _ n1]) (simp add: demo_upgrade_reads n1_def)
qed

lemma demo_look_up_run:
  assumes "demo_cached (nd_world n)" and "nd_coord n = coordinator_new 50 60" and "i = length phs"
  shows "\<exists>n1. cc_calm_run demo_wake_env demo_process (demo_look_up i) (demo_state n phs) = Some (demo_state n1 (phs @ [LookedUp shop])) \<and>
     demo_cached (nd_world n1) \<and> nd_coord n1 = coordinator_new 50 60"
proof -
  from demo_record [OF assms(1)] obtain n1 where
    n1: "phase_step (ps_app demo_process) demo_upgrade Arrived n = (Recorded, n1)"
      "phase_step (ps_app demo_process) demo_upgrade Recorded n1 = (LookedUp shop, n1)"
      "demo_cached (nd_world n1)" "nd_coord n1 = nd_coord n" by blast
  show ?thesis
    using n1(3,4) assms(2)
    by (intro exI [of _ n1])
      (simp add: demo_state_def assms(3) node_op_def put_il_def set_node_def ep_new_def advance_def nth_append
        list_update_append n1(1,2) quiet_def calm_def wake_init_def Let_def del: phase_step.simps(1,2))
qed

text \<open>The wake: the requests call, the first spawns a task that acquires a permit; answers; the task settles.\<close>

definition demo_acquire :: "wake_event list" where
  "demo_acquire = replicate 5 (ReqStep 0) @ replicate 4 (ReqStep 1) @ [TaskStep 0]"

definition demo_settle :: "wake_event list" where
  "demo_settle = [TaskStep 0, TaskStep 0, TaskStep 0, Receive 0, Receive 1]"

abbreviation demo_endpoint :: endpoint where
  "demo_endpoint \<equiv> \<lparr>host = ''10.0.0.9'', port = 80\<rparr>"

abbreviation demo_called :: wake_sys where
  "demo_called \<equiv>
     (wake_init 50 60)\<lparr>requests := [\<lparr>req_reg = shop, req_pc = AtFastPath\<rparr>, \<lparr>req_reg = shop, req_pc = AtFastPath\<rparr>]\<rparr>"

lemma demo_wake_run:
  "\<exists>U V W X. calm_run demo_acquire demo_called = Some U \<and>
     scaling_up U = 1 \<and> length (wakes_for ''shop'' U) = 1 \<and> task_reg (tasks U ! 0) = shop \<and>
     wake_step (ScaleUpAnswer 0 (Inr ())) U = Some V \<and> calm V \<and> task_reg (tasks V ! 0) = shop \<and> wake_timeout (coord V) = 60 \<and>
     wake_step (HealthAnswer 0 (Inr demo_endpoint)) V = Some W \<and> calm W \<and>
     calm_run demo_settle W = Some X \<and> calm X \<and> length (wakes_for ''shop'' X) = 1 \<and>
     map req_pc (requests X) = [Returned (Inr demo_endpoint), Returned (Inr demo_endpoint)]"
  by (simp add: demo_acquire_def demo_settle_def run_simps scaling_up_def wakes_for_def shop_def numeral_eq_Suc)

text \<open>The run up to the call of Nomad, and to the end.\<close>

definition demo_calling :: "mem_node cc_op list" where
  "demo_calling = [Node (World demo_idle)] @ demo_look_up 0 @ demo_look_up 1 @ [Node (RequestStep 0), Node (RequestStep 1)] @
     map Inside demo_acquire"

definition demo_answering :: "mem_node cc_op list" where
  "demo_answering = [Outside (ScaleUpCall 0)] @ [Outside (HealthCall 0)] @ map Inside demo_settle @
     [Node (RequestStep 0), Node (RequestStep 1)]"

lemma demo_arrivals:
  "\<exists>s. cc_calm_run demo_wake_env demo_process ([Node (World demo_idle)] @ demo_look_up 0 @ demo_look_up 1 @
       [Node (RequestStep 0), Node (RequestStep 1)]) (cc_start default_config demo_node_start) = Some s \<and>
     cc_wake s = demo_called \<and> nd_coord (cc_node s) = coord demo_called \<and> cc_calls s = [0 \<mapsto> 0, 1 \<mapsto> 1] \<and>
     il_requests (cc_il s) = [(demo_upgrade, LookedUp shop), (demo_upgrade, LookedUp shop)]"
proof -
  let ?run = "cc_calm_run demo_wake_env demo_process" and ?n = "demo_node_start\<lparr>nd_world := demo_idle\<rparr>"
  have c: "nd_coord demo_node_start = coordinator_new 50 60"
    "unat (concurrency (nomad_cfg default_config)) = 50" "unat (wake_timeout_secs (scaling_cfg default_config)) = 60"
    by (simp_all add: demo_node_start_def node_of_def coordinator_of_def default_config_def default_scaling_def)
  have w: "?run [Node (World demo_idle)] (cc_start default_config demo_node_start) = Some (demo_state ?n [])"
    by (simp add: cc_start_def demo_state_def c il_start_def ep_new_def node_op_def put_il_def set_node_def quiet_def calm_def
        wake_init_def Let_def)
  have n: "demo_cached (nd_world ?n)" "nd_coord ?n = coordinator_new 50 60"
    by (simp_all add: c demo_cached_def demo_idle_def node_empty_def)
  from demo_look_up_run [OF n, of 0 "[]"] obtain n1 where
    n1: "?run (demo_look_up 0) (demo_state ?n []) = Some (demo_state n1 [LookedUp shop])"
      "demo_cached (nd_world n1)" "nd_coord n1 = coordinator_new 50 60" by auto
  from demo_look_up_run [OF n1(2,3), of 1 "[LookedUp shop]"] obtain n2 where
    n2: "?run (demo_look_up 1) (demo_state n1 [LookedUp shop]) = Some (demo_state n2 [LookedUp shop, LookedUp shop])"
      "nd_coord n2 = coordinator_new 50 60" by auto
  obtain s where s: "?run [Node (RequestStep 0), Node (RequestStep 1)] (demo_state n2 [LookedUp shop, LookedUp shop]) = Some s"
    "cc_wake s = demo_called" "nd_coord (cc_node s) = coord demo_called" "cc_calls s = [0 \<mapsto> 0, 1 \<mapsto> 1]"
    "il_requests (cc_il s) = [(demo_upgrade, LookedUp shop), (demo_upgrade, LookedUp shop)]"
    using n2(2) by (simp add: demo_state_def node_op_def advance_def wake_moves_def wake_init_def quiet_def calm_def ep_new_def
        set_node_def Let_def)
  show ?thesis using s by (simp only: cc_calm_run_append w n1(1) n2(1) bind.bind_lunit) simp
qed

lemma demo_runs:
  "\<exists>s t. cc_calm_run demo_wake_env demo_process demo_calling (cc_start default_config demo_node_start) = Some s \<and>
     scaling_up (cc_wake s) = 1 \<and> cc_calm_run demo_wake_env demo_process demo_answering s = Some t \<and>
     length (wakes_for ''shop'' (cc_wake t)) = 1 \<and>
     il_requests (cc_il t) = [(demo_upgrade, Awake shop demo_endpoint), (demo_upgrade, Awake shop demo_endpoint)]"
proof -
  let ?run = "cc_calm_run demo_wake_env demo_process"
  obtain s where s: "?run ([Node (World demo_idle)] @ demo_look_up 0 @ demo_look_up 1 @
       [Node (RequestStep 0), Node (RequestStep 1)]) (cc_start default_config demo_node_start) = Some s"
    "cc_wake s = demo_called" "nd_coord (cc_node s) = coord demo_called" "cc_calls s = [0 \<mapsto> 0, 1 \<mapsto> 1]"
    "il_requests (cc_il s) = [(demo_upgrade, LookedUp shop), (demo_upgrade, LookedUp shop)]"
    using demo_arrivals by blast
  obtain U V W X where w: "calm_run demo_acquire demo_called = Some U" "scaling_up U = 1" "task_reg (tasks U ! 0) = shop"
    "wake_step (ScaleUpAnswer 0 (Inr ())) U = Some V" "calm V" "task_reg (tasks V ! 0) = shop" "wake_timeout (coord V) = 60"
    "wake_step (HealthAnswer 0 (Inr demo_endpoint)) V = Some W" "calm W"
    "calm_run demo_settle W = Some X" "calm X" "length (wakes_for ''shop'' X) = 1"
    "map req_pc (requests X) = [Returned (Inr demo_endpoint), Returned (Inr demo_endpoint)]"
    using demo_wake_run by metis
  have "?run (map Inside demo_acquire) s = Some (put_wake U s)"
    by (rule cc_run_inside) (use w(1) s(2,3) in \<open>simp_all add: demo_acquire_def eval_nat_numeral\<close>)
  then have calling: "?run demo_calling (cc_start default_config demo_node_start) = Some (put_wake U s)"
    using s(1) by (simp only: demo_calling_def append_assoc [symmetric] cc_calm_run_append [of _ _ _ "map Inside demo_acquire"]) simp
  have a: "?run [Outside (ScaleUpCall 0)] (put_wake U s) = Some (put_wake V (put_wake U s))"
    by (rule cc_run_outside) (use w in \<open>simp_all add: wake_env_of_def nomad_orchestrator_def demo_scale_up del: wake_step.simps\<close>)
  have b: "?run [Outside (HealthCall 0)] (put_wake V s) = Some (put_wake W (put_wake V s))"
    by (rule cc_run_outside) (use w in \<open>simp_all add: wake_env_of_def consul_discovery_def demo_wait timeout_of_def
      nanos_per_sec_def del: wake_step.simps\<close>)
  have c: "?run (map Inside demo_settle) (put_wake W s) = Some (put_wake X (put_wake W s))"
    by (rule cc_run_inside) (use w in \<open>simp_all add: demo_settle_def put_wake_def\<close>)
  have x: "req_pc (requests X ! 0) = Returned (Inr demo_endpoint)" "req_pc (requests X ! 1) = Returned (Inr demo_endpoint)"
    using w(13) by (auto simp: map_eq_Cons_conv)
  obtain t where t: "?run [Node (RequestStep 0), Node (RequestStep 1)] (put_wake X s) = Some t" "cc_wake t = X"
    "il_requests (cc_il t) = [(demo_upgrade, Awake shop demo_endpoint), (demo_upgrade, Awake shop demo_endpoint)]"
    using s(4,5) x w(11) by (simp add: node_op_def advance_def woken_def put_il_def quiet_def put_wake_def set_node_def Let_def)
  have "?run demo_answering (put_wake U s) = Some t"
    using a b c t(1) by (simp only: demo_answering_def cc_calm_run_append put_wake_simps bind.bind_lunit)
  then show ?thesis using calling w(2,12) t by (intro exI [of _ "put_wake U s"] exI [of _ t]) simp
qed

lemma demo_calm_runs:
  "\<exists>s. cc_calm demo_runtime default_config demo_process s \<and> scaling_up (cc_wake s) = 1"
  "\<exists>s. cc_calm demo_runtime default_config demo_process s \<and> length (wakes_for ''shop'' (cc_wake s)) = 1 \<and>
     il_requests (cc_il s) = [(demo_upgrade, Awake shop demo_endpoint), (demo_upgrade, Awake shop demo_endpoint)]"
proof -
  have "cc_calm demo_runtime default_config demo_process (cc_start default_config demo_node_start)"
    unfolding demo_node_start_def by (rule cc_calm.start [OF demo_boots])
  with demo_runs cc_calm_runD
  show "\<exists>s. cc_calm demo_runtime default_config demo_process s \<and> scaling_up (cc_wake s) = 1"
    and "\<exists>s. cc_calm demo_runtime default_config demo_process s \<and> length (wakes_for ''shop'' (cc_wake s)) = 1 \<and>
     il_requests (cc_il s) = [(demo_upgrade, Awake shop demo_endpoint), (demo_upgrade, Awake shop demo_endpoint)]"
    by metis+
qed


theorem process_wakes_witness:
  "\<exists>s. cc_reachable demo_runtime default_config demo_process s \<and> scaling_up (cc_wake s) = 1 \<and>
     permits (nd_coord (cc_node s)) = unat (concurrency (nomad_cfg default_config)) - 1"
  using process_wakes demo_calm_runs(1) cc_calm_reachable by metis

theorem process_coalesces_witness:
  "\<exists>s. cc_calm demo_runtime default_config demo_process s \<and> length (wakes_for ''shop'' (cc_wake s)) = 1 \<and>
     length (wakes_for ''shop'' (cc_wake s)) \<le> 1 \<and>
     il_requests (cc_il s) = [(demo_upgrade, Awake shop demo_endpoint), (demo_upgrade, Awake shop demo_endpoint)]"
  using process_coalesces demo_calm_runs(2) by blast

end
