(* ===== verification/Spec2Isabelle.thy ===== *)
theory Spec2Isabelle
  imports Wake_Typing Wake_Coalescing Wake_Sequential Wake_Progress Inflight Config Store_Properties Registry_Properties Job_Mutator
    Nomad_Client Events Traffic_Probe Controller_Properties Event_Processor Consul Forward Handler_Properties
    Admin_Properties Startup Process Config_Load Launch Restart Interleaving Concurrent
begin

text \<open>
  A verification development for nscale, a scale-to-zero service for HashiCorp Nomad.

  \<^bold>\<open>The program.\<close> nscale stands between Traefik and the jobs of a Nomad cluster. A request for a
  registered job goes through the proxy (\<^verbatim>\<open>crates/nscale-proxy\<close>), which records activity, looks the job
  up in the registry (\<^verbatim>\<open>crates/nscale-store\<close>, a Redis cache over an optional etcd store of
  \<^verbatim>\<open>crates/nscale-etcd\<close>), asks the wake coordinator (\<^verbatim>\<open>crates/nscale-waker\<close>) for an endpoint and forwards
  the request. The coordinator scales a dormant job up through Nomad (\<^verbatim>\<open>crates/nscale-nomad\<close>), once however
  many requests wait for it, and waits until Consul (\<^verbatim>\<open>crates/nscale-consul\<close>) reports a healthy instance. The
  scale-down controller (\<^verbatim>\<open>crates/nscale-scaler\<close>) scales idle jobs to zero under a lock, unless requests are
  in flight or Traefik's counters show traffic; the event processor follows Nomad's event stream. The
  admin API (\<^verbatim>\<open>src/main.rs\<close>) submits, registers and purges jobs. \<^verbatim>\<open>crates/nscale-core\<close> has the types,
  the errors, the traits, the configuration and the in-flight tracker the parts share.

  \<^bold>\<open>Conventions.\<close> An operation that reaches outside the process is a function of the world \<open>'w\<close> that
  returns a result (a sum, errors on the left) and the next world; \<^verbatim>\<open>?\<close> is \<open>io_bind\<close>. A trait is a record of
  such operations. Redis, etcd, HTTP, the serde codecs, the clock and the sleep are parameters; what the
  code relies on of them is named where it is used (\<open>zset_laws\<close>, \<open>hash_laws\<close>, \<open>counter_laws\<close>, \<open>lock_laws\<close>,
  \<open>etcd_laws\<close>, \<open>codec_ok\<close>, \<open>clock_laws\<close>), and \<open>Mem_Redis\<close> and \<open>Mem_Etcd\<close> are concrete servers that satisfy
  those laws and on which the witnesses run. Machine integers are words; durations and instants are
  nanoseconds as natural numbers. Shared pointers are indices into a list of cells.

  \<^bold>\<open>Theories, and the code they model.\<close>
    \<^item> \<open>Prelude\<close>: integers, durations, the monad of operations, strings and the shared lemmas. \<open>Core\<close>:
      \<^verbatim>\<open>job.rs\<close>, \<^verbatim>\<open>error.rs\<close>, \<^verbatim>\<open>traits.rs\<close>. \<open>Config\<close>: \<^verbatim>\<open>config.rs\<close>; \<open>Config_Load\<close>:
      its \<^verbatim>\<open>load\<close>, with Figment as a parameter of which only the merge by settings is relied on. \<open>Json\<close> and \<open>Http\<close>: the JSON values and HTTP
      messages the clients exchange.
    \<^item> \<open>Inflight\<close>: \<^verbatim>\<open>inflight.rs\<close>, with a machine that interleaves requests at the lock and atomic operations
      of \<^verbatim>\<open>track\<close>. The counts are exact under every interleaving. Its interface is the locale
      \<open>guard_counter_laws\<close>.
    \<^item> \<open>Wake\<close>: \<^verbatim>\<open>state.rs\<close> and \<^verbatim>\<open>coordinator.rs\<close> as a machine whose steps are the atomic operations of requests,
      wake tasks, \<^verbatim>\<open>mark_dormant\<close>, \<^verbatim>\<open>invalidate\<close> and \<^verbatim>\<open>refresh_endpoint\<close>; the answers of Nomad and Consul, the timers
      and disconnections are events. \<open>Wake_Invariants\<close> proves its invariants by rule induction,
      \<open>Wake_Coalescing\<close> has the properties (coalescing, no stuck wake, bounded concurrency, sound answers) and
      two runs that show races, \<open>Wake_Typing\<close> that only three statuses occur. \<open>Wake_Progress\<close> is about infinite
      executions: the loop of a request is lock-free, and under fairness every request returns. \<open>Wake_Sequential\<close> has
      \<^verbatim>\<open>ensure_running\<close> as a function, when nothing interleaves, and proves it a run of the machine; once a
      service of a job is awake, its endpoint answers for every service of the job.
    \<^item> \<open>Store\<close>, \<open>Store_Properties\<close>: \<^verbatim>\<open>activity.rs\<close> and \<^verbatim>\<open>auto_deregister.rs\<close>; idleness is exact, the lock is
      exclusive and owned, misses are counted. \<open>Registry\<close>, \<open>Etcd\<close>, \<open>Registry_Properties\<close>: \<^verbatim>\<open>registry.rs\<close> and
      the etcd client; register and look up, deregister and look up, rollback, durable first, hydration.
      The locale \<open>durable_contract\<close> is what the registry relies on; etcd is proved to provide it.
    \<^item> \<open>Nomad_Client\<close>, \<open>Job_Mutator\<close>, \<open>Events\<close>: \<^verbatim>\<open>client.rs\<close>, \<^verbatim>\<open>models.rs\<close>, \<^verbatim>\<open>job_mutator.rs\<close>, \<^verbatim>\<open>events.rs\<close>; errors and
      endpoints, the mutation of submitted jobs (exact registrations, idempotent), the reassembly of the
      stream from chunks and its resume index. \<open>Consul\<close>: the fallback registration and the wait for a
      healthy instance, which always returns and returns what Consul listed.
    \<^item> \<open>Traffic_Probe\<close>, \<open>Controller\<close>, \<open>Controller_Properties\<close>, \<open>Event_Processor\<close>: \<^verbatim>\<open>traffic_probe.rs\<close>,
      \<^verbatim>\<open>controller.rs\<close>, \<^verbatim>\<open>event_processor.rs\<close> on a \<open>node\<close>, the state the parts of one process share.
    \<^item> \<open>Forward\<close>, \<open>Handler\<close>, \<open>Handler_Properties\<close>: \<^verbatim>\<open>proxy.rs\<close>, \<^verbatim>\<open>handler.rs\<close>, \<^verbatim>\<open>middleware.rs\<close>; what is sent to
      backends and how often, the in-flight guard on every path, missing jobs, the heartbeat. The locale
      \<open>wake_service\<close> is what the handler relies on of the coordinator.
    \<^item> \<open>Admin\<close>, \<open>Admin_Properties\<close>, \<open>Startup\<close>: the handlers and \<^verbatim>\<open>main\<close> of \<^verbatim>\<open>src/main.rs\<close>. \<open>Launch\<close>: the rest of
      \<^verbatim>\<open>main\<close> (log format, configuration, the identifier of the instance, the clients with their tokens, the
      listeners, the exit codes); a launch that serves is a boot. \<open>Restart\<close>: what a start finds again in etcd.
    \<^item> \<open>Process\<close>: the parts as \<^verbatim>\<open>main\<close> wires them, running on one node in any order, operation by
      operation. \<open>Interleaving\<close>: the same with requests and ticks cut into steps at every call that
      leaves the process, and clients that hang up; the in-flight counts are exact at every moment, no scale-down
      without a check of them, and a run that shows that the check and the call are not atomic.
    \<^item> \<open>Concurrent\<close>: the interleaved process with the machine of \<open>Wake\<close> in the place of
      \<^verbatim>\<open>ensure_running\<close>, answered by the orchestrator and service discovery that \<^verbatim>\<open>main\<close> wires. The controller, the
      event processor, the admin API and the handlers forget and refresh jobs while requests wait. A simulation shows
      that the coordinator runs through reachable states of \<open>Wake\<close>, which gives, for the whole process, one wake for
      all requests of a job, bounded scale-ups, no stuck wake, and that requests are sent only to endpoints that
      were answered for their job. The properties that span operations of several parts follow below.

  \<^bold>\<open>Bounds and what is simplified.\<close> The in-flight counters are 64-bit and wrap, so exactness is stated for
  fewer than \<open>2 ^ 64\<close> guards; the 32-bit counters of a bulk registration for fewer than \<open>2 ^ 32\<close> entries.
  The wait for Consul is a \<open>partial_function\<close>; that it returns is proved from a clock that every query
  advances. The wait for Redis is a terminating function of at most thirty attempts. The metrics parser
  reads the decimal literals of \<^verbatim>\<open>f64\<close> and rounds to 53 bits. Lower-casing is of ASCII letters. The machines
  of \<open>Inflight\<close> and \<open>Wake\<close> interleave at atomic operations and are sequentially consistent. \<open>Process\<close>
  runs each operation of the controller, the handler, the event processor and the admin API from beginning to
  end; \<open>Interleaving\<close> and \<open>Concurrent\<close> cut the handler and the controller into steps and run the operations of
  the event processor and the admin API in one step each. In \<open>Concurrent\<close> a call to Nomad or Consul is answered
  at one moment of the run, the wait for a healthy instance included, and \<^verbatim>\<open>mark_dormant\<close> and
  \<^verbatim>\<open>refresh_endpoint\<close> are one step each, while \<open>Wake\<close> takes them apart. In \<open>Handler\<close>, \<^verbatim>\<open>ensure_running\<close> is the call without
  interference; the guard and retry properties are proved in \<open>wake_service\<close> for every call that leaves the
  tracker alone. The heartbeat is the list of the times at which it records activity. Work that the code spawns
  (the release of the lock, the second activity record) is run where it is spawned.

  \<^bold>\<open>Not modelled.\<close> The subscriber that tracing installs, axum's routing and its server loop, the delivery of
  signals, and the copying of bytes through a tunnel: I/O of libraries. The crate roots only declare
  modules. Log output is left out everywhere.
\<close>

subsection \<open>Properties of the running process\<close>

text \<open>
  In the running process the in-flight counters are the open tunnels. Between the operations of
  the proxy, the controller, the event processor and the admin API, in whatever order they have
  run since the start, the in-flight count of every job is the number of its open WebSocket
  tunnels, as long as fewer than \<open>2 ^ 64\<close> are open.
\<close>

theorem process_counts_tunnels:
  assumes "process_reachable rt cfg p s" and "length (sys_tunnels s) < 2 ^ 64"
  shows "unat (Inflight.count k (nd_flights (sys_node s))) = length (tunnels_of k s)"
  using unat_count_tunnels process_inv [OF assms(1)] assms(2) by blast

text \<open>
  C17: An open tunnel protects its job. As long as a WebSocket tunnel of a job is open in the running
  process (and fewer than \<open>2 ^ 64\<close> are), the scale-down of the job by its id neither consults the
  orchestrator nor changes the coordinator, and a purge without force is refused and changes nothing.
\<close>

theorem open_tunnel_protects:
  assumes "process_reachable rt cfg p s" and "length (sys_tunnels s) < 2 ^ 64" and "tunnels_of k s \<noteq> []"
  shows "scale_down_job ((ps_controller p)\<lparr>ct_orchestrator := orch\<rparr>) (JobId k) (sys_node s) =
      scale_down_job (ps_controller p) (JobId k) (sys_node s) \<and>
    nd_coord (scale_down_job (ps_controller p) (JobId k) (sys_node s)) = nd_coord (sys_node s) \<and>
    process_step p (PurgeJob k False) s = s \<and>
    admin_status (fst (admin_purge_job (ps_admin p) k False (sys_node s))) = 409"
proof -
  have "0 < unat (Inflight.count k (nd_flights (sys_node s)))"
    using unat_count_tunnels [OF _ assms(2)] process_inv [OF assms(1)] assms(3) by simp
  then have b: "has_in_flight k (nd_flights (sys_node s))" by (auto simp: has_in_flight_count)
  then have "0 < Inflight.count k (nd_flights (sys_node s))" by (simp add: in_flight_pos)
  then show ?thesis
    using scale_down_in_flight [of "JobId k" "sys_node s"] b by (simp add: on_node_def admin_purge_job_def Let_def)
qed

theorem process_counts_tunnels_witness:
  "\<exists>s. process_reachable demo_runtime default_config demo_process s \<and> length (sys_tunnels s) < 2 ^ 64 \<and>
     unat (Inflight.count ''shop'' (nd_flights (sys_node s))) = 1"
proof -
  obtain s where s: "process_reachable demo_runtime default_config demo_process s" "length (sys_tunnels s) = 1"
    "length (tunnels_of ''shop'' s) = 1" using demo_tunnel_open by blast
  have "length (sys_tunnels s) < 2 ^ 64" by (simp add: s(2))
  with process_counts_tunnels [OF s(1) this, of "''shop''"] s show ?thesis by auto
qed

theorem open_tunnel_protects_witness:
  "\<exists>s. process_reachable demo_runtime default_config demo_process s \<and> tunnels_of ''shop'' s \<noteq> [] \<and>
     admin_status (fst (admin_purge_job (ps_admin demo_process) ''shop'' False (sys_node s))) = 409 \<and>
     nd_coord (scale_down_job (ps_controller demo_process) (JobId ''shop'') (sys_node s)) = nd_coord (sys_node s)"
proof -
  obtain s where s: "process_reachable demo_runtime default_config demo_process s" "length (sys_tunnels s) = 1"
    "length (tunnels_of ''shop'' s) = 1" using demo_tunnel_open by blast
  have "length (sys_tunnels s) < 2 ^ 64" "tunnels_of ''shop'' s \<noteq> []" using s(2,3) by auto
  with open_tunnel_protects [OF s(1) this] s(1) show ?thesis by auto
qed

subsection \<open>Several services of one job\<close>

definition shop_job :: json where
  "shop_job = JObject [(''ID'', JString ''shop''), (''TaskGroups'', JArray
     [JObject [(''Name'', JString ''front''), (''Services'', JArray
        [JObject [(''Name'', JString ''web''), (''Tags'', JArray [JString TRAEFIK_ENABLE_TAG,
           JString (ROUTER_PREFIX @ ''web.rule=x'')])]])],
      JObject [(''Name'', JString ''back''), (''Services'', JArray
        [JObject [(''Name'', JString ''api''), (''Tags'', JArray [JString TRAEFIK_ENABLE_TAG,
           JString (ROUTER_PREFIX @ ''api.rule=x'')])]])]])]"

lemma shop_job_inject: "\<exists>out. inject_nscale_tags shop_job ''nscale@file'' = Inr (out, [web_service, api_service])"
  by (simp add: shop_job_def web_service_def api_service_def inject_nscale_tags_def job_id_of_def
      inject_group_def on_array_member_def inject_service_tags_def inject_service_def
      has_traefik_enabled_def collect_router_names_def map_filter_def router_name_of_def
      strip_prefix_def upsert_is_rec service_tag_prefix_def tag_matches_def note_registration_def
      TRAEFIK_ENABLE_TAG_def ROUTER_PREFIX_def)


end
